(* ===== verification/Prelude.thy ===== *)
theory Prelude
  imports Main "HOL-Library.Word" "HOL-Library.Multiset"
begin

text \<open>
  Shared vocabulary of the development: the result type of fallible Rust
  code, the Rust iteration idioms over it, the machine integers at their
  widths, and the list facts the components use.

  The workspace is built with \<open>overflow-checks = true\<close> and
  \<open>panic = "abort"\<close> (\<open>src/Cargo.toml\<close>), so a plain \<open>+\<close>, \<open>-\<close>, \<open>*\<close> or
  \<open>Iterator::sum\<close> that leaves its type's range stops the process.  Such a
  stop is the value \<open>Panic\<close>, different from every error the code returns.
\<close>

named_theorems outcome_simps
named_theorems rust_arith

section \<open>Outcomes\<close>

datatype ('e, 'a) outcome = Ok 'a | Err 'e | Panic

fun and_then :: "('e, 'a) outcome \<Rightarrow> ('a \<Rightarrow> ('e, 'b) outcome) \<Rightarrow> ('e, 'b) outcome" where
  "and_then (Ok x) f = f x"
| "and_then (Err e) f = Err e"
| "and_then Panic f = Panic"

fun map_err :: "('e \<Rightarrow> 'f) \<Rightarrow> ('e, 'a) outcome \<Rightarrow> ('f, 'a) outcome" where
  "map_err g (Ok x) = Ok x"
| "map_err g (Err e) = Err (g e)"
| "map_err g Panic = Panic"

fun ok_or :: "'e \<Rightarrow> 'a option \<Rightarrow> ('e, 'a) outcome" where
  "ok_or e (Some x) = Ok x"
| "ok_or e None = Err e"

fun or_panic :: "'a option \<Rightarrow> ('e, 'a) outcome" where
  "or_panic (Some x) = Ok x"
| "or_panic None = Panic"

fun is_ok :: "('e, 'a) outcome \<Rightarrow> bool" where
  "is_ok (Ok x) = True"
| "is_ok (Err e) = False"
| "is_ok Panic = False"

text \<open>\<open>traverse\<close> is a \<open>for\<close> loop that pushes one fallible result per
  element and leaves at the first error; \<open>try_fold\<close> is one that threads a
  state.\<close>

fun traverse :: "('a \<Rightarrow> ('e, 'b) outcome) \<Rightarrow> 'a list \<Rightarrow> ('e, 'b list) outcome" where
  "traverse f [] = Ok []"
| "traverse f (x # xs) = and_then (f x) (\<lambda>y. and_then (traverse f xs) (\<lambda>ys. Ok (y # ys)))"

fun try_fold :: "('s \<Rightarrow> 'a \<Rightarrow> ('e, 's) outcome) \<Rightarrow> 's \<Rightarrow> 'a list \<Rightarrow> ('e, 's) outcome" where
  "try_fold f s [] = Ok s"
| "try_fold f s (x # xs) = and_then (f s x) (\<lambda>s'. try_fold f s' xs)"

section \<open>Machine integers\<close>

text \<open>A Rust integer is an \<open>int\<close> inside its type's bounds.  The operations
  on it name what happens at the bounds: \<open>checked_*\<close> gives \<open>None\<close>,
  \<open>saturating_*\<close> stops at the bound, the plain operator panics.\<close>

definition in_range :: "int \<Rightarrow> int \<Rightarrow> int \<Rightarrow> bool" where
  "in_range lo hi x \<longleftrightarrow> lo \<le> x \<and> x \<le> hi"

definition checked :: "int \<Rightarrow> int \<Rightarrow> int \<Rightarrow> int option" where
  "checked lo hi x = (if in_range lo hi x then Some x else None)"

definition saturating :: "int \<Rightarrow> int \<Rightarrow> int \<Rightarrow> int" where
  "saturating lo hi x = (if x < lo then lo else if hi < x then hi else x)"

definition trapping :: "int \<Rightarrow> int \<Rightarrow> int \<Rightarrow> ('e, int) outcome" where
  "trapping lo hi x = (if in_range lo hi x then Ok x else Panic)"

fun sum_from :: "int \<Rightarrow> int \<Rightarrow> int \<Rightarrow> int list \<Rightarrow> ('e, int) outcome" where
  "sum_from lo hi acc [] = Ok acc"
| "sum_from lo hi acc (x # xs) = and_then (trapping lo hi (acc + x)) (\<lambda>a. sum_from lo hi a xs)"

abbreviation (input) i16_max :: int where "i16_max \<equiv> 32767"
abbreviation (input) u16_max :: int where "u16_max \<equiv> 65535"
abbreviation (input) i32_min :: int where "i32_min \<equiv> - 2147483648"
abbreviation (input) i32_max :: int where "i32_max \<equiv> 2147483647"
abbreviation (input) u32_max :: int where "u32_max \<equiv> 4294967295"
abbreviation (input) i64_min :: int where "i64_min \<equiv> - 9223372036854775808"
abbreviation (input) i64_max :: int where "i64_max \<equiv> 9223372036854775807"
abbreviation (input) u64_max :: int where "u64_max \<equiv> 18446744073709551615"
abbreviation (input) i128_min :: int where "i128_min \<equiv> - 170141183460469231731687303715884105728"
abbreviation (input) i128_max :: int where "i128_max \<equiv> 170141183460469231731687303715884105727"
abbreviation (input) u128_max :: int where "u128_max \<equiv> 340282366920938463463374607431768211455"

abbreviation in_i64 :: "int \<Rightarrow> bool" where "in_i64 \<equiv> in_range i64_min i64_max"
abbreviation in_u64 :: "int \<Rightarrow> bool" where "in_u64 \<equiv> in_range 0 u64_max"
abbreviation sum_i64 :: "int list \<Rightarrow> ('e, int) outcome" where "sum_i64 \<equiv> sum_from i64_min i64_max 0"
abbreviation sum_u64 :: "int list \<Rightarrow> ('e, int) outcome" where "sum_u64 \<equiv> sum_from 0 u64_max 0"

text \<open>Integer division truncates toward zero.\<close>

definition tdiv :: "int \<Rightarrow> int \<Rightarrow> int" where
  "tdiv a b = sgn a * sgn b * (\<bar>a\<bar> div \<bar>b\<bar>)"

text \<open>\<open>u64 as i64\<close> reinterprets the two's complement bits.\<close>

definition u64_as_i64 :: "int \<Rightarrow> int" where
  "u64_as_i64 x = sint (word_of_int x :: 64 word)"

definition i64_as_u64 :: "int \<Rightarrow> int" where
  "i64_as_u64 x = uint (word_of_int x :: 64 word)"

section \<open>Facts on outcomes\<close>

lemma and_then_Ok_iff [outcome_simps]:
  "and_then m f = Ok y \<longleftrightarrow> (\<exists>x. m = Ok x \<and> f x = Ok y)"
  by (cases m) auto

lemma and_then_Err_iff [outcome_simps]:
  "and_then m f = Err e \<longleftrightarrow> m = Err e \<or> (\<exists>x. m = Ok x \<and> f x = Err e)"
  by (cases m) auto

lemma and_then_Panic_iff [outcome_simps]:
  "and_then m f = Panic \<longleftrightarrow> m = Panic \<or> (\<exists>x. m = Ok x \<and> f x = Panic)"
  by (cases m) auto

lemma and_then_OkE:
  assumes "and_then m f = Ok y"
  obtains x where "m = Ok x" and "f x = Ok y"
  using assms by (cases m) auto

lemma and_then_assoc: "and_then (and_then m f) g = and_then m (\<lambda>x. and_then (f x) g)"
  by (cases m) auto

lemma and_then_cong [fundef_cong]:
  "m = m' \<Longrightarrow> (\<And>x. m' = Ok x \<Longrightarrow> f x = f' x) \<Longrightarrow> and_then m f = and_then m' f'"
  by (cases m') auto

lemma map_err_iff [outcome_simps]:
  "map_err g m = Ok x \<longleftrightarrow> m = Ok x"
  "map_err g m = Err e \<longleftrightarrow> (\<exists>e'. m = Err e' \<and> e = g e')"
  "map_err g m = Panic \<longleftrightarrow> m = Panic"
  by (cases m; auto)+

lemma ok_or_iff [outcome_simps]:
  "ok_or e v = Ok x \<longleftrightarrow> v = Some x"
  "ok_or e v = Err e' \<longleftrightarrow> v = None \<and> e' = e"
  "ok_or e v \<noteq> Panic"
  by (cases v; auto)+

lemma or_panic_iff [outcome_simps]:
  "or_panic v = Ok x \<longleftrightarrow> v = Some x"
  "or_panic v \<noteq> Err e"
  "or_panic v = Panic \<longleftrightarrow> v = None"
  by (cases v; auto)+

lemma is_ok_iff [outcome_simps]: "is_ok m \<longleftrightarrow> (\<exists>x. m = Ok x)"
  by (cases m) auto

lemma traverse_Ok_iff: "traverse f xs = Ok ys \<longleftrightarrow> list_all2 (\<lambda>x y. f x = Ok y) xs ys"
  by (induction xs arbitrary: ys) (auto simp: outcome_simps list_all2_Cons1)

lemma traverse_Ok_length: "traverse f xs = Ok ys \<Longrightarrow> length ys = length xs"
  by (auto simp: traverse_Ok_iff dest: list_all2_lengthD)

lemma traverse_Ok_nth: "traverse f xs = Ok ys \<Longrightarrow> i < length xs \<Longrightarrow> f (xs ! i) = Ok (ys ! i)"
  by (auto simp: traverse_Ok_iff dest: list_all2_nthD)

lemma traverse_Ok_in: "traverse f xs = Ok ys \<Longrightarrow> y \<in> set ys \<Longrightarrow> \<exists>x \<in> set xs. f x = Ok y"
  by (metis in_set_conv_nth traverse_Ok_length traverse_Ok_nth)

lemma traverse_total: "(\<And>x. x \<in> set xs \<Longrightarrow> \<exists>y. f x = Ok y) \<Longrightarrow> \<exists>ys. traverse f xs = Ok ys"
proof (induction xs)
  case Nil
  then show ?case by simp
next
  case (Cons x xs)
  then obtain y ys where "f x = Ok y" "traverse f xs = Ok ys" by fastforce
  then show ?case by simp
qed

lemma try_fold_append:
  "try_fold f s (xs @ ys) = and_then (try_fold f s xs) (\<lambda>s'. try_fold f s' ys)"
  by (induction xs arbitrary: s) (auto simp: and_then_assoc)

text \<open>The loop rule: what every step keeps, the loop keeps.\<close>

lemma try_fold_invariant:
  assumes "try_fold f s xs = Ok s'" and "P s"
    and "\<And>a x b. x \<in> set xs \<Longrightarrow> P a \<Longrightarrow> f a x = Ok b \<Longrightarrow> P b"
  shows "P s'"
  using assms by (induction xs arbitrary: s) (auto simp: outcome_simps)

section \<open>Facts on machine integers\<close>

lemma in_range_simp [rust_arith]: "in_range lo hi x \<longleftrightarrow> lo \<le> x \<and> x \<le> hi"
  by (simp add: in_range_def)

lemma checked_iff [rust_arith]:
  "checked lo hi x = Some y \<longleftrightarrow> lo \<le> x \<and> x \<le> hi \<and> y = x"
  "checked lo hi x = None \<longleftrightarrow> x < lo \<or> hi < x"
  by (auto simp: checked_def in_range_def)

lemma trapping_iff [rust_arith]:
  "trapping lo hi x = Ok y \<longleftrightarrow> lo \<le> x \<and> x \<le> hi \<and> y = x"
  "trapping lo hi x = Panic \<longleftrightarrow> x < lo \<or> hi < x"
  "trapping lo hi x \<noteq> Err e"
  by (auto simp: trapping_def in_range_def)

lemma tdiv_nonneg [rust_arith]: "0 \<le> a \<Longrightarrow> 0 < b \<Longrightarrow> tdiv a b = a div b"
  by (cases "a = 0") (auto simp: tdiv_def)

lemma saturating_id [simp]: "lo \<le> x \<Longrightarrow> x \<le> hi \<Longrightarrow> saturating lo hi x = x"
  by (simp add: saturating_def)

lemma sum_from_Ok: "sum_from lo hi acc xs = Ok s \<Longrightarrow> s = acc + sum_list xs"
  by (induction xs arbitrary: acc) (fastforce simp: outcome_simps rust_arith)+

lemma sum_from_range:
  "sum_from lo hi acc xs = Ok s \<Longrightarrow> lo \<le> acc \<Longrightarrow> acc \<le> hi \<Longrightarrow> lo \<le> s \<and> s \<le> hi"
  by (induction xs arbitrary: acc) (auto simp: outcome_simps rust_arith)

lemma sum_from_no_Err: "sum_from lo hi acc xs \<noteq> Err e"
  by (induction xs arbitrary: acc) (auto simp: outcome_simps rust_arith)

text \<open>What holds at every width, given only that the width contains zero.\<close>

locale machine_int =
  fixes lo hi :: int
  assumes lo_le_0: "lo \<le> 0" and hi_pos: "0 < hi"
begin

lemma saturating_in_range: "in_range lo hi (saturating lo hi x)"
  using lo_le_0 hi_pos by (auto simp: in_range_def saturating_def)

lemma saturating_mono: "x \<le> y \<Longrightarrow> saturating lo hi x \<le> saturating lo hi y"
  using lo_le_0 hi_pos by (auto simp: saturating_def)

lemma saturating_nonneg: "0 \<le> x \<Longrightarrow> 0 \<le> saturating lo hi x"
  using lo_le_0 hi_pos by (auto simp: saturating_def)

lemma saturating_le: "0 \<le> x \<Longrightarrow> saturating lo hi x \<le> x"
  using lo_le_0 by (auto simp: saturating_def)

lemma sum_from_nonneg:
  assumes "\<forall>x \<in> set xs. 0 \<le> x" and "0 \<le> acc" and "acc + sum_list xs \<le> hi"
  shows "sum_from lo hi acc xs = Ok (acc + sum_list xs)"
  using assms
proof (induction xs arbitrary: acc)
  case Nil
  then show ?case by simp
next
  case (Cons x xs)
  have "0 \<le> sum_list xs" using Cons.prems(1) by (intro sum_list_nonneg) auto
  then show ?case
    using Cons.IH[of "acc + x"] Cons.prems lo_le_0
    by (auto simp: trapping_def in_range_def add.assoc)
qed

end

interpretation i64: machine_int i64_min i64_max by unfold_locales auto
interpretation u64: machine_int 0 u64_max by unfold_locales auto
interpretation u32: machine_int 0 u32_max by unfold_locales auto
interpretation i32: machine_int i32_min i32_max by unfold_locales auto
interpretation u128: machine_int 0 u128_max by unfold_locales auto

lemma u64_as_i64_id: "0 \<le> x \<Longrightarrow> x \<le> i64_max \<Longrightarrow> u64_as_i64 x = x"
  by (simp add: u64_as_i64_def sint_sbintrunc' signed_take_bit_int_eq_self)

section \<open>Facts on lists\<close>

lemma sum_list_set:
  "i < length xs \<Longrightarrow> sum_list (xs[i := v]) = sum_list xs - xs ! i + (v :: int)"
  by (induction xs arbitrary: i) (auto split: nat.split)

lemma sum_list_member_le:
  fixes xs :: "int list"
  shows "\<forall>x \<in> set xs. 0 \<le> x \<Longrightarrow> x \<in> set xs \<Longrightarrow> x \<le> sum_list xs"
  using member_le_sum_list by blast

end
