(* ===== verification/RustStr.thy ===== *)
theory RustStr
  imports Prelude
begin

text \<open>
  The parts of Rust's string library the sources call on operator and service
  input: \<open>str::parse\<close> for the unsigned integer types, the decimal \<open>Display\<close>
  of an integer, and the ASCII character classes.  Strings are lists of
  characters; the code only ever compares them bytewise against ASCII.
\<close>

definition is_ascii_digit :: "char \<Rightarrow> bool" where
  "is_ascii_digit c \<longleftrightarrow> 48 \<le> (of_char c :: nat) \<and> (of_char c :: nat) \<le> 57"

definition is_ascii_lowercase :: "char \<Rightarrow> bool" where
  "is_ascii_lowercase c \<longleftrightarrow> 97 \<le> (of_char c :: nat) \<and> (of_char c :: nat) \<le> 122"

definition is_ascii_uppercase :: "char \<Rightarrow> bool" where
  "is_ascii_uppercase c \<longleftrightarrow> 65 \<le> (of_char c :: nat) \<and> (of_char c :: nat) \<le> 90"

definition is_ascii_alphanumeric :: "char \<Rightarrow> bool" where
  "is_ascii_alphanumeric c \<longleftrightarrow> is_ascii_digit c \<or> is_ascii_lowercase c \<or> is_ascii_uppercase c"

definition digit_value :: "char \<Rightarrow> int" where
  "digit_value c = int (of_char c) - 48"

text \<open>The digit loop of \<open>from_str_radix\<close>: it stops at the first character
  that is not a digit and at the first digit that leaves the type.\<close>

fun parse_digits :: "int \<Rightarrow> int \<Rightarrow> string \<Rightarrow> int option" where
  "parse_digits mx acc [] = Some acc"
| "parse_digits mx acc (c # cs) =
     (if is_ascii_digit c
      then (let a = acc * 10 + digit_value c in if mx < a then None else parse_digits mx a cs)
      else None)"

text \<open>\<open>str::parse::<uN>\<close>: a leading plus sign is accepted, the empty string
  and a lone sign are not.\<close>

fun parse_uint :: "int \<Rightarrow> string \<Rightarrow> int option" where
  "parse_uint mx [] = None"
| "parse_uint mx (c # cs) =
     (if c = CHR ''+'' then (if cs = [] then None else parse_digits mx 0 cs)
      else parse_digits mx 0 (c # cs))"

definition digit_char :: "nat \<Rightarrow> char" where
  "digit_char d = char_of (48 + d)"

fun show_nat :: "nat \<Rightarrow> string" where
  "show_nat n = (if n < 10 then [digit_char n] else show_nat (n div 10) @ [digit_char (n mod 10)])"

declare show_nat.simps [simp del]

definition show_int :: "int \<Rightarrow> string" where
  "show_int i = (if i < 0 then CHR ''-'' # show_nat (nat (- i)) else show_nat (nat i))"

text \<open>\<open>str::strip_prefix\<close> and \<open>str::split_once\<close>.\<close>

definition strip_prefix :: "string \<Rightarrow> string \<Rightarrow> string option" where
  "strip_prefix p s = (if take (length p) s = p then Some (drop (length p) s) else None)"

fun split_once :: "char \<Rightarrow> string \<Rightarrow> (string \<times> string) option" where
  "split_once c [] = None"
| "split_once c (x # xs) =
     (if x = c then Some ([], xs)
      else case split_once c xs of None \<Rightarrow> None | Some (a, b) \<Rightarrow> Some (x # a, b))"

lemma strip_prefix_Some_iff: "strip_prefix p s = Some r \<longleftrightarrow> s = p @ r"
  by (auto simp: strip_prefix_def) (metis append_take_drop_id)

lemma strip_prefix_append [simp]: "strip_prefix p (p @ r) = Some r"
  by (simp add: strip_prefix_def)

section \<open>Printing and parsing decimal integers\<close>

lemma of_char_digit: "d < 10 \<Longrightarrow> (of_char (digit_char d) :: nat) = 48 + d"
  by (simp add: digit_char_def of_char_of take_bit_eq_mod)

lemma digit_char_simps [simp]:
  assumes "d < 10"
  shows "is_ascii_digit (digit_char d)" and "digit_value (digit_char d) = int d"
    and "digit_char d \<noteq> CHR ''+''" and "digit_char d \<noteq> CHR ''-''"
proof -
  have n: "(of_char (digit_char d) :: nat) = 48 + d" using assms by (rule of_char_digit)
  then show "digit_value (digit_char d) = int d" by (simp add: digit_value_def)
  show "is_ascii_digit (digit_char d)" using n assms by (simp add: is_ascii_digit_def)
  show "digit_char d \<noteq> CHR ''+''" "digit_char d \<noteq> CHR ''-''" using n by auto
qed

lemma parse_digits_append:
  "parse_digits mx acc (xs @ ys) =
     (case parse_digits mx acc xs of None \<Rightarrow> None | Some a \<Rightarrow> parse_digits mx a ys)"
  by (induction xs arbitrary: acc) (auto simp: Let_def)

lemma parse_digits_show_nat: "int n \<le> mx \<Longrightarrow> parse_digits mx 0 (show_nat n) = Some (int n)"
proof (induction n rule: show_nat.induct)
  case (1 n)
  show ?case
  proof (cases "n < 10")
    case True
    then show ?thesis using 1 by (simp add: show_nat.simps)
  next
    case False
    have "int (n div 10) \<le> mx" using 1(2) by (metis div_le_dividend of_nat_mono order_trans)
    then have "parse_digits mx 0 (show_nat (n div 10)) = Some (int (n div 10))"
      using 1 False by simp
    moreover have "int (n div 10) * 10 + int (n mod 10) = int n"
      by (metis div_mult_mod_eq of_nat_add of_nat_mult of_nat_numeral)
    ultimately show ?thesis
      using False 1 by (subst show_nat.simps) (simp add: parse_digits_append Let_def)
  qed
qed

lemma show_nat_Cons: "\<exists>d cs. d < 10 \<and> show_nat n = digit_char d # cs"
proof (induction n rule: show_nat.induct)
  case (1 n)
  then show ?case by (cases "n < 10") (force simp: show_nat.simps[of n])+
qed

lemma parse_uint_show_nat: "int n \<le> mx \<Longrightarrow> parse_uint mx (show_nat n) = Some (int n)"
  using parse_digits_show_nat[of n mx] show_nat_Cons[of n] by (auto simp del: parse_digits.simps)

lemma parse_digits_bounds:
  "parse_digits mx acc s = Some v \<Longrightarrow> 0 \<le> acc \<Longrightarrow> acc \<le> mx \<Longrightarrow> 0 \<le> v \<and> v \<le> mx"
proof (induction s arbitrary: acc)
  case Nil
  then show ?case by simp
next
  case (Cons c cs)
  have "0 \<le> digit_value c" if "is_ascii_digit c"
    using that by (simp add: is_ascii_digit_def digit_value_def)
  then show ?case using Cons by (auto simp: Let_def split: if_splits)
qed

lemma parse_uint_bounds: "parse_uint mx s = Some v \<Longrightarrow> 0 \<le> mx \<Longrightarrow> 0 \<le> v \<and> v \<le> mx"
  by (cases s) (auto dest: parse_digits_bounds simp del: parse_digits.simps split: if_splits)

text \<open>Two numbers with the same decimal text are equal: the text parses back.\<close>

lemma show_nat_inj: "show_nat a = show_nat b \<Longrightarrow> a = b"
proof -
  assume eq: "show_nat a = show_nat b"
  have "parse_uint (int (max a b)) (show_nat a) = Some (int a)"
    "parse_uint (int (max a b)) (show_nat b) = Some (int b)"
    by (rule parse_uint_show_nat; simp)+
  with eq show ?thesis by (metis of_nat_eq_iff option.inject)
qed

section \<open>Canonical decimals\<close>

lemma show_nat_digits: "c \<in> set (show_nat n) \<Longrightarrow> is_ascii_digit c"
proof (induction n rule: show_nat.induct)
  case (1 n)
  then show ?case by (subst (asm) show_nat.simps) (auto split: if_splits)
qed

lemma show_nat_all_digits: "list_all is_ascii_digit (show_nat n)"
  using show_nat_digits by (simp add: list_all_iff)

lemma digit_char_value: "is_ascii_digit c \<Longrightarrow> digit_char (nat (digit_value c)) = c"
  by (simp add: is_ascii_digit_def digit_value_def digit_char_def nat_diff_distrib)

lemma digit_char_0: "digit_char 0 = CHR ''0''"
  by code_simp

lemma digit_value_range: "is_ascii_digit c \<Longrightarrow> 0 \<le> digit_value c \<and> digit_value c < 10"
  by (simp add: is_ascii_digit_def digit_value_def)

lemma show_nat_first: "n \<noteq> 0 \<Longrightarrow> hd (show_nat n) \<noteq> CHR ''0''"
proof (induction n rule: show_nat.induct)
  case (1 n)
  show ?case
  proof (cases "n < 10")
    case True
    then have "(of_char (digit_char n) :: nat) \<noteq> of_char CHR ''0''" using 1 by (simp add: of_char_digit)
    then have "digit_char n \<noteq> CHR ''0''" by metis
    with True show ?thesis by (simp add: show_nat.simps)
  next
    case False
    moreover obtain d cs where "show_nat (n div 10) = d # cs" using show_nat_Cons by metis
    ultimately show ?thesis using 1 by (simp add: show_nat.simps[of n])
  qed
qed

lemma parse_digits_canonical:
  "parse_digits mx acc cs = Some v \<Longrightarrow> 0 < acc \<Longrightarrow> show_nat (nat v) = show_nat (nat acc) @ cs"
proof (induction cs arbitrary: acc)
  case Nil
  then show ?case by simp
next
  case (Cons c cs)
  let ?a = "acc * 10 + digit_value c"
  from Cons.prems(1) have d: "is_ascii_digit c" and r: "parse_digits mx ?a cs = Some v"
    by (auto simp: Let_def split: if_splits)
  note b = digit_value_range[OF d]
  have "nat ?a = nat acc * 10 + nat (digit_value c)" using b Cons.prems(2) by (simp add: nat_add_distrib nat_mult_distrib)
  moreover have "nat (digit_value c) < 10" "1 \<le> nat acc" using b Cons.prems(2) by auto
  ultimately have "show_nat (nat ?a) = show_nat (nat acc) @ [digit_char (nat (digit_value c))]"
    by (simp add: show_nat.simps[of "nat acc * 10 + nat (digit_value c)"])
  moreover have "show_nat (nat v) = show_nat (nat ?a) @ cs" using Cons.IH[OF r] b Cons.prems(2) by simp
  ultimately show ?case by (simp add: digit_char_value[OF d])
qed

text \<open>\<open>str::split\<close> on a character.\<close>

fun split_char :: "char \<Rightarrow> string \<Rightarrow> string list" where
  "split_char sep [] = [[]]"
| "split_char sep (c # cs) =
     (if c = sep then [] # split_char sep cs
      else case split_char sep cs of p # ps \<Rightarrow> (c # p) # ps | [] \<Rightarrow> [[c]])"

section \<open>Decimal strings\<close>

definition decimal_value :: "string \<Rightarrow> int" where
  "decimal_value cs = foldl (\<lambda>a c. a * 10 + digit_value c) 0 cs"

lemma foldl_digits_ge:
  "list_all is_ascii_digit cs \<Longrightarrow> 0 \<le> acc \<Longrightarrow> acc \<le> foldl (\<lambda>a c. a * 10 + digit_value c) acc cs"
proof (induction cs arbitrary: acc)
  case (Cons c cs)
  have "acc * 10 + digit_value c \<le> foldl (\<lambda>a c. a * 10 + digit_value c) (acc * 10 + digit_value c) cs"
    using Cons digit_value_range[of c] by simp
  with Cons.prems digit_value_range[of c] show ?case by simp
qed simp

lemma parse_digits_iff:
  "0 \<le> acc \<Longrightarrow> acc \<le> mx \<Longrightarrow>
   parse_digits mx acc cs = Some v \<longleftrightarrow>
     list_all is_ascii_digit cs \<and> v = foldl (\<lambda>a c. a * 10 + digit_value c) acc cs \<and> v \<le> mx"
proof (induction cs arbitrary: acc)
  case (Cons c cs)
  let ?a = "acc * 10 + digit_value c"
  show ?case
  proof (cases "is_ascii_digit c \<and> ?a \<le> mx")
    case True
    then show ?thesis using Cons.IH[of ?a] Cons.prems digit_value_range[of c] by (simp add: Let_def)
  next
    case False
    have "mx < foldl (\<lambda>a c. a * 10 + digit_value c) ?a cs"
      if "is_ascii_digit c" "list_all is_ascii_digit cs"
      using foldl_digits_ge[of cs ?a] that False Cons.prems digit_value_range[of c] by simp
    with False show ?thesis by (auto simp: Let_def)
  qed
qed auto

lemma parse_uint_digits:
  assumes "list_all is_ascii_digit cs" and "cs \<noteq> []" and "0 \<le> mx"
  shows "parse_uint mx cs = Some v \<longleftrightarrow> v = decimal_value cs \<and> v \<le> mx"
proof -
  obtain c r where cs: "cs = c # r" using assms(2) by (cases cs) auto
  then have "c \<noteq> CHR ''+''" using assms(1) by (auto simp: is_ascii_digit_def)
  then show ?thesis using parse_digits_iff[of 0 mx cs v] assms cs by (simp add: decimal_value_def)
qed

lemma split_char_no_sep: "c \<notin> set xs \<Longrightarrow> split_char c xs = [xs]"
  by (induction xs) auto

lemma split_char_one: "c \<notin> set xs \<Longrightarrow> split_char c (xs @ c # ys) = xs # split_char c ys"
  by (induction xs) auto

lemma split_char_nonempty: "split_char c xs \<noteq> []"
  by (induction xs) (auto split: list.splits)

lemma split_char_parts: "split_char c xs = p # ps \<Longrightarrow> c \<notin> set p \<and>
    (if ps = [] then xs = p else \<exists>ys. xs = p @ c # ys \<and> split_char c ys = ps)"
proof (induction xs arbitrary: p ps)
  case (Cons x xs)
  obtain q qs where q: "split_char c xs = q # qs"
    using split_char_nonempty[of c xs] by (cases "split_char c xs") auto
  show ?case
  proof (cases "x = c")
    case True
    with Cons.prems q show ?thesis by auto
  next
    case False
    with Cons.prems q have p: "p = x # q" "ps = qs" by simp_all
    from Cons.IH[OF q] False p show ?thesis by (auto split: if_splits)
  qed
qed auto


end
