(* ===== verification/Float64.thy ===== *)
theory Float64
  imports Prelude "HOL-Library.Log_Nat"
begin

text \<open>
  IEEE 754 binary64 as the money path uses it: \<open>+\<close>, \<open>*\<close>, \<open>/\<close>, comparisons,
  \<open>floor\<close>, \<open>ceil\<close> and the casts between \<open>f64\<close> and the integer types.  A
  finite value is the rational number it denotes; each operation computes the
  exact rational result and rounds it once, to nearest with ties to even, to
  a multiple of the unit in the last place (53 significant bits, exponents
  from -1074).  The two zeros are one value: no modelled operation divides by
  a zero or inspects its sign.
\<close>

section \<open>Rounding\<close>

definition flog2 :: "rat \<Rightarrow> int" where
  "flog2 q =
     (let (n, d) = quotient_of q; k = bitlen n - bitlen d in
      if 2 powi k \<le> q then k else k - 1)"

definition ulp_exp :: "rat \<Rightarrow> int" where
  "ulp_exp q = max (flog2 q - 52) (- 1074)"

text \<open>Nearest integer, ties to even.\<close>

definition rne :: "rat \<Rightarrow> int" where
  "rne q =
     (let f = \<lfloor>q\<rfloor>; d = q - of_int f in
      if d < 1 / 2 then f else if d > 1 / 2 then f + 1 else if even f then f else f + 1)"

definition rnd_pos :: "rat \<Rightarrow> rat" where
  "rnd_pos q = (if q = 0 then 0 else let u = 2 powi (ulp_exp q) in of_int (rne (q / u)) * u)"

definition rnd64 :: "rat \<Rightarrow> rat" where
  "rnd64 q = (if q < 0 then - rnd_pos (- q) else rnd_pos q)"

section \<open>Values and operations\<close>

text \<open>\<open>Inf True\<close> is the negative infinity.\<close>

datatype f64 = NaN | Inf bool | Fin rat

definition f64_limit :: rat where "f64_limit = 2 ^ 1024"

definition to_f64 :: "rat \<Rightarrow> f64" where
  "to_f64 q = (let r = rnd64 q in if f64_limit \<le> \<bar>r\<bar> then Inf (r < 0) else Fin r)"

text \<open>The values the type has.\<close>

fun f64_valid :: "f64 \<Rightarrow> bool" where
  "f64_valid (Fin r) \<longleftrightarrow> rnd64 r = r \<and> \<bar>r\<bar> < f64_limit"
| "f64_valid _ \<longleftrightarrow> True"

fun f64_is_finite :: "f64 \<Rightarrow> bool" where
  "f64_is_finite (Fin r) = True"
| "f64_is_finite _ = False"

fun f64_add :: "f64 \<Rightarrow> f64 \<Rightarrow> f64" where
  "f64_add (Fin a) (Fin b) = to_f64 (a + b)"
| "f64_add (Inf s) (Inf t) = (if s = t then Inf s else NaN)"
| "f64_add (Inf s) (Fin b) = Inf s"
| "f64_add (Fin a) (Inf t) = Inf t"
| "f64_add _ _ = NaN"

fun f64_mul :: "f64 \<Rightarrow> f64 \<Rightarrow> f64" where
  "f64_mul (Fin a) (Fin b) = to_f64 (a * b)"
| "f64_mul (Inf s) (Inf t) = Inf (s \<noteq> t)"
| "f64_mul (Inf s) (Fin b) = (if b = 0 then NaN else Inf (s \<noteq> (b < 0)))"
| "f64_mul (Fin a) (Inf t) = (if a = 0 then NaN else Inf (t \<noteq> (a < 0)))"
| "f64_mul _ _ = NaN"

fun f64_div :: "f64 \<Rightarrow> f64 \<Rightarrow> f64" where
  "f64_div (Fin a) (Fin b) =
     (if b = 0 then (if a = 0 then NaN else Inf (a < 0)) else to_f64 (a / b))"
| "f64_div (Inf s) (Fin b) = Inf (s \<noteq> (b < 0))"
| "f64_div (Fin a) (Inf t) = Fin 0"
| "f64_div _ _ = NaN"

text \<open>Comparisons are false on NaN.\<close>

fun f64_le :: "f64 \<Rightarrow> f64 \<Rightarrow> bool" where
  "f64_le (Fin a) (Fin b) = (a \<le> b)"
| "f64_le (Inf s) (Inf t) = (s \<or> \<not> t)"
| "f64_le (Inf s) (Fin b) = s"
| "f64_le (Fin a) (Inf t) = (\<not> t)"
| "f64_le _ _ = False"

fun f64_lt :: "f64 \<Rightarrow> f64 \<Rightarrow> bool" where
  "f64_lt (Fin a) (Fin b) = (a < b)"
| "f64_lt (Inf s) (Inf t) = (s \<and> \<not> t)"
| "f64_lt (Inf s) (Fin b) = s"
| "f64_lt (Fin a) (Inf t) = (\<not> t)"
| "f64_lt _ _ = False"

fun f64_eq :: "f64 \<Rightarrow> f64 \<Rightarrow> bool" where
  "f64_eq NaN _ = False"
| "f64_eq _ NaN = False"
| "f64_eq a b = (a = b)"

fun f64_floor :: "f64 \<Rightarrow> f64" where
  "f64_floor (Fin a) = Fin (of_int \<lfloor>a\<rfloor>)"
| "f64_floor v = v"

fun f64_ceil :: "f64 \<Rightarrow> f64" where
  "f64_ceil (Fin a) = Fin (of_int \<lceil>a\<rceil>)"
| "f64_ceil v = v"

text \<open>\<open>f64::min\<close> ignores a NaN.\<close>

fun f64_min :: "f64 \<Rightarrow> f64 \<Rightarrow> f64" where
  "f64_min NaN b = b"
| "f64_min a NaN = a"
| "f64_min a b = (if f64_le a b then a else b)"

text \<open>Casts: from an integer, round; to an integer, truncate, saturate at the
  bounds of the type and send NaN to zero.\<close>

definition int_as_f64 :: "int \<Rightarrow> f64" where
  "int_as_f64 n = to_f64 (of_int n)"

definition truncate_rat :: "rat \<Rightarrow> int" where
  "truncate_rat a = (if a < 0 then \<lceil>a\<rceil> else \<lfloor>a\<rfloor>)"

fun f64_as_int :: "int \<Rightarrow> int \<Rightarrow> f64 \<Rightarrow> int" where
  "f64_as_int lo hi NaN = 0"
| "f64_as_int lo hi (Inf s) = (if s then lo else hi)"
| "f64_as_int lo hi (Fin a) = saturating lo hi (truncate_rat a)"

text \<open>\<open>Iterator::sum\<close> on \<open>f64\<close>.\<close>

definition f64_sum :: "f64 list \<Rightarrow> f64" where
  "f64_sum = foldl f64_add (Fin 0)"

section \<open>The exponent\<close>

lemma powi2_less_iff [simp]: "(2 :: rat) powi a < 2 powi b \<longleftrightarrow> a < b"
proof
  assume "(2 :: rat) powi a < 2 powi b"
  then show "a < b" using power_int_increasing[of b a "2 :: rat"] by (meson not_le one_le_numeral)
next
  assume "a < b"
  then show "(2 :: rat) powi a < 2 powi b" by (intro power_int_strict_increasing) auto
qed

lemma powi2_le_iff [simp]: "(2 :: rat) powi a \<le> 2 powi b \<longleftrightarrow> a \<le> b"
  by (meson not_le powi2_less_iff)

lemma powi2_split: "(2 :: rat) powi (a + b) = 2 powi a * 2 powi b"
  by (simp add: power_int_add)

lemma powi2_int: "0 \<le> e \<Longrightarrow> (2 :: rat) powi e = of_int (2 ^ nat e)"
  by (simp add: power_int_def)

lemma flog2_bounds:
  assumes "0 < q"
  shows "2 powi (flog2 q) \<le> q" and "q < 2 powi (flog2 q + 1)"
proof -
  obtain n d where nd: "quotient_of q = (n, d)" by fastforce
  have d: "0 < d" using quotient_of_denom_pos[OF nd] .
  have q: "q = of_int n / of_int d" using quotient_of_div[OF nd] .
  have n: "0 < n" using assms d q by (simp add: zero_less_divide_iff)
  define a b where "a = bitlen n" and "b = bitlen d"
  have ab: "1 \<le> a" "1 \<le> b" using n d bitlen_ge_iff_power[of 1 n] bitlen_ge_iff_power[of 1 d]
    by (auto simp: a_def b_def)
  have int_bounds: "2 powi (bitlen x - 1) \<le> (of_int x :: rat)" "(of_int x :: rat) < 2 powi (bitlen x)"
    if "0 < x" for x
  proof -
    have len: "1 \<le> bitlen x" using that bitlen_ge_iff_power[of 1 x] by auto
    have "2 ^ nat (bitlen x - 1) \<le> x" "x < 2 ^ nat (bitlen x)" using bitlen_bounds[OF that] by auto
    then have "(of_int (2 ^ nat (bitlen x - 1)) :: rat) \<le> of_int x"
      "(of_int x :: rat) < of_int (2 ^ nat (bitlen x))" by (simp_all only: of_int_le_iff of_int_less_iff)
    then show "2 powi (bitlen x - 1) \<le> (of_int x :: rat)" "(of_int x :: rat) < 2 powi (bitlen x)"
      using len by (simp_all add: power_int_def)
  qed
  note bn = int_bounds[OF n, folded a_def] and bd = int_bounds[OF d, folded b_def]
  have dpos: "(0 :: rat) < of_int d" using d by simp
  have lower: "2 powi (a - b - 1) \<le> q"
  proof -
    have "(2 :: rat) powi (a - b - 1) * of_int d \<le> 2 powi (a - b - 1) * 2 powi b"
      using bd by (intro mult_left_mono) auto
    also have "\<dots> = 2 powi (a - 1)" by (simp flip: power_int_add)
    also have "\<dots> \<le> of_int n" using bn by simp
    finally show ?thesis using dpos by (simp add: q pos_le_divide_eq)
  qed
  have upper: "q < 2 powi (a - b + 1)"
  proof -
    have "of_int n < (2 :: rat) powi a" using bn by simp
    also have "(2 :: rat) powi a = 2 powi (a - b + 1) * 2 powi (b - 1)" by (simp flip: power_int_add)
    also have "\<dots> \<le> 2 powi (a - b + 1) * of_int d" using bd by (intro mult_left_mono) auto
    finally show ?thesis using dpos by (simp add: q pos_divide_less_eq)
  qed
  have "flog2 q = (if 2 powi (a - b) \<le> q then a - b else a - b - 1)"
    by (simp add: flog2_def nd a_def b_def)
  then show "2 powi (flog2 q) \<le> q" "q < 2 powi (flog2 q + 1)"
    using lower upper by (auto simp: not_le)
qed

lemma flog2_unique:
  assumes "2 powi e \<le> q" and "q < 2 powi (e + 1)"
  shows "flog2 q = e"
proof -
  have "0 < q" using assms(1) by (meson less_le_trans zero_less_power_int zero_less_numeral)
  note b = flog2_bounds[OF this]
  have "(2 :: rat) powi (flog2 q) < 2 powi (e + 1)" "(2 :: rat) powi e < 2 powi (flog2 q + 1)"
    using b assms by (meson le_less_trans)+
  then show ?thesis by simp
qed

lemma flog2_mono: "0 < q \<Longrightarrow> q \<le> q' \<Longrightarrow> flog2 q \<le> flog2 q'"
proof -
  assume "0 < q" "q \<le> q'"
  then have "(2 :: rat) powi (flog2 q) < 2 powi (flog2 q' + 1)"
    using flog2_bounds[of q] flog2_bounds[of q'] by linarith
  then show ?thesis by simp
qed

section \<open>Rounding to nearest even\<close>

lemma rne_of_int [simp]: "rne (of_int n) = n"
  by (simp add: rne_def)

lemma rne_bounds: "\<lfloor>q\<rfloor> \<le> rne q" "rne q \<le> \<lfloor>q\<rfloor> + 1"
  by (auto simp: rne_def Let_def)

lemma rne_mono: "p \<le> q \<Longrightarrow> rne p \<le> rne q"
proof -
  assume le: "p \<le> q"
  then have fl: "\<lfloor>p\<rfloor> \<le> \<lfloor>q\<rfloor>" by (rule floor_mono)
  show ?thesis
  proof (cases "\<lfloor>p\<rfloor> = \<lfloor>q\<rfloor>")
    case True
    then show ?thesis using le by (auto simp: rne_def Let_def)
  next
    case False
    then show ?thesis using fl rne_bounds[of p] rne_bounds[of q] by linarith
  qed
qed

lemma rne_le_int: "q \<le> of_int n \<Longrightarrow> rne q \<le> n"
  using rne_mono[of q "of_int n"] by simp

lemma rne_ge_int: "of_int n \<le> q \<Longrightarrow> n \<le> rne q"
  using rne_mono[of "of_int n" q] by simp

lemma rnd_pos_0 [simp]: "rnd_pos 0 = 0"
  by (simp add: rnd_pos_def)

lemma rnd_pos_eq: "q \<noteq> 0 \<Longrightarrow> rnd_pos q = of_int (rne (q / 2 powi (ulp_exp q))) * 2 powi (ulp_exp q)"
  by (simp add: rnd_pos_def Let_def)

lemma rnd_pos_nonneg: "0 \<le> q \<Longrightarrow> 0 \<le> rnd_pos q"
  using rne_ge_int[of 0 "q / 2 powi (ulp_exp q)"] by (cases "q = 0") (auto simp: rnd_pos_eq)

text \<open>A bound that is a multiple of the unit in the last place survives
  rounding.\<close>

lemma rnd_pos_le_grid:
  assumes "0 < q" and "q \<le> of_int k * 2 powi e" and "ulp_exp q \<le> e"
  shows "rnd_pos q \<le> of_int k * 2 powi e"
proof -
  let ?u = "(2 :: rat) powi (ulp_exp q)"
  have split: "of_int k * 2 powi e = of_int (k * 2 ^ nat (e - ulp_exp q)) * ?u"
    using powi2_split[of "e - ulp_exp q" "ulp_exp q"] assms(3) by (simp add: powi2_int)
  have "q / ?u \<le> of_int (k * 2 ^ nat (e - ulp_exp q))"
    using assms(2) unfolding split by (simp add: pos_divide_le_eq)
  then have "rne (q / ?u) \<le> k * 2 ^ nat (e - ulp_exp q)" by (rule rne_le_int)
  then have "(of_int (rne (q / ?u)) :: rat) \<le> of_int (k * 2 ^ nat (e - ulp_exp q))"
    by (simp only: of_int_le_iff)
  then show ?thesis using assms(1) unfolding split by (simp add: rnd_pos_eq)
qed

lemma rnd_pos_ge_grid:
  assumes "0 < q" and "of_int k * 2 powi e \<le> q" and "ulp_exp q \<le> e"
  shows "of_int k * 2 powi e \<le> rnd_pos q"
proof -
  let ?u = "(2 :: rat) powi (ulp_exp q)"
  have split: "of_int k * 2 powi e = of_int (k * 2 ^ nat (e - ulp_exp q)) * ?u"
    using powi2_split[of "e - ulp_exp q" "ulp_exp q"] assms(3) by (simp add: powi2_int)
  have "of_int (k * 2 ^ nat (e - ulp_exp q)) \<le> q / ?u"
    using assms(2) unfolding split by (simp add: pos_le_divide_eq)
  then have "k * 2 ^ nat (e - ulp_exp q) \<le> rne (q / ?u)" by (rule rne_ge_int)
  then have "of_int (k * 2 ^ nat (e - ulp_exp q)) \<le> (of_int (rne (q / ?u)) :: rat)"
    by (simp only: of_int_le_iff)
  then show ?thesis using assms(1) unfolding split by (simp add: rnd_pos_eq)
qed

lemma ulp_exp_mono: "0 < q \<Longrightarrow> q \<le> q' \<Longrightarrow> ulp_exp q \<le> ulp_exp q'"
  using flog2_mono[of q q'] by (auto simp: ulp_exp_def)

text \<open>Rounding is monotone: inside one binade it is the monotone \<open>rne\<close>, and
  across binades the power of two between the two numbers is on both grids.\<close>

lemma rnd_pos_mono:
  assumes "0 < q" and "q \<le> q'"
  shows "rnd_pos q \<le> rnd_pos q'"
proof (cases "ulp_exp q = ulp_exp q'")
  case True
  have "q / 2 powi (ulp_exp q) \<le> q' / 2 powi (ulp_exp q)"
    using assms by (intro divide_right_mono) auto
  then show ?thesis using assms True by (simp add: rnd_pos_eq rne_mono)
next
  case False
  then have lt: "ulp_exp q < ulp_exp q'" using ulp_exp_mono[OF assms] by simp
  then have e': "ulp_exp q' = flog2 q' - 52" and fl: "flog2 q < flog2 q'"
    by (auto simp: ulp_exp_def max_def split: if_splits)
  have pos: "0 < q'" using assms by simp
  have "(2 :: rat) powi (flog2 q + 1) \<le> 2 powi (flog2 q')" using fl by simp
  then have "q \<le> 2 powi (flog2 q')" using flog2_bounds(2)[OF assms(1)] by linarith
  then have "rnd_pos q \<le> of_int 1 * 2 powi (flog2 q')"
    using lt e' by (intro rnd_pos_le_grid assms) auto
  also have "\<dots> \<le> rnd_pos q'"
    using flog2_bounds[OF pos] e' by (intro rnd_pos_ge_grid pos) auto
  finally show ?thesis .
qed

text \<open>Numbers with at most 53 significant bits are fixed points.\<close>

lemma rnd_pos_exact:
  assumes "0 \<le> k" and "k \<le> 2 ^ 53" and "- 1074 \<le> e"
  shows "rnd_pos (of_int k * 2 powi e) = of_int k * 2 powi e"
proof (cases "k = 0")
  case False
  let ?r = "of_int k * (2 :: rat) powi e"
  have pos: "0 < ?r" using assms False by simp
  consider "ulp_exp ?r \<le> e" | "k = 2 ^ 53" "ulp_exp ?r \<le> e + 1"
  proof (cases "k = 2 ^ 53")
    case True
    then have "?r = 2 powi (53 + e)" by (simp add: powi2_split)
    then have "flog2 ?r = 53 + e" by (intro flog2_unique) auto
    then show ?thesis using that(2) True assms(3) by (simp add: ulp_exp_def)
  next
    case k: False
    then have "?r < 2 powi 53 * 2 powi e" using assms by (intro mult_strict_right_mono) auto
    then have "?r < 2 powi (53 + e)" by (simp add: powi2_split)
    then have "(2 :: rat) powi (flog2 ?r) < 2 powi (53 + e)" using flog2_bounds[OF pos] by linarith
    then show ?thesis using that(1) assms(3) by (simp add: ulp_exp_def)
  qed
  then show ?thesis
  proof cases
    case 1
    then show ?thesis using rnd_pos_le_grid[OF pos _ 1] rnd_pos_ge_grid[OF pos _ 1] by fastforce
  next
    case 2
    have r: "?r = of_int (2 ^ 52) * 2 powi (e + 1)" using 2 by (simp add: powi2_split)
    then show ?thesis
      using rnd_pos_le_grid[OF pos _ 2(2), of "2 ^ 52"] rnd_pos_ge_grid[OF pos _ 2(2), of "2 ^ 52"]
      by (metis order_antisym order_refl)
  qed
qed simp

lemma rnd_pos_form:
  assumes "0 < q"
  obtains k e where "rnd_pos q = of_int k * 2 powi e" "0 \<le> k" "k \<le> 2 ^ 53" "- 1074 \<le> e"
    "e = ulp_exp q"
proof -
  let ?e = "ulp_exp q"
  have "(2 :: rat) powi (flog2 q + 1) \<le> 2 powi (53 + ?e)" by (simp add: ulp_exp_def)
  then have "q \<le> of_int (2 ^ 53) * 2 powi ?e"
    using flog2_bounds(2)[OF assms] by (simp add: powi2_split)
  then have "rne (q / 2 powi ?e) \<le> 2 ^ 53" by (intro rne_le_int) (simp add: pos_divide_le_eq)
  moreover have "0 \<le> rne (q / 2 powi ?e)" using assms by (intro rne_ge_int) simp
  ultimately show ?thesis
    using that[of "rne (q / 2 powi ?e)" ?e] assms by (simp add: rnd_pos_eq ulp_exp_def)
qed

lemma rnd_pos_idem: "0 \<le> q \<Longrightarrow> rnd_pos (rnd_pos q) = rnd_pos q"
  by (metis order_le_less rnd_pos_0 rnd_pos_exact rnd_pos_form)

lemma rnd_pos_int: "0 \<le> n \<Longrightarrow> \<exists>k. rnd_pos (of_int n) = of_int k"
proof (cases "n = 0")
  case False
  assume "0 \<le> n"
  with False have pos: "0 < (of_int n :: rat)" by simp
  show ?thesis
  proof (cases "0 \<le> ulp_exp (of_int n)")
    case True
    obtain k e where "rnd_pos (of_int n) = of_int k * 2 powi e" "e = ulp_exp (of_int n)"
      by (rule rnd_pos_form[OF pos])
    then have "rnd_pos (of_int n) = of_int (k * 2 ^ nat e)" using True by (simp add: powi2_int)
    then show ?thesis by blast
  next
    case neg: False
    then have "ulp_exp (of_int n) \<le> 0" by simp
    then have "rnd_pos (of_int n) = of_int n * 2 powi 0"
      using rnd_pos_le_grid[OF pos, of n 0] rnd_pos_ge_grid[OF pos, of n 0] by simp
    then show ?thesis by auto
  qed
qed auto

lemma rnd64_mono: "p \<le> q \<Longrightarrow> rnd64 p \<le> rnd64 q"
proof -
  assume le: "p \<le> q"
  consider "0 \<le> p" | "p < 0" "0 \<le> q" | "q < 0" using le by linarith
  then show ?thesis
  proof cases
    case 1
    then show ?thesis
      using le rnd_pos_mono[of p q] rnd_pos_nonneg[of q] by (cases "p = 0") (auto simp: rnd64_def)
  next
    case 2
    then show ?thesis using rnd_pos_nonneg[of q] rnd_pos_nonneg[of "- p"] by (simp add: rnd64_def)
  next
    case 3
    then show ?thesis using le rnd_pos_mono[of "- q" "- p"] by (simp add: rnd64_def)
  qed
qed

lemma rnd64_idem: "rnd64 (rnd64 q) = rnd64 q"
proof (cases "q < 0")
  case True
  then show ?thesis
    using rnd_pos_idem[of "- q"] rnd_pos_nonneg[of "- q"] by (auto simp: rnd64_def)
next
  case False
  then show ?thesis
    using rnd_pos_idem[of q] rnd_pos_nonneg[of q] by (auto simp: rnd64_def)
qed

lemma rnd64_int_small: "\<bar>n\<bar> \<le> 2 ^ 53 \<Longrightarrow> rnd64 (of_int n) = of_int n"
  using rnd_pos_exact[of n 0] rnd_pos_exact[of "- n" 0] by (auto simp: rnd64_def)

lemma rnd64_int_closed: "\<exists>k. rnd64 (of_int n) = of_int k"
  using rnd_pos_int[of n] rnd_pos_int[of "- n"] by (auto simp: rnd64_def) (metis of_int_minus)

section \<open>What the money path needs of rounding\<close>

text \<open>The contract under which the callers reason: a monotone idempotent
  function that keeps the small integers and sends integers to integers.\<close>

locale rounding =
  fixes rnd :: "rat \<Rightarrow> rat"
  assumes mono: "x \<le> y \<Longrightarrow> rnd x \<le> rnd y"
    and idem: "rnd (rnd x) = rnd x"
    and int_small: "\<bar>n\<bar> \<le> 2 ^ 53 \<Longrightarrow> rnd (of_int n) = of_int n"
    and int_closed: "\<exists>k. rnd (of_int n) = of_int k"
begin

lemma zero [simp]: "rnd 0 = 0"
  using int_small[of 0] by simp

lemma one [simp]: "rnd 1 = 1"
  using int_small[of 1] by simp

lemma nonneg: "0 \<le> x \<Longrightarrow> 0 \<le> rnd x"
  using mono[of 0 x] by simp

lemma ge_fixed: "rnd a = a \<Longrightarrow> a \<le> x \<Longrightarrow> a \<le> rnd x"
  using mono[of a x] by simp

lemma le_fixed: "rnd a = a \<Longrightarrow> x \<le> a \<Longrightarrow> rnd x \<le> a"
  using mono[of x a] by simp

lemma ratio_range: "0 \<le> w \<Longrightarrow> w \<le> t \<Longrightarrow> 0 < t \<Longrightarrow> 0 \<le> rnd (w / t) \<and> rnd (w / t) \<le> 1"
  using nonneg[of "w / t"] le_fixed[of 1 "w / t"] by simp

lemma scaled_range:
  assumes "0 \<le> r" and "r \<le> 1" and "0 \<le> x" and "rnd x = x"
  shows "0 \<le> rnd (x * r)" and "rnd (x * r) \<le> x"
  using assms nonneg[of "x * r"] le_fixed[of x "x * r"] by (auto simp: mult_left_le)

text \<open>An integer below the rounded value of \<open>n\<close>, and below a rounded
  number, does not exceed \<open>n\<close> itself, even where \<open>n\<close> is not representable.\<close>

lemma floor_le_int:
  assumes "(of_int \<lfloor>rnd p\<rfloor> :: rat) < rnd (of_int n)"
  shows "\<lfloor>rnd p\<rfloor> \<le> n"
proof (rule ccontr)
  assume "\<not> \<lfloor>rnd p\<rfloor> \<le> n"
  then have "n < \<lfloor>rnd p\<rfloor>" by simp
  then have "(of_int n :: rat) \<le> of_int \<lfloor>rnd p\<rfloor>" by (simp only: of_int_le_iff less_imp_le)
  then have "of_int n \<le> rnd p" using of_int_floor_le[of "rnd p"] by linarith
  then have "rnd (of_int n) \<le> rnd p" using mono[of "of_int n" "rnd p"] by (simp add: idem)
  moreover obtain k where k: "rnd (of_int n) = of_int k" using int_closed by blast
  ultimately have "k \<le> \<lfloor>rnd p\<rfloor>" by (simp add: le_floor_iff)
  with assms k show False by simp
qed

lemma accumulate:
  assumes "rnd s = s" and "0 \<le> s" and "0 \<le> w"
  shows "s \<le> rnd (s + w)" and "0 \<le> rnd (s + w)" and "rnd w = w \<Longrightarrow> w \<le> rnd (s + w)"
  using assms ge_fixed[of s "s + w"] ge_fixed[of w "s + w"] by auto

end

interpretation f64r: rounding rnd64
  by unfold_locales (fact rnd64_mono rnd64_idem rnd64_int_small rnd64_int_closed)+

section \<open>Sums of weights\<close>

lemma f64_limit_pos [simp]: "0 < f64_limit"
  by (simp add: f64_limit_def)

lemma to_f64_valid: "f64_valid (to_f64 q)"
  by (simp add: to_f64_def Let_def rnd64_idem)

lemma to_f64_FinD: "to_f64 q = Fin r \<Longrightarrow> r = rnd64 q \<and> \<bar>r\<bar> < f64_limit"
  by (auto simp: to_f64_def Let_def split: if_splits)

lemma f64_add_FinD: "f64_add a b = Fin r \<Longrightarrow> \<exists>x y. a = Fin x \<and> b = Fin y \<and> r = rnd64 (x + y)"
  by (cases a; cases b) (auto dest: to_f64_FinD split: if_splits)

text \<open>A finite sum of non-negative floats has finite summands, and no summand
  exceeds it: the rounded running sum never falls below what it has taken
  in.\<close>

lemma foldl_f64_add_dominates:
  assumes "foldl f64_add (Fin s) ws = Fin t" and "rnd64 s = s" and "0 \<le> s"
    and "\<forall>w \<in> set ws. f64_valid w \<and> \<not> f64_lt w (Fin 0)"
  shows "s \<le> t \<and> rnd64 t = t \<and> (\<forall>w \<in> set ws. \<exists>x. w = Fin x \<and> 0 \<le> x \<and> x \<le> t)"
  using assms
proof (induction ws arbitrary: s)
  case Nil
  then show ?case by simp
next
  case (Cons w ws)
  have "\<exists>s'. f64_add (Fin s) w = Fin s'"
  proof (rule ccontr)
    assume nf: "\<nexists>s'. f64_add (Fin s) w = Fin s'"
    have "foldl f64_add v xs \<noteq> Fin t" if "\<nexists>s'. v = Fin s'" for v xs
      using that
    proof (induction xs arbitrary: v)
      case (Cons y ys)
      then show ?case using f64_add_FinD[of v y] by (metis foldl_Cons)
    qed auto
    with nf Cons.prems(1) show False by simp
  qed
  then obtain s' where s': "f64_add (Fin s) w = Fin s'" by blast
  then obtain x where x: "w = Fin x" and s'x: "s' = rnd64 (s + x)"
    using f64_add_FinD by blast
  have "0 \<le> x" "rnd64 x = x" using Cons.prems(4) x by auto
  then have acc: "s \<le> s'" "0 \<le> s'" "x \<le> s'" "rnd64 s' = s'"
    using f64r.accumulate[of s x] Cons.prems(2,3) by (auto simp: s'x rnd64_idem)
  have "s' \<le> t \<and> rnd64 t = t \<and> (\<forall>w \<in> set ws. \<exists>x. w = Fin x \<and> 0 \<le> x \<and> x \<le> t)"
    using Cons.prems(1,4) acc s' by (intro Cons.IH) auto
  then show ?case using acc x \<open>0 \<le> x\<close> by auto
qed

lemma f64_sum_dominates:
  assumes "f64_sum ws = Fin t" and "\<forall>w \<in> set ws. f64_valid w \<and> \<not> f64_lt w (Fin 0)" and "w \<in> set ws"
  shows "\<exists>x. w = Fin x \<and> rnd64 x = x \<and> 0 \<le> x \<and> x \<le> t"
  using foldl_f64_add_dominates[of 0 ws t] assms unfolding f64_sum_def by fastforce

lemma f64_sum_valid:
  assumes "f64_sum ws = Fin t" and "\<forall>w \<in> set ws. f64_valid w \<and> \<not> f64_lt w (Fin 0)"
  shows "rnd64 t = t \<and> 0 \<le> t"
  using foldl_f64_add_dominates[of 0 ws t] assms unfolding f64_sum_def by fastforce

section \<open>Evaluation\<close>

text \<open>Integer forms of the rounding steps, so that a concrete computation does
  one normalisation of a fraction per operation.\<close>

definition scale :: "int \<Rightarrow> int \<Rightarrow> int" where
  "scale n e = (if 0 \<le> e then n * 2 ^ nat e else n)"

lemma scale_quotient: "of_int (scale n (- e)) / of_int (scale d e) = of_int n / of_int d / (2 :: rat) powi e"
  by (auto simp: scale_def power_int_def power_inverse field_simps)

lemma scale_pos: "0 < d \<Longrightarrow> 0 < scale d e"
  by (simp add: scale_def)

lemma rne_frac:
  assumes "0 < d"
  shows "rne (of_int n / of_int d) =
    (let f = n div d; r = n mod d in
     if 2 * r < d then f else if d < 2 * r then f + 1 else if even f then f else f + 1)"
proof -
  have fl: "\<lfloor>(of_int n / of_int d :: rat)\<rfloor> = n div d" by (rule floor_divide_of_int_eq)
  have "(of_int n :: rat) = of_int (n div d) * of_int d + of_int (n mod d)"
    by (metis div_mult_mod_eq of_int_add of_int_mult)
  then have fr: "(of_int n / of_int d :: rat) - of_int (n div d) = of_int (n mod d) / of_int d"
    using assms by (simp add: field_simps)
  have dpos: "(0 :: rat) < of_int d" using assms by simp
  have "(of_int (n mod d) / of_int d :: rat) < 1 / 2 \<longleftrightarrow> of_int (2 * (n mod d)) < (of_int d :: rat)"
    using dpos by (simp add: pos_divide_less_eq mult.commute)
  then have lt: "(of_int (n mod d) / of_int d :: rat) < 1 / 2 \<longleftrightarrow> 2 * (n mod d) < d"
    unfolding of_int_less_iff .
  have "(1 / 2 :: rat) < of_int (n mod d) / of_int d \<longleftrightarrow> (of_int d :: rat) < of_int (2 * (n mod d))"
    using dpos by (simp add: pos_less_divide_eq mult.commute)
  then have gt: "(1 / 2 :: rat) < of_int (n mod d) / of_int d \<longleftrightarrow> d < 2 * (n mod d)"
    unfolding of_int_less_iff .
  show ?thesis unfolding rne_def Let_def fl fr lt gt ..
qed

lemma flog2_code [code]:
  "flog2 q =
     (let (n, d) = quotient_of q; k = bitlen n - bitlen d in
      if scale d k \<le> scale n (- k) then k else k - 1)"
proof -
  obtain n d where nd: "quotient_of q = (n, d)" by fastforce
  then have d: "0 < d" and q: "q = of_int n / of_int d"
    using quotient_of_denom_pos quotient_of_div by blast+
  have "2 powi k \<le> q \<longleftrightarrow> 1 \<le> q / 2 powi k" for k by (simp add: pos_le_divide_eq)
  moreover have "1 \<le> q / 2 powi k \<longleftrightarrow> (of_int (scale d k) :: rat) \<le> of_int (scale n (- k))" for k
    using scale_pos[OF d, of k] unfolding q scale_quotient[symmetric] by (simp add: pos_le_divide_eq)
  ultimately show ?thesis by (simp add: flog2_def nd)
qed

lemma rnd_pos_code [code]:
  "rnd_pos q =
     (if q = 0 then 0 else
      let (n, d) = quotient_of q; e = ulp_exp q; a = scale n (- e); b = scale d e;
          f = a div b; r = a mod b;
          k = (if 2 * r < b then f else if b < 2 * r then f + 1 else if even f then f else f + 1) in
      Fract (scale k e) (scale 1 (- e)))"
proof (cases "q = 0")
  case False
  obtain n d where nd: "quotient_of q = (n, d)" by fastforce
  then have d: "0 < d" and q: "q = of_int n / of_int d"
    using quotient_of_denom_pos quotient_of_div by blast+
  let ?e = "ulp_exp q"
  have "q / 2 powi ?e = of_int (scale n (- ?e)) / of_int (scale d ?e)"
    unfolding scale_quotient using q by simp
  then have "rnd_pos q = of_int (rne (of_int (scale n (- ?e)) / of_int (scale d ?e))) * 2 powi ?e"
    using False by (simp add: rnd_pos_eq)
  moreover have "of_int k * (2 :: rat) powi ?e = Fract (scale k ?e) (scale 1 (- ?e))" for k
    by (auto simp: scale_def power_int_def Fract_of_int_quotient power_inverse field_simps)
  ultimately show ?thesis
    using False by (simp add: nd rne_frac[OF scale_pos[OF d]] Let_def)
qed simp

lemma to_f64_code [code]:
  "to_f64 q = (let r = rnd64 q in if r \<noteq> 0 \<and> 1024 \<le> flog2 \<bar>r\<bar> then Inf (r < 0) else Fin r)"
proof -
  have "f64_limit \<le> \<bar>r\<bar> \<longleftrightarrow> r \<noteq> 0 \<and> 1024 \<le> flog2 \<bar>r\<bar>" for r
  proof (cases "r = 0")
    case True
    then show ?thesis using f64_limit_pos by (simp add: not_le)
  next
    case False
    have lim: "f64_limit = 2 powi 1024" by (simp add: f64_limit_def)
    have pos: "0 < \<bar>r\<bar>" using False by simp
    show ?thesis
    proof
      assume "f64_limit \<le> \<bar>r\<bar>"
      then have "(2 :: rat) powi 1024 < 2 powi (flog2 \<bar>r\<bar> + 1)"
        using flog2_bounds(2)[OF pos] lim by linarith
      then show "r \<noteq> 0 \<and> 1024 \<le> flog2 \<bar>r\<bar>" using False unfolding powi2_less_iff by simp
    next
      assume "r \<noteq> 0 \<and> 1024 \<le> flog2 \<bar>r\<bar>"
      then have "(2 :: rat) powi 1024 \<le> 2 powi (flog2 \<bar>r\<bar>)" unfolding powi2_le_iff by simp
      then show "f64_limit \<le> \<bar>r\<bar>" using flog2_bounds(1)[OF pos] lim by linarith
    qed
  qed
  then show ?thesis by (simp add: to_f64_def)
qed

text \<open>Multiples of a quarter up to \<open>2 ^ 53\<close> quarters are exact.\<close>

lemma to_f64_quarters:
  assumes "0 \<le> k" and "k \<le> 2 ^ 53"
  shows "to_f64 (of_int k / 4) = Fin (of_int k / 4)"
proof -
  have "rnd_pos (of_int k * 2 powi (- 2)) = of_int k * 2 powi (- 2)"
    using assms by (intro rnd_pos_exact) auto
  moreover have "of_int k * 2 powi (- 2) = (of_int k / 4 :: rat)" by (simp add: power_int_def power2_eq_square)
  ultimately have r: "rnd64 (of_int k / 4) = of_int k / 4" using assms by (simp add: rnd64_def)
  have "(of_int k :: rat) \<le> of_int (2 ^ 53)" using assms(2) by (simp only: of_int_le_iff)
  then have "(of_int k / 4 :: rat) < 2 ^ 60" by simp
  also have "\<dots> \<le> f64_limit" unfolding f64_limit_def by (rule power_increasing) auto
  finally have "\<bar>of_int k / 4\<bar> < f64_limit" using assms(1) by simp
  then show ?thesis by (simp add: to_f64_def Let_def r)
qed

end
