(* ===== verification/Domain.thy ===== *)
theory Domain
  imports RustStr Float64
begin

text \<open>
  The validated value types of \<open>src/crates/katpool-domain/src\<close> and the events
  the stratum bridge sends to the accountant.  A string is the list of its
  bytes, as \<open>str::len\<close> counts them.  \<open>hex::decode_to_slice\<close> is third-party
  code and enters \<open>BlockHash_from_hex\<close> as a parameter.
\<close>

type_synonym timestamp = int
type_synonym correlation_id = int

section \<open>Wallet addresses\<close>

abbreviation (input) MIN_TOTAL_LEN :: nat where "MIN_TOTAL_LEN \<equiv> 14"
abbreviation (input) MAX_TOTAL_LEN :: nat where "MAX_TOTAL_LEN \<equiv> 96"

datatype AddressError =
    InvalidPrefix
  | AddressTooShort nat
  | AddressTooLong nat
  | AddressInvalidCharacter char

definition is_bech32_char :: "char \<Rightarrow> bool" where
  "is_bech32_char ch \<longleftrightarrow> is_ascii_lowercase ch \<or> is_ascii_digit ch"

definition WalletAddress_new :: "string \<Rightarrow> (AddressError, string) outcome" where
  "WalletAddress_new s =
     and_then
       (case strip_prefix ''kaspa:'' s of
          Some rest \<Rightarrow> Ok rest
        | None \<Rightarrow> (case strip_prefix ''kaspatest:'' s of
                    Some rest \<Rightarrow> Ok rest
                  | None \<Rightarrow> Err InvalidPrefix))
       (\<lambda>body.
         if length s < MIN_TOTAL_LEN then Err (AddressTooShort (length s))
         else if length s > MAX_TOTAL_LEN then Err (AddressTooLong (length s))
         else case find (\<lambda>ch. \<not> is_bech32_char ch) body of
                Some ch \<Rightarrow> Err (AddressInvalidCharacter ch)
              | None \<Rightarrow> Ok s)"

section \<open>Worker names\<close>

abbreviation (input) WORKER_MAX_LEN :: nat where "WORKER_MAX_LEN \<equiv> 64"

datatype WorkerNameError =
    WorkerEmpty
  | WorkerTooLong nat
  | WorkerInvalidCharacter char

definition is_safe_worker_char :: "char \<Rightarrow> bool" where
  "is_safe_worker_char ch \<longleftrightarrow>
     is_ascii_alphanumeric ch \<or>
     ch \<in> {CHR ''_'', CHR ''-'', CHR ''.'', CHR ''#'', CHR ''@'', CHR '':'', CHR ''+'', CHR ''/'', CHR 0x5C}"

definition WorkerName_new :: "string \<Rightarrow> (WorkerNameError, string) outcome" where
  "WorkerName_new s =
     (if s = [] then Err WorkerEmpty
      else if length s > WORKER_MAX_LEN then Err (WorkerTooLong (length s))
      else case find (\<lambda>ch. \<not> is_safe_worker_char ch) s of
             Some ch \<Rightarrow> Err (WorkerInvalidCharacter ch)
           | None \<Rightarrow> Ok s)"

section \<open>Share difficulty\<close>

datatype DifficultyError = NotFinite | NonPositive

definition ShareDifficulty_new :: "f64 \<Rightarrow> (DifficultyError, f64) outcome" where
  "ShareDifficulty_new d =
     (if \<not> f64_is_finite d then Err NotFinite
      else if f64_le d (Fin 0) then Err NonPositive
      else Ok d)"

section \<open>Block hashes\<close>

datatype BlockHashError = WrongLength nat | InvalidHex

type_synonym hash_bytes = "8 word list"

definition BlockHash_from_hex ::
  "(string \<Rightarrow> hash_bytes option) \<Rightarrow> string \<Rightarrow> (BlockHashError, hash_bytes) outcome" where
  "BlockHash_from_hex decode_to_slice s =
     (if length s \<noteq> 64 then Err (WrongLength (length s))
      else ok_or InvalidHex (decode_to_slice s))"

definition hex_digit :: "nat \<Rightarrow> char" where
  "hex_digit d = (if d < 10 then char_of (48 + d) else char_of (87 + d))"

definition hex_byte :: "8 word \<Rightarrow> string" where
  "hex_byte b = [hex_digit (unat b div 16), hex_digit (unat b mod 16)]"

definition BlockHash_display :: "hash_bytes \<Rightarrow> string" where
  "BlockHash_display h = concat (map hex_byte h)"

section \<open>Redaction\<close>

text \<open>The ellipsis is the three bytes of U+2026.\<close>

definition ellipsis :: string where
  "ellipsis = [CHR 0xE2, CHR 0x80, CHR 0xA6]"

definition redact_address :: "string \<Rightarrow> string" where
  "redact_address addr =
     (let tail = rev (take 4 (rev addr)) in
      case split_once (CHR '':'') addr of
        Some (prefix, _) \<Rightarrow> prefix @ '':'' @ ellipsis @ tail
      | None \<Rightarrow> ellipsis @ tail)"

section \<open>Events\<close>

datatype ShareRejectReason =
    Stale | LowDifficulty | BadPow | MissingJob | MalformedFrame | DuplicateSubmit | BadAddress

fun ShareRejectReason_as_str :: "ShareRejectReason \<Rightarrow> string" where
  "ShareRejectReason_as_str Stale = ''stale''"
| "ShareRejectReason_as_str LowDifficulty = ''low_difficulty''"
| "ShareRejectReason_as_str BadPow = ''bad_pow''"
| "ShareRejectReason_as_str MissingJob = ''missing_job''"
| "ShareRejectReason_as_str MalformedFrame = ''malformed_frame''"
| "ShareRejectReason_as_str DuplicateSubmit = ''duplicate_submit''"
| "ShareRejectReason_as_str BadAddress = ''bad_address''"

record SessionEvent =
  ev_conn_id :: int
  ev_wallet :: "string option"
  ev_worker :: "string option"
  ev_remote_ip :: string
  ev_remote_app :: "string option"
  ev_connected_at :: timestamp

text \<open>Fields in the order of the source; \<open>SessionClosed\<close> adds the time the
  session ended.\<close>

datatype PoolEvent =
    ShareCredited string string f64 int timestamp correlation_id
  | ShareRejected string string ShareRejectReason timestamp correlation_id
  | BlockFound string string hash_bytes int timestamp correlation_id
  | BlockAccepted hash_bytes timestamp correlation_id
  | SessionOpened SessionEvent correlation_id
  | SessionClosed SessionEvent timestamp correlation_id

section \<open>Facts\<close>

lemma find_bad_char_iff:
  "(case find (\<lambda>x. \<not> P x) xs of Some c \<Rightarrow> Err (f c) | None \<Rightarrow> Ok s) = Ok a \<longleftrightarrow>
     list_all P xs \<and> a = s"
  by (induction xs) auto

lemma strip_either_iff:
  assumes "\<And>r r'. p @ r \<noteq> q @ r'"
  shows "(case strip_prefix p s of
            Some rest \<Rightarrow> Ok rest
          | None \<Rightarrow> (case strip_prefix q s of Some rest \<Rightarrow> Ok rest | None \<Rightarrow> Err e)) = Ok body \<longleftrightarrow>
         s = p @ body \<or> s = q @ body"
proof (cases "strip_prefix p s")
  case None
  then have "s \<noteq> p @ body" by (metis option.distinct(1) strip_prefix_append)
  then show ?thesis
    using None strip_prefix_Some_iff[of q s] by (cases "strip_prefix q s") auto
next
  case (Some r)
  then have "s = p @ r" by (simp add: strip_prefix_Some_iff)
  then show ?thesis using Some assms by auto
qed

lemma WalletAddress_new_Ok_iff:
  "WalletAddress_new s = Ok a \<longleftrightarrow>
     a = s \<and> MIN_TOTAL_LEN \<le> length s \<and> length s \<le> MAX_TOTAL_LEN \<and>
     (\<exists>body. (s = ''kaspa:'' @ body \<or> s = ''kaspatest:'' @ body) \<and> list_all is_bech32_char body)"
proof -
  have "''kaspa:'' @ r \<noteq> ''kaspatest:'' @ r'" for r r' by simp
  note aux = strip_either_iff[OF this]
  show ?thesis
    unfolding WalletAddress_new_def and_then_Ok_iff aux by (auto simp: find_bad_char_iff not_less)
qed

lemma WorkerName_new_Ok_iff:
  "WorkerName_new s = Ok n \<longleftrightarrow>
     n = s \<and> s \<noteq> [] \<and> length s \<le> WORKER_MAX_LEN \<and> list_all is_safe_worker_char s"
  by (auto simp: WorkerName_new_def find_bad_char_iff)

lemma ShareDifficulty_new_Ok_iff:
  "ShareDifficulty_new d = Ok v \<longleftrightarrow> v = d \<and> (\<exists>q. d = Fin q \<and> 0 < q)"
  by (cases d) (auto simp: ShareDifficulty_new_def)

end
