(* ===== verification/StorageMass.thy ===== *)
theory StorageMass
  imports Domain
begin

text \<open>
  The transaction shapes, masses and fees of \<open>src/crates/katpool-storagemass\<close>
  (\<open>types.rs\<close>, \<open>evaluator.rs\<close>, \<open>tx_build.rs\<close>, \<open>fee.rs\<close>).  What the crate takes
  from the Kaspa consensus library is the record \<open>consensus\<close>: the two mass
  calculators, the estimated size of an output and the compute limit of a
  block.  Scripts are opaque byte strings.
\<close>

section \<open>Transactions\<close>

type_synonym ScriptPublicKey = string

record TransactionOutpoint =
  op_transaction_id :: hash_bytes
  op_index :: int

record UtxoEntry =
  ue_amount :: int
  ue_script_public_key :: ScriptPublicKey
  ue_block_daa_score :: int
  ue_is_coinbase :: bool
  ue_covenant_id :: "hash_bytes option"

record TransactionInput =
  ti_previous_outpoint :: TransactionOutpoint
  ti_signature_script :: "8 word list"
  ti_sequence :: int
  ti_sig_op_count :: int

record TransactionOutput =
  to_value :: int
  to_script_public_key :: ScriptPublicKey

record Transaction =
  tx_version :: int
  tx_inputs :: "TransactionInput list"
  tx_outputs :: "TransactionOutput list"
  tx_lock_time :: int
  tx_subnetwork_id :: "8 word list"
  tx_gas :: int
  tx_payload :: "8 word list"

record consensus =
  calc_non_contextual_masses :: "Transaction \<Rightarrow> int \<times> int"
  calc_contextual_masses :: "Transaction \<Rightarrow> UtxoEntry list \<Rightarrow> int option"
  output_estimated_serialized_size :: "TransactionOutput \<Rightarrow> int"
  block_compute_limit :: int

section \<open>Planner types\<close>

definition PLANNING_VIRTUAL_TXID_BYTES :: hash_bytes where
  "PLANNING_VIRTUAL_TXID_BYTES = replicate 31 0 @ [1]"

record TreasuryUtxo =
  tu_outpoint :: TransactionOutpoint
  tu_entry :: UtxoEntry

abbreviation tu_amount :: "TreasuryUtxo \<Rightarrow> int" where
  "tu_amount u \<equiv> ue_amount (tu_entry u)"

definition is_planning_virtual :: "TreasuryUtxo \<Rightarrow> bool" where
  "is_planning_virtual u \<longleftrightarrow> op_transaction_id (tu_outpoint u) = PLANNING_VIRTUAL_TXID_BYTES"

record PayoutRecipient =
  pr_id :: string
  pr_amount_sompi :: int
  pr_script_public_key :: ScriptPublicKey

section \<open>Mass\<close>

definition MAX_STANDARD_TX_MASS :: int where "MAX_STANDARD_TX_MASS = 100000"
definition MIN_PAYOUT_OUTPUT_SOMPI :: int where "MIN_PAYOUT_OUTPUT_SOMPI = 1900000"

record TxMass =
  compute_mass :: int
  storage_mass :: int
  transient_mass :: int

definition effective :: "TxMass \<Rightarrow> int" where
  "effective t = max (max (compute_mass t) (storage_mass t)) (transient_mass t)"

definition fits_independently :: "int \<Rightarrow> TxMass \<Rightarrow> bool" where
  "fits_independently block_mass_limit t \<longleftrightarrow>
     compute_mass t \<le> block_mass_limit \<and> storage_mass t \<le> block_mass_limit \<and> transient_mass t \<le> block_mass_limit"

datatype MassEvaluationError = InputCountMismatch nat nat | StorageMassIncomputable

record MassEvaluator =
  me_calculator :: consensus
  block_mass_limit :: int

definition mainnet :: "consensus \<Rightarrow> MassEvaluator" where
  "mainnet c = \<lparr> me_calculator = c, block_mass_limit = block_compute_limit c \<rparr>"

definition standard_tx_mass_limit :: "MassEvaluator \<Rightarrow> int" where
  "standard_tx_mass_limit ev = MAX_STANDARD_TX_MASS"

definition evaluate_populated ::
  "MassEvaluator \<Rightarrow> Transaction \<Rightarrow> UtxoEntry list \<Rightarrow> (MassEvaluationError, TxMass) outcome" where
  "evaluate_populated ev tx entries =
     (if length (tx_inputs tx) \<noteq> length entries
      then Err (InputCountMismatch (length (tx_inputs tx)) (length entries))
      else
        let (compute, transient) = calc_non_contextual_masses (me_calculator ev) tx in
        and_then (ok_or StorageMassIncomputable (calc_contextual_masses (me_calculator ev) tx entries)) (\<lambda>storage.
        Ok \<lparr> compute_mass = compute, storage_mass = storage, transient_mass = transient \<rparr>))"

definition fits_block :: "MassEvaluator \<Rightarrow> Transaction \<Rightarrow> UtxoEntry list \<Rightarrow> bool" where
  "fits_block ev tx entries =
     (case evaluate_populated ev tx entries of
        Ok t \<Rightarrow> fits_independently (block_mass_limit ev) t
      | _ \<Rightarrow> False)"

section \<open>The shape of a planned transaction\<close>

definition SIGNED_P2PK_SIG_SCRIPT_LEN :: nat where "SIGNED_P2PK_SIG_SCRIPT_LEN = 66"

definition standard_subnetwork :: "8 word list" where
  "standard_subnetwork = [1, 2, 3, 4, 5, 6, 7, 8, 9, 10] @ replicate 10 0"

definition build_populated ::
  "TreasuryUtxo list \<Rightarrow> PayoutRecipient list \<Rightarrow> ScriptPublicKey \<Rightarrow> int \<Rightarrow> Transaction \<times> UtxoEntry list" where
  "build_populated inputs payouts change_script change_amount_sompi =
     (let ins = map (\<lambda>u. \<lparr> ti_previous_outpoint = tu_outpoint u,
                            ti_signature_script = replicate SIGNED_P2PK_SIG_SCRIPT_LEN 0,
                            ti_sequence = 0, ti_sig_op_count = 1 \<rparr>) inputs;
          outs = map (\<lambda>p. \<lparr> to_value = pr_amount_sompi p, to_script_public_key = pr_script_public_key p \<rparr>) payouts;
          change = (if 0 < change_amount_sompi
                    then [\<lparr> to_value = change_amount_sompi, to_script_public_key = change_script \<rparr>] else [])
      in (\<lparr> tx_version = 0, tx_inputs = ins, tx_outputs = outs @ change, tx_lock_time = 0,
            tx_subnetwork_id = standard_subnetwork, tx_gas = 0, tx_payload = [] \<rparr>,
          map tu_entry inputs))"

section \<open>Fees\<close>

definition MIN_RELAY_TX_FEE_SOMPI_PER_KG :: int where "MIN_RELAY_TX_FEE_SOMPI_PER_KG = 100000"
definition DUST_INPUT_SERIALIZED_SIZE :: int where "DUST_INPUT_SERIALIZED_SIZE = 148"

record FeeRate =
  feerate_sompi_per_gram :: f64
  min_relay_sompi_per_kg :: int

definition FeeRate_ZERO :: FeeRate where
  "FeeRate_ZERO = \<lparr> feerate_sompi_per_gram = Fin 0, min_relay_sompi_per_kg = 0 \<rparr>"

definition from_feerate :: "f64 \<Rightarrow> FeeRate" where
  "from_feerate r =
     \<lparr> feerate_sompi_per_gram = (if f64_is_finite r \<and> f64_lt (Fin 0) r then r else Fin 0),
       min_relay_sompi_per_kg = MIN_RELAY_TX_FEE_SOMPI_PER_KG \<rparr>"

definition reserves_fee :: "FeeRate \<Rightarrow> bool" where
  "reserves_fee fr \<longleftrightarrow> f64_lt (Fin 0) (feerate_sompi_per_gram fr) \<or> 0 < min_relay_sompi_per_kg fr"

definition minimum_relay_fee :: "FeeRate \<Rightarrow> int \<Rightarrow> int" where
  "minimum_relay_fee fr compute =
     (let fee = saturating 0 u64_max (compute * min_relay_sompi_per_kg fr) div 1000 in
      if fee = 0 then min_relay_sompi_per_kg fr else fee)"

definition fee_estimate :: "f64 \<Rightarrow> int" where
  "fee_estimate scaled =
     (if f64_is_finite scaled \<and> f64_lt (Fin 0) scaled
      then f64_as_int 0 u64_max (f64_min (f64_ceil scaled) (int_as_f64 u64_max))
      else 0)"

definition fee_for :: "FeeRate \<Rightarrow> TxMass \<Rightarrow> int" where
  "fee_for fr t =
     max (fee_estimate (f64_mul (feerate_sompi_per_gram fr) (int_as_f64 (effective t))))
         (minimum_relay_fee fr (compute_mass t))"

definition is_change_dust :: "consensus \<Rightarrow> int \<Rightarrow> ScriptPublicKey \<Rightarrow> bool" where
  "is_change_dust c value_sompi change_script \<longleftrightarrow>
     (let serialized = saturating 0 u64_max
            (output_estimated_serialized_size c \<lparr> to_value = value_sompi, to_script_public_key = change_script \<rparr>
             + DUST_INPUT_SERIALIZED_SIZE)
      in saturating 0 u128_max (value_sompi * 1000) div (3 * serialized) < MIN_RELAY_TX_FEE_SOMPI_PER_KG)"

section \<open>Facts on fees\<close>

lemma rnd64_le_2_64: "0 \<le> q \<Longrightarrow> q \<le> 2 ^ 64 \<Longrightarrow> 0 \<le> rnd64 q \<and> rnd64 q \<le> 2 ^ 64"
proof -
  assume q: "0 \<le> q" "q \<le> 2 ^ 64"
  have "rnd_pos (of_int 1 * 2 powi 64) = (of_int 1 * 2 powi 64 :: rat)" by (rule rnd_pos_exact) auto
  then have "rnd64 (2 ^ 64) = 2 ^ 64" by (simp add: rnd64_def)
  then show ?thesis using q rnd64_mono[of q "2 ^ 64"] rnd64_mono[of 0 q] by (simp add: rnd64_def)
qed

lemma to_f64_u64: "0 \<le> q \<Longrightarrow> q \<le> 2 ^ 64 \<Longrightarrow> to_f64 q = Fin (rnd64 q)"
proof -
  assume q: "0 \<le> q" "q \<le> 2 ^ 64"
  have "(2 :: rat) ^ 64 < f64_limit" unfolding f64_limit_def by (rule power_strict_increasing) auto
  then show ?thesis using rnd64_le_2_64[OF q] by (simp add: to_f64_def Let_def)
qed

lemma int_as_f64_exact: "0 \<le> n \<Longrightarrow> n \<le> 2 ^ 53 \<Longrightarrow> int_as_f64 n = Fin (of_int n)"
  using to_f64_u64[of "of_int n"] rnd64_int_small[of n] by (simp add: int_as_f64_def)

lemma u64_max_as_f64: "int_as_f64 u64_max = Fin (2 ^ 64)"
  by code_simp

lemma fee_estimate_Fin:
  assumes "0 \<le> x" and "x \<le> 2 ^ 53"
  shows "fee_estimate (Fin x) = \<lceil>x\<rceil>"
proof (cases "x = 0")
  case False
  have c: "0 < \<lceil>x\<rceil>" "\<lceil>x\<rceil> \<le> 2 ^ 53"
    using assms False by (simp_all add: ceiling_le_iff)
  have "(of_int \<lceil>x\<rceil> :: rat) \<le> of_int (2 ^ 53)" using c(2) by (simp only: of_int_le_iff)
  then have "(of_int \<lceil>x\<rceil> :: rat) \<le> 2 ^ 64" by simp
  moreover have "\<not> (of_int \<lceil>x\<rceil> :: rat) < 0" using c(1) by simp
  ultimately show ?thesis
    using assms False c by (simp add: fee_estimate_def u64_max_as_f64 truncate_rat_def)
qed (simp add: fee_estimate_def)

lemma minimum_relay_fee_exact:
  assumes "0 \<le> c" and "c \<le> 2 ^ 40"
  shows "minimum_relay_fee (from_feerate r) c = (if c = 0 then 100000 else 100 * c)"
  using assms by (auto simp: minimum_relay_fee_def from_feerate_def MIN_RELAY_TX_FEE_SOMPI_PER_KG_def Let_def)

lemma minimum_relay_fee_nonneg:
  "0 \<le> min_relay_sompi_per_kg fr \<Longrightarrow> 0 \<le> minimum_relay_fee fr c"
  by (auto simp: minimum_relay_fee_def Let_def saturating_def)

lemma fee_for_nonneg: "0 \<le> min_relay_sompi_per_kg fr \<Longrightarrow> 0 \<le> fee_for fr t"
  using minimum_relay_fee_nonneg by (simp add: fee_for_def le_max_iff_disj)

lemma reserves_fee_from_feerate [simp]: "reserves_fee (from_feerate r)"
  by (simp add: reserves_fee_def from_feerate_def MIN_RELAY_TX_FEE_SOMPI_PER_KG_def)

lemma not_reserves_fee_ZERO [simp]: "\<not> reserves_fee FeeRate_ZERO"
  by (simp add: reserves_fee_def FeeRate_ZERO_def)

section \<open>Properties\<close>


end
