(* ===== verification/Planner.thy ===== *)
theory Planner
  imports StorageMass
begin

text \<open>
  The greedy payout planner, \<open>src/crates/katpool-storagemass/src/planner.rs\<close>.
  Rust's \<open>sort_by\<close> is stable, as \<open>sort_key\<close> is.  Every loop is a recursion
  over what the code iterates: the recipients, the number of inputs, the
  recipients still payable.  \<open>Iterator::sum\<close> and the subtractions trap.
\<close>

section \<open>Results\<close>

record PlannedBatch =
  pb_inputs :: "TreasuryUtxo list"
  pb_payouts :: "PayoutRecipient list"
  pb_change_amount_sompi :: int
  pb_mass :: TxMass

record PlanBatchesResult =
  pr_batches :: "PlannedBatch list"
  pr_deferred_below_floor :: "PayoutRecipient list"
  pr_unpaid :: "PayoutRecipient list"

definition MAX_OUTPUTS_PER_INPUT :: nat where "MAX_OUTPUTS_PER_INPUT = 10"

section \<open>Helpers\<close>

definition evaluate_shape ::
  "MassEvaluator \<Rightarrow> TreasuryUtxo list \<Rightarrow> PayoutRecipient list \<Rightarrow> ScriptPublicKey \<Rightarrow> int \<Rightarrow> TxMass option" where
  "evaluate_shape ev inputs payouts change_script change_amount =
     (case build_populated inputs payouts change_script change_amount of (tx, entries) \<Rightarrow>
      case evaluate_populated ev tx entries of
        Ok t \<Rightarrow> if fits_independently (block_mass_limit ev) t then Some t else None
      | _ \<Rightarrow> None)"

definition partition_by_floor :: "PayoutRecipient list \<Rightarrow> PayoutRecipient list \<times> PayoutRecipient list" where
  "partition_by_floor recipients =
     foldl (\<lambda>(payable, deferred) r.
        if MIN_PAYOUT_OUTPUT_SOMPI \<le> pr_amount_sompi r then (payable @ [r], deferred)
        else (payable, deferred @ [r])) ([], []) recipients"

definition sort_utxos_desc :: "TreasuryUtxo list \<Rightarrow> TreasuryUtxo list" where
  "sort_utxos_desc = sort_key (\<lambda>u. - tu_amount u)"

definition sort_recipients_desc :: "PayoutRecipient list \<Rightarrow> PayoutRecipient list" where
  "sort_recipients_desc = sort_key (\<lambda>r. - pr_amount_sompi r)"

definition planning_change_utxo :: "nat \<Rightarrow> int \<Rightarrow> ScriptPublicKey \<Rightarrow> TreasuryUtxo" where
  "planning_change_utxo batch_index amount_sompi change_script =
     \<lparr> tu_outpoint = \<lparr> op_transaction_id = PLANNING_VIRTUAL_TXID_BYTES, op_index = int batch_index \<rparr>,
       tu_entry = \<lparr> ue_amount = amount_sompi, ue_script_public_key = change_script,
                    ue_block_daa_score = 0, ue_is_coinbase = False, ue_covenant_id = None \<rparr> \<rparr>"

definition remove_consumed :: "TreasuryUtxo list \<Rightarrow> TreasuryUtxo list \<Rightarrow> TreasuryUtxo list" where
  "remove_consumed utxos consumed =
     filter (\<lambda>u. \<not> list_ex (\<lambda>c. tu_outpoint c = tu_outpoint u) consumed) utxos"

definition remove_paid :: "PayoutRecipient list \<Rightarrow> PayoutRecipient list \<Rightarrow> PayoutRecipient list" where
  "remove_paid recipients paid = filter (\<lambda>r. \<not> list_ex (\<lambda>p. pr_id p = pr_id r) paid) recipients"

section \<open>Choosing the recipients of one batch\<close>

text \<open>\<open>Vec::get\<close>, and \<open>filter_map\<close> over it.\<close>

definition get :: "'a list \<Rightarrow> nat \<Rightarrow> 'a option" where
  "get xs i = (if i < length xs then Some (xs ! i) else None)"

definition picked :: "'a list \<Rightarrow> nat list \<Rightarrow> 'a list" where
  "picked xs idxs = List.map_filter (get xs) idxs"

definition fee_of :: "FeeRate \<Rightarrow> TxMass \<Rightarrow> int" where
  "fee_of fr t = (if reserves_fee fr then fee_for fr t else 0)"

definition greedy_step ::
  "MassEvaluator \<Rightarrow> TreasuryUtxo list \<Rightarrow> int \<Rightarrow> PayoutRecipient list \<Rightarrow> ScriptPublicKey \<Rightarrow> FeeRate \<Rightarrow>
   nat \<Rightarrow> PayoutRecipient \<Rightarrow> nat list \<Rightarrow> (unit, nat list) outcome" where
  "greedy_step ev inputs input_sum recipients change_script fee_rate idx r selected =
     and_then (sum_u64 (map pr_amount_sompi (picked recipients selected))) (\<lambda>s.
     let candidate_sum = saturating 0 u64_max (s + pr_amount_sompi r) in
     if input_sum < candidate_sum then Ok selected else
     let candidate = selected @ [idx];
         payout_refs = picked recipients candidate in
     if length payout_refs \<noteq> length candidate then Ok selected else
     and_then (trapping 0 u64_max (input_sum - candidate_sum)) (\<lambda>change.
     case evaluate_shape ev inputs payout_refs change_script change of
       None \<Rightarrow> Ok selected
     | Some t \<Rightarrow>
         if saturating 0 u64_max (candidate_sum + fee_of fee_rate t) \<le> input_sum then Ok candidate
         else Ok selected))"

fun greedy_loop ::
  "MassEvaluator \<Rightarrow> TreasuryUtxo list \<Rightarrow> int \<Rightarrow> PayoutRecipient list \<Rightarrow> ScriptPublicKey \<Rightarrow> FeeRate \<Rightarrow>
   nat \<Rightarrow> nat \<Rightarrow> PayoutRecipient list \<Rightarrow> nat list \<Rightarrow> (unit, nat list) outcome" where
  "greedy_loop ev inputs input_sum recipients change_script fee_rate max_outputs idx [] selected = Ok selected"
| "greedy_loop ev inputs input_sum recipients change_script fee_rate max_outputs idx (r # rest) selected =
     (if max_outputs \<le> length selected then Ok selected else
      and_then (greedy_step ev inputs input_sum recipients change_script fee_rate idx r selected) (\<lambda>selected'.
      greedy_loop ev inputs input_sum recipients change_script fee_rate max_outputs (Suc idx) rest selected'))"

definition greedy_recipients_for_inputs ::
  "MassEvaluator \<Rightarrow> TreasuryUtxo list \<Rightarrow> int \<Rightarrow> PayoutRecipient list \<Rightarrow> ScriptPublicKey \<Rightarrow> FeeRate \<Rightarrow>
   (unit, nat list option) outcome" where
  "greedy_recipients_for_inputs ev inputs input_sum recipients change_script fee_rate =
     and_then (greedy_loop ev inputs input_sum recipients change_script fee_rate
                 (max (length inputs * MAX_OUTPUTS_PER_INPUT) 1) 0 recipients []) (\<lambda>selected.
     Ok (if selected = [] then None else Some selected))"

section \<open>One batch\<close>

text \<open>What one turn of the loop over \<open>input_count\<close> does: leave the function
  with \<open>None\<close>, go on with one more input, or return a batch.\<close>

datatype attempt = Give_up | Widen | Return PlannedBatch

definition try_inputs ::
  "MassEvaluator \<Rightarrow> TreasuryUtxo list \<Rightarrow> PayoutRecipient list \<Rightarrow> ScriptPublicKey \<Rightarrow> FeeRate \<Rightarrow>
   (unit, attempt) outcome" where
  "try_inputs ev inputs recipients change_script fee_rate =
     and_then (sum_u64 (map tu_amount inputs)) (\<lambda>input_sum.
     and_then (greedy_recipients_for_inputs ev inputs input_sum recipients change_script fee_rate) (\<lambda>sel.
     case sel of None \<Rightarrow> Ok Give_up | Some selected \<Rightarrow>
     if selected = [] then Ok Widen else
     and_then (sum_u64 (map pr_amount_sompi (picked recipients selected))) (\<lambda>payout_sum.
     if input_sum < payout_sum then Ok Widen else
     let payouts = picked recipients selected in
     if length payouts \<noteq> length selected then Ok Widen else
     and_then (trapping 0 u64_max (input_sum - payout_sum)) (\<lambda>gross_change.
     case evaluate_shape ev inputs payouts change_script gross_change of
       None \<Rightarrow> Ok Widen
     | Some gross_mass \<Rightarrow>
         let fee = fee_of fee_rate gross_mass in
         if input_sum < saturating 0 u64_max (payout_sum + fee) then Ok Widen else
         and_then (trapping 0 u64_max (input_sum - payout_sum - fee)) (\<lambda>change_amount.
         if reserves_fee fee_rate \<and>
            (change_amount = 0 \<or> is_change_dust (me_calculator ev) change_amount change_script)
         then (case evaluate_shape ev inputs payouts change_script 0 of
                 None \<Rightarrow> Ok Widen
               | Some t \<Rightarrow> Ok (Return \<lparr> pb_inputs = inputs, pb_payouts = payouts,
                                        pb_change_amount_sompi = 0, pb_mass = t \<rparr>))
         else Ok (Return \<lparr> pb_inputs = inputs, pb_payouts = payouts,
                           pb_change_amount_sompi = change_amount, pb_mass = gross_mass \<rparr>))))))"

function widen_loop ::
  "MassEvaluator \<Rightarrow> TreasuryUtxo list \<Rightarrow> PayoutRecipient list \<Rightarrow> ScriptPublicKey \<Rightarrow> FeeRate \<Rightarrow>
   nat \<Rightarrow> (unit, PlannedBatch option) outcome" where
  "widen_loop ev utxos recipients change_script fee_rate input_count =
     (if length utxos < input_count then Ok None else
      and_then (try_inputs ev (take input_count utxos) recipients change_script fee_rate) (\<lambda>a.
      case a of
        Give_up \<Rightarrow> Ok None
      | Widen \<Rightarrow> widen_loop ev utxos recipients change_script fee_rate (Suc input_count)
      | Return b \<Rightarrow> Ok (Some b)))"
  by pat_completeness auto
termination
  by (relation "measure (\<lambda>(ev, utxos, recipients, cs, fr, n). Suc (length utxos) - n)") auto

definition build_one_batch ::
  "MassEvaluator \<Rightarrow> TreasuryUtxo list \<Rightarrow> PayoutRecipient list \<Rightarrow> ScriptPublicKey \<Rightarrow> FeeRate \<Rightarrow>
   (unit, PlannedBatch option) outcome" where
  "build_one_batch ev utxos recipients change_script fee_rate =
     widen_loop ev utxos recipients change_script fee_rate 1"

declare widen_loop.simps [simp del]


section \<open>What one batch satisfies\<close>

lemma picked_map: "\<forall>i \<in> set idxs. i < length xs \<Longrightarrow> picked xs idxs = map ((!) xs) idxs"
  by (induction idxs) (auto simp: picked_def get_def map_filter_simps)

abbreviation total_in :: "TreasuryUtxo list \<Rightarrow> int" where
  "total_in us \<equiv> sum_list (map tu_amount us)"

abbreviation total_paid :: "PayoutRecipient list \<Rightarrow> int" where
  "total_paid rs \<equiv> sum_list (map pr_amount_sompi rs)"

text \<open>Amounts are unsigned and the policy's floor is too.\<close>

definition amounts_ok :: "TreasuryUtxo list \<Rightarrow> PayoutRecipient list \<Rightarrow> FeeRate \<Rightarrow> bool" where
  "amounts_ok utxos recipients fr \<longleftrightarrow>
     (\<forall>u \<in> set utxos. 0 \<le> tu_amount u) \<and> (\<forall>r \<in> set recipients. 0 \<le> pr_amount_sompi r) \<and>
     total_in utxos < u64_max \<and> 0 \<le> min_relay_sompi_per_kg fr"

lemma fee_of_nonneg: "0 \<le> min_relay_sompi_per_kg fr \<Longrightarrow> 0 \<le> fee_of fr t"
  by (simp add: fee_of_def fee_for_nonneg)

text \<open>The loop keeps a set of recipients the inputs can pay with the fee.\<close>

definition affordable ::
  "MassEvaluator \<Rightarrow> TreasuryUtxo list \<Rightarrow> int \<Rightarrow> ScriptPublicKey \<Rightarrow> FeeRate \<Rightarrow> PayoutRecipient list \<Rightarrow> bool" where
  "affordable ev inputs input_sum cs fr payouts \<longleftrightarrow>
     (\<exists>t. evaluate_shape ev inputs payouts cs (input_sum - total_paid payouts) = Some t \<and>
          total_paid payouts + fee_of fr t \<le> input_sum)"

definition selection_ok ::
  "MassEvaluator \<Rightarrow> TreasuryUtxo list \<Rightarrow> int \<Rightarrow> PayoutRecipient list \<Rightarrow> ScriptPublicKey \<Rightarrow> FeeRate \<Rightarrow>
   nat \<Rightarrow> nat \<Rightarrow> nat list \<Rightarrow> bool" where
  "selection_ok ev inputs input_sum recipients cs fr max_outputs idx sel \<longleftrightarrow>
     distinct sel \<and> (\<forall>i \<in> set sel. i < idx) \<and> length sel \<le> max_outputs \<and>
     total_paid (map ((!) recipients) sel) \<le> input_sum \<and>
     (sel = [] \<or> affordable ev inputs input_sum cs fr (map ((!) recipients) sel))"

lemma greedy_step_ok:
  assumes sel: "selection_ok ev inputs input_sum recipients cs fr m idx sel" and "length sel < m"
    and idx: "idx < length recipients" and in_sum: "0 \<le> input_sum" "input_sum < u64_max"
    and nonneg: "\<forall>r \<in> set recipients. 0 \<le> pr_amount_sompi r" and fr: "0 \<le> min_relay_sompi_per_kg fr"
  shows "\<exists>sel'. greedy_step ev inputs input_sum recipients cs fr idx (recipients ! idx) sel = Ok sel' \<and>
    selection_ok ev inputs input_sum recipients cs fr m (Suc idx) sel'"
proof -
  let ?pay = "map ((!) recipients) sel" and ?r = "recipients ! idx"
  have lt: "\<forall>i \<in> set sel. i < length recipients" using sel idx by (auto simp: selection_ok_def)
  have pay_nonneg: "0 \<le> total_paid ?pay"
    using nonneg lt by (intro sum_list_nonneg) auto
  have r_nonneg: "0 \<le> pr_amount_sompi ?r" using nonneg idx by simp
  have paid: "total_paid ?pay \<le> input_sum" using sel by (simp add: selection_ok_def)
  have s: "(sum_u64 (map pr_amount_sompi (picked recipients sel)) :: (unit, int) outcome) = Ok (total_paid ?pay)"
    using u64.sum_from_nonneg[of "map pr_amount_sompi ?pay" 0] nonneg lt paid in_sum
    by (auto simp: picked_map)
  have old: "selection_ok ev inputs input_sum recipients cs fr m (Suc idx) sel"
    using sel by (auto simp: selection_ok_def)
  let ?c = "saturating 0 u64_max (total_paid ?pay + pr_amount_sompi ?r)"
  show ?thesis
  proof (cases "input_sum < ?c")
    case True
    then show ?thesis using s old by (auto simp: greedy_step_def Let_def)
  next
    case False
    then have c: "?c = total_paid ?pay + pr_amount_sompi ?r" "total_paid ?pay + pr_amount_sompi ?r \<le> input_sum"
      using in_sum pay_nonneg r_nonneg by (auto simp: saturating_def split: if_splits)
    let ?cand = "map ((!) recipients) (sel @ [idx])"
    have cand: "picked recipients (sel @ [idx]) = ?cand" using lt idx by (intro picked_map) auto
    show ?thesis
    proof (cases "evaluate_shape ev inputs ?cand cs (input_sum - total_paid ?cand)")
      case None
      then show ?thesis using s old c False in_sum pay_nonneg r_nonneg
        by (auto simp: greedy_step_def Let_def cand trapping_def in_range_def)
    next
      case (Some t)
      have "selection_ok ev inputs input_sum recipients cs fr m (Suc idx) (sel @ [idx])"
        if "saturating 0 u64_max (total_paid ?cand + fee_of fr t) \<le> input_sum"
      proof -
        have "total_paid ?cand + fee_of fr t \<le> input_sum"
          using that in_sum fee_of_nonneg[OF fr, of t] pay_nonneg r_nonneg
          by (auto simp: saturating_def split: if_splits)
        then show ?thesis using sel Some c assms(2)
          by (auto simp: selection_ok_def affordable_def)
      qed
      then show ?thesis using s old c False in_sum pay_nonneg r_nonneg Some
        by (auto simp: greedy_step_def Let_def cand trapping_def in_range_def)
    qed
  qed
qed

lemma greedy_loop_ok:
  assumes "selection_ok ev inputs input_sum recipients cs fr m idx sel"
    and "rest = drop idx recipients" and "0 \<le> input_sum" "input_sum < u64_max"
    and "\<forall>r \<in> set recipients. 0 \<le> pr_amount_sompi r" and "0 \<le> min_relay_sompi_per_kg fr"
    and "idx \<le> length recipients"
  shows "\<exists>sel'. greedy_loop ev inputs input_sum recipients cs fr m idx rest sel = Ok sel' \<and>
    selection_ok ev inputs input_sum recipients cs fr m (length recipients) sel'"
  using assms
proof (induction rest arbitrary: idx sel)
  case Nil
  then have "idx = length recipients" by simp
  then show ?case using Nil by simp
next
  case (Cons r rest)
  have idx: "idx < length recipients" using Cons.prems(2) by (metis drop_all list.distinct(1) not_le)
  then have r: "r = recipients ! idx" "rest = drop (Suc idx) recipients"
    using Cons.prems(2) Cons_nth_drop_Suc[OF idx] by (metis list.inject)+
  show ?case
  proof (cases "m \<le> length sel")
    case True
    then show ?thesis using Cons.prems(1,7) by (auto simp: selection_ok_def)
  next
    case False
    then obtain sel' where "greedy_step ev inputs input_sum recipients cs fr idx r sel = Ok sel'"
      "selection_ok ev inputs input_sum recipients cs fr m (Suc idx) sel'"
      using greedy_step_ok[OF Cons.prems(1) _ idx Cons.prems(3,4,5,6)] r by auto
    then show ?thesis using Cons.IH[OF _ r(2) Cons.prems(3,4,5,6)] idx False by simp
  qed
qed

text \<open>A batch pays its recipients and at least the fee of the shape it was
  measured at; change that is kept is exactly what remains and is not dust.\<close>

definition batch_ok :: "MassEvaluator \<Rightarrow> ScriptPublicKey \<Rightarrow> FeeRate \<Rightarrow> PlannedBatch \<Rightarrow> bool" where
  "batch_ok ev cs fr b \<longleftrightarrow>
     pb_payouts b \<noteq> [] \<and> length (pb_payouts b) \<le> max (10 * length (pb_inputs b)) 1 \<and>
     fits_independently (block_mass_limit ev) (pb_mass b) \<and> 0 \<le> pb_change_amount_sompi b \<and>
     (\<exists>g. evaluate_shape ev (pb_inputs b) (pb_payouts b) cs (total_in (pb_inputs b) - total_paid (pb_payouts b)) = Some g \<and>
        total_paid (pb_payouts b) + pb_change_amount_sompi b + fee_of fr g \<le> total_in (pb_inputs b) \<and>
        (pb_change_amount_sompi b \<noteq> 0 \<longrightarrow>
           total_paid (pb_payouts b) + pb_change_amount_sompi b + fee_of fr g = total_in (pb_inputs b) \<and>
           (reserves_fee fr \<longrightarrow> \<not> is_change_dust (me_calculator ev) (pb_change_amount_sompi b) cs)))"

text \<open>The batch is drawn from the recipients, each at most once.\<close>

definition drawn_from :: "PayoutRecipient list \<Rightarrow> PlannedBatch \<Rightarrow> bool" where
  "drawn_from recipients b \<longleftrightarrow>
     (\<exists>sel. sel \<noteq> [] \<and> distinct sel \<and> (\<forall>i \<in> set sel. i < length recipients) \<and>
        pb_payouts b = map ((!) recipients) sel)"

text \<open>The only way to another input: the shape fits with its change output and
  not without it.\<close>

definition change_needed :: "MassEvaluator \<Rightarrow> ScriptPublicKey \<Rightarrow> TreasuryUtxo list \<Rightarrow> bool" where
  "change_needed ev cs inputs \<longleftrightarrow>
     (\<exists>ps c. evaluate_shape ev inputs ps cs c \<noteq> None \<and> evaluate_shape ev inputs ps cs 0 = None)"

lemma evaluate_shape_fits:
  "evaluate_shape ev inputs ps cs c = Some t \<Longrightarrow> fits_independently (block_mass_limit ev) t"
  by (auto simp: evaluate_shape_def split: outcome.splits if_splits prod.splits)

lemma try_inputs_ok:
  assumes ok: "amounts_ok inputs recipients fr"
  shows "\<exists>a. try_inputs ev inputs recipients cs fr = Ok a \<and>
    (\<forall>b. a = Return b \<longrightarrow> pb_inputs b = inputs \<and> batch_ok ev cs fr b \<and> drawn_from recipients b) \<and>
    (a = Widen \<longrightarrow> change_needed ev cs inputs)"
proof -
  let ?in = "total_in inputs"
  have in_nonneg: "0 \<le> ?in" using ok by (intro sum_list_nonneg) (auto simp: amounts_ok_def)
  have in_lt: "?in < u64_max" and nonneg: "\<forall>r \<in> set recipients. 0 \<le> pr_amount_sompi r"
    and fr: "0 \<le> min_relay_sompi_per_kg fr"
    using ok by (auto simp: amounts_ok_def)
  have s: "(sum_u64 (map tu_amount inputs) :: (unit, int) outcome) = Ok ?in"
    using u64.sum_from_nonneg[of "map tu_amount inputs" 0] ok by (auto simp: amounts_ok_def)
  let ?m = "max (length inputs * MAX_OUTPUTS_PER_INPUT) 1"
  have "selection_ok ev inputs ?in recipients cs fr ?m 0 []"
    using in_nonneg by (simp add: selection_ok_def)
  then obtain sel where sel: "greedy_loop ev inputs ?in recipients cs fr ?m 0 recipients [] = Ok sel"
    "selection_ok ev inputs ?in recipients cs fr ?m (length recipients) sel"
    using greedy_loop_ok[of ev inputs ?in recipients cs fr ?m 0 "[]" recipients] in_nonneg in_lt nonneg fr by auto
  show ?thesis
  proof (cases "sel = []")
    case True
    then show ?thesis using s sel(1) by (simp add: try_inputs_def greedy_recipients_for_inputs_def)
  next
    case False
    let ?pay = "map ((!) recipients) sel"
    have lt: "\<forall>i \<in> set sel. i < length recipients" using sel(2) by (simp add: selection_ok_def)
    have pick: "picked recipients sel = ?pay" using lt by (rule picked_map)
    have pay: "0 \<le> total_paid ?pay" "total_paid ?pay \<le> ?in"
      using sel(2) nonneg lt by (auto simp: selection_ok_def intro!: sum_list_nonneg)
    have ps: "(sum_u64 (map pr_amount_sompi ?pay) :: (unit, int) outcome) = Ok (total_paid ?pay)"
      using u64.sum_from_nonneg[of "map pr_amount_sompi ?pay" 0] nonneg lt pay in_lt by auto
    obtain g where g: "evaluate_shape ev inputs ?pay cs (?in - total_paid ?pay) = Some g"
      "total_paid ?pay + fee_of fr g \<le> ?in"
      using sel(2) False by (auto simp: selection_ok_def affordable_def)
    have fee: "0 \<le> fee_of fr g" using fr by (rule fee_of_nonneg)
    have gross: "(trapping 0 u64_max (?in - total_paid ?pay) :: (unit, int) outcome) = Ok (?in - total_paid ?pay)"
      "(trapping 0 u64_max (?in - total_paid ?pay - fee_of fr g) :: (unit, int) outcome) = Ok (?in - total_paid ?pay - fee_of fr g)"
      using pay g(2) fee in_lt by (auto simp: trapping_def in_range_def)
    have sat: "saturating 0 u64_max (total_paid ?pay + fee_of fr g) = total_paid ?pay + fee_of fr g"
      using pay g(2) fee in_lt by simp
    let ?ch = "?in - total_paid ?pay - fee_of fr g"
    have drawn: "drawn_from recipients b" if "pb_payouts b = ?pay" for b
      using that sel(2) False lt by (auto simp: drawn_from_def selection_ok_def)
    have len: "length sel \<le> max (10 * length inputs) 1"
      using sel(2) by (simp add: selection_ok_def MAX_OUTPUTS_PER_INPUT_def mult.commute)
    note start = s sel(1) pick ps gross sat pay(2) False g
    show ?thesis
    proof (cases "reserves_fee fr \<and> (?ch = 0 \<or> is_change_dust (me_calculator ev) ?ch cs)")
      case True
      show ?thesis
      proof (cases "evaluate_shape ev inputs ?pay cs 0")
        case None
        have "try_inputs ev inputs recipients cs fr = Ok Widen"
          using start True None by (simp add: try_inputs_def greedy_recipients_for_inputs_def Let_def)
        then show ?thesis using None g(1) by (auto simp: change_needed_def)
      next
        case (Some t)
        let ?b = "\<lparr> pb_inputs = inputs, pb_payouts = ?pay, pb_change_amount_sompi = 0, pb_mass = t \<rparr>"
        have "try_inputs ev inputs recipients cs fr = Ok (Return ?b)"
          using start True Some by (simp add: try_inputs_def greedy_recipients_for_inputs_def Let_def)
        moreover have "batch_ok ev cs fr ?b"
          using False len evaluate_shape_fits[OF Some] g by (auto simp: batch_ok_def)
        ultimately show ?thesis using drawn[of ?b] by auto
      qed
    next
      case nd: False
      let ?b = "\<lparr> pb_inputs = inputs, pb_payouts = ?pay, pb_change_amount_sompi = ?ch, pb_mass = g \<rparr>"
      have "try_inputs ev inputs recipients cs fr = Ok (Return ?b)"
        using start nd by (cases "reserves_fee fr") (simp_all add: try_inputs_def greedy_recipients_for_inputs_def Let_def)
      moreover have "batch_ok ev cs fr ?b"
        using False len evaluate_shape_fits[OF g(1)] g nd by (auto simp: batch_ok_def)
      ultimately show ?thesis using drawn[of ?b] by auto
    qed
  qed
qed

lemma total_in_take: "\<forall>u \<in> set us. 0 \<le> tu_amount u \<Longrightarrow> total_in (take n us) \<le> total_in us"
proof -
  assume a: "\<forall>u \<in> set us. 0 \<le> tu_amount u"
  have "total_in us = total_in (take n us) + total_in (drop n us)"
    by (metis append_take_drop_id map_append sum_list_append)
  moreover have "0 \<le> total_in (drop n us)" using a by (intro sum_list_nonneg) (auto dest: in_set_dropD)
  ultimately show ?thesis by simp
qed

lemma amounts_ok_take: "amounts_ok us rs fr \<Longrightarrow> amounts_ok (take n us) rs fr"
  using total_in_take[of us n] by (auto simp: amounts_ok_def dest: in_set_takeD)

lemma widen_loop_ok:
  assumes "amounts_ok utxos recipients fr" and "1 \<le> n"
  shows "\<exists>r. widen_loop ev utxos recipients cs fr n = Ok r \<and>
    (\<forall>b. r = Some b \<longrightarrow> batch_ok ev cs fr b \<and> drawn_from recipients b \<and>
       (\<exists>k. n \<le> k \<and> k \<le> length utxos \<and> pb_inputs b = take k utxos \<and>
            (k = n \<or> change_needed ev cs (take n utxos))))"
  using assms
proof (induction "Suc (length utxos) - n" arbitrary: n rule: less_induct)
  case less
  show ?case
  proof (cases "length utxos < n")
    case True
    then show ?thesis by (simp add: widen_loop.simps)
  next
    case False
    obtain a where a: "try_inputs ev (take n utxos) recipients cs fr = Ok a"
      "\<forall>b. a = Return b \<longrightarrow> pb_inputs b = take n utxos \<and> batch_ok ev cs fr b \<and> drawn_from recipients b"
      "a = Widen \<longrightarrow> change_needed ev cs (take n utxos)"
      using try_inputs_ok[OF amounts_ok_take[OF less.prems(1)]] by blast
    show ?thesis
    proof (cases a)
      case Give_up
      then show ?thesis using a False by (simp add: widen_loop.simps[of _ _ _ _ _ n])
    next
      case Widen
      then have "widen_loop ev utxos recipients cs fr n = widen_loop ev utxos recipients cs fr (Suc n)"
        using a False by (simp add: widen_loop.simps[of _ _ _ _ _ n])
      moreover have shrink: "Suc (length utxos) - Suc n < Suc (length utxos) - n" using False by linarith
      moreover obtain r where "widen_loop ev utxos recipients cs fr (Suc n) = Ok r"
        "\<forall>b. r = Some b \<longrightarrow> batch_ok ev cs fr b \<and> drawn_from recipients b \<and>
         (\<exists>k. Suc n \<le> k \<and> k \<le> length utxos \<and> pb_inputs b = take k utxos \<and>
            (k = Suc n \<or> change_needed ev cs (take (Suc n) utxos)))"
        using less.hyps[OF shrink less.prems(1)] by auto
      ultimately show ?thesis using a(3) Widen by (metis Suc_leD)
    next
      case (Return b)
      then show ?thesis using a False by (auto simp: widen_loop.simps[of _ _ _ _ _ n])
    qed
  qed
qed

section \<open>The whole plan\<close>

lemma picked_subset: "set (picked xs idxs) \<subseteq> set xs"
  by (induction idxs) (auto simp: picked_def get_def map_filter_simps)

lemma try_inputs_Return:
  assumes "try_inputs ev inputs recipients cs fr = Ok (Return b)"
  shows "pb_payouts b \<noteq> [] \<and> set (pb_payouts b) \<subseteq> set recipients"
proof -
  obtain sel where "sel \<noteq> []" "length (picked recipients sel) = length sel" "pb_payouts b = picked recipients sel"
    using assms unfolding try_inputs_def Let_def
    by (auto elim!: and_then_OkE split: option.split_asm if_split_asm)
  then show ?thesis using picked_subset[of recipients sel] by auto
qed

lemma build_one_batch_payouts:
  assumes "widen_loop ev utxos recipients cs fr n = Ok (Some b)"
  shows "pb_payouts b \<noteq> [] \<and> set (pb_payouts b) \<subseteq> set recipients"
  using assms
proof (induction ev utxos recipients cs fr n rule: widen_loop.induct)
  case (1 ev utxos recipients cs fr n)
  from 1(2) consider "try_inputs ev (take n utxos) recipients cs fr = Ok (Return b)"
    | "\<not> length utxos < n" "try_inputs ev (take n utxos) recipients cs fr = Ok Widen"
      "widen_loop ev utxos recipients cs fr (Suc n) = Ok (Some b)"
    unfolding widen_loop.simps[of ev utxos recipients cs fr n]
    by (auto elim!: and_then_OkE split: if_split_asm attempt.split_asm)
  then show ?case using 1(1) by cases (auto dest: try_inputs_Return)
qed

lemma remove_paid_shrinks:
  assumes "build_one_batch ev utxos payable cs fr = Ok (Some b)"
  shows "length (remove_paid payable (pb_payouts b)) < length payable"
proof -
  obtain p where p: "p \<in> set (pb_payouts b)" "p \<in> set payable"
    using build_one_batch_payouts[OF assms[unfolded build_one_batch_def]] by (cases "pb_payouts b") auto
  then have "p \<notin> set (remove_paid payable (pb_payouts b))" by (auto simp: remove_paid_def list_ex_iff)
  then show ?thesis using p length_filter_less[OF p(2)] by (auto simp: remove_paid_def list_ex_iff)
qed

definition reinject :: "nat \<Rightarrow> PlannedBatch \<Rightarrow> ScriptPublicKey \<Rightarrow> TreasuryUtxo list \<Rightarrow> TreasuryUtxo list" where
  "reinject n b change_script utxos =
     (if 0 < pb_change_amount_sompi b \<and> int n \<le> u32_max
      then sort_utxos_desc (utxos @ [planning_change_utxo n (pb_change_amount_sompi b) change_script])
      else utxos)"

function plan_loop ::
  "MassEvaluator \<Rightarrow> ScriptPublicKey \<Rightarrow> FeeRate \<Rightarrow> PlannedBatch list \<Rightarrow> TreasuryUtxo list \<Rightarrow> PayoutRecipient list \<Rightarrow>
   (unit, PlannedBatch list \<times> PayoutRecipient list) outcome" where
  "plan_loop ev change_script fee_rate batches utxos payable =
     (if payable = [] \<or> utxos = [] then Ok (batches, payable) else
      and_then (build_one_batch ev utxos payable change_script fee_rate) (\<lambda>r.
      case r of
        None \<Rightarrow> Ok (batches, payable)
      | Some batch \<Rightarrow>
          plan_loop ev change_script fee_rate (batches @ [batch])
            (reinject (length batches) batch change_script (remove_consumed utxos (pb_inputs batch)))
            (remove_paid payable (pb_payouts batch))))"
  by pat_completeness auto
termination
  by (relation "measure (\<lambda>(ev, cs, fr, batches, utxos, payable). length payable)")
    (auto simp: remove_paid_shrinks)

declare plan_loop.simps [simp del]

definition plan_batches ::
  "MassEvaluator \<Rightarrow> TreasuryUtxo list \<Rightarrow> PayoutRecipient list \<Rightarrow> ScriptPublicKey \<Rightarrow> FeeRate \<Rightarrow>
   (unit, PlanBatchesResult) outcome" where
  "plan_batches ev utxos recipients change_script fee_rate =
     (let (payable, deferred) = partition_by_floor recipients in
      and_then (plan_loop ev change_script fee_rate [] (sort_utxos_desc utxos) (sort_recipients_desc payable))
        (\<lambda>(batches, unpaid).
         Ok \<lparr> pr_batches = batches, pr_deferred_below_floor = deferred, pr_unpaid = unpaid \<rparr>))"

section \<open>The loop rule\<close>

lemma remove_consumed_take:
  "remove_consumed utxos (take k utxos) =
     filter (\<lambda>u. \<not> list_ex (\<lambda>c. tu_outpoint c = tu_outpoint u) (take k utxos)) (drop k utxos)"
proof -
  have "filter (\<lambda>u. \<not> list_ex (\<lambda>c. tu_outpoint c = tu_outpoint u) (take k utxos)) (take k utxos) = []"
    by (auto simp: filter_empty_conv list_ex_iff)
  then show ?thesis unfolding remove_consumed_def
    using filter_append[of _ "take k utxos" "drop k utxos"] by simp
qed

lemma total_in_filter: "\<forall>u \<in> set us. 0 \<le> tu_amount u \<Longrightarrow> total_in (filter P us) \<le> total_in us"
  by (induction us) auto

lemma total_in_sort: "total_in (sort_utxos_desc us) = total_in us"
  by (simp add: sort_utxos_desc_def flip: sum_mset_sum_list)

lemma set_reinject:
  "set (reinject n b cs us) \<subseteq> insert (planning_change_utxo n (pb_change_amount_sompi b) cs) (set us)"
  by (auto simp: reinject_def sort_utxos_desc_def)

lemma build_one_batch_ok:
  assumes "amounts_ok utxos payable fr"
  shows "\<exists>r. build_one_batch ev utxos payable cs fr = Ok r \<and>
    (\<forall>b. r = Some b \<longrightarrow> batch_ok ev cs fr b \<and> drawn_from payable b \<and>
       (\<exists>k. 1 \<le> k \<and> k \<le> length utxos \<and> pb_inputs b = take k utxos \<and>
            (k = 1 \<or> change_needed ev cs (take 1 utxos))))"
  unfolding build_one_batch_def using widen_loop_ok[OF assms, of 1] by simp

lemma amounts_ok_step:
  assumes ok: "amounts_ok utxos payable fr" and b: "batch_ok ev cs fr b" "pb_inputs b = take k utxos"
    and paid: "drawn_from payable b"
  shows "amounts_ok (reinject n b cs (remove_consumed utxos (pb_inputs b))) (remove_paid payable (pb_payouts b)) fr"
proof -
  have nonneg: "\<forall>u \<in> set utxos. 0 \<le> tu_amount u" and fr: "0 \<le> min_relay_sompi_per_kg fr"
    using ok by (auto simp: amounts_ok_def)
  have "\<forall>r \<in> set (pb_payouts b). 0 \<le> pr_amount_sompi r"
    using ok paid by (auto simp: amounts_ok_def drawn_from_def)
  then have "0 \<le> total_paid (pb_payouts b)" by (intro sum_list_nonneg) auto
  moreover obtain g where "total_paid (pb_payouts b) + pb_change_amount_sompi b + fee_of fr g \<le> total_in (take k utxos)"
    using b by (auto simp: batch_ok_def)
  ultimately have change: "0 \<le> pb_change_amount_sompi b" "pb_change_amount_sompi b \<le> total_in (take k utxos)"
    using fee_of_nonneg[OF fr, of g] b(1) by (auto simp: batch_ok_def)
  let ?rest = "remove_consumed utxos (take k utxos)"
  have split: "total_in utxos = total_in (take k utxos) + total_in (drop k utxos)"
    by (metis append_take_drop_id map_append sum_list_append)
  have "total_in ?rest \<le> total_in (drop k utxos)"
    unfolding remove_consumed_take using nonneg by (intro total_in_filter) (auto dest: in_set_dropD)
  then have "total_in ?rest + pb_change_amount_sompi b \<le> total_in utxos" using split change by simp
  then have "total_in (reinject n b cs ?rest) \<le> total_in utxos"
    using change(1) by (auto simp: reinject_def total_in_sort planning_change_utxo_def)
  moreover have "0 \<le> tu_amount u" if "u \<in> set (reinject n b cs ?rest)" for u
  proof -
    from that consider "u = planning_change_utxo n (pb_change_amount_sompi b) cs" | "u \<in> set utxos"
      using set_reinject[of n b cs ?rest] unfolding remove_consumed_def by auto
    then show ?thesis using nonneg change(1) by cases (simp_all add: planning_change_utxo_def)
  qed
  moreover have "set (remove_paid payable (pb_payouts b)) \<subseteq> set payable" by (auto simp: remove_paid_def)
  ultimately show ?thesis using ok unfolding b(2) amounts_ok_def by (meson order_le_less_trans subsetD)
qed

lemma plan_loop_rule:
  assumes "P batches utxos payable" and "amounts_ok utxos payable fr"
    and step: "\<And>batches utxos payable b k. P batches utxos payable \<Longrightarrow> amounts_ok utxos payable fr \<Longrightarrow>
      batch_ok ev cs fr b \<Longrightarrow> drawn_from payable b \<Longrightarrow> 1 \<le> k \<Longrightarrow> k \<le> length utxos \<Longrightarrow> pb_inputs b = take k utxos \<Longrightarrow>
      k = 1 \<or> change_needed ev cs (take 1 utxos) \<Longrightarrow>
      P (batches @ [b]) (reinject (length batches) b cs (remove_consumed utxos (pb_inputs b)))
        (remove_paid payable (pb_payouts b))"
  shows "\<exists>batches' utxos' unpaid. plan_loop ev cs fr batches utxos payable = Ok (batches', unpaid) \<and>
    P batches' utxos' unpaid"
  using assms(1,2)
proof (induction "length payable" arbitrary: batches utxos payable rule: less_induct)
  case less
  show ?case
  proof (cases "payable = [] \<or> utxos = []")
    case True
    then show ?thesis using less.prems by (subst plan_loop.simps) auto
  next
    case False
    obtain r where r: "build_one_batch ev utxos payable cs fr = Ok r"
      "\<And>b. r = Some b \<Longrightarrow> batch_ok ev cs fr b \<and> drawn_from payable b \<and>
       (\<exists>k. 1 \<le> k \<and> k \<le> length utxos \<and> pb_inputs b = take k utxos \<and>
            (k = 1 \<or> change_needed ev cs (take 1 utxos)))"
      using build_one_batch_ok[OF less.prems(2), of ev cs] by blast
    show ?thesis
    proof (cases r)
      case None
      then show ?thesis using less.prems r(1) False by (subst plan_loop.simps) auto
    next
      case (Some b)
      then obtain k where b: "batch_ok ev cs fr b" "drawn_from payable b" "1 \<le> k" "k \<le> length utxos"
        "pb_inputs b = take k utxos" "k = 1 \<or> change_needed ev cs (take 1 utxos)"
        using r(2) by blast
      have "plan_loop ev cs fr batches utxos payable =
        plan_loop ev cs fr (batches @ [b]) (reinject (length batches) b cs (remove_consumed utxos (pb_inputs b)))
          (remove_paid payable (pb_payouts b))"
        using r(1) Some False by (subst plan_loop.simps) simp
      moreover have "length (remove_paid payable (pb_payouts b)) < length payable"
        using remove_paid_shrinks r(1) Some by blast
      ultimately show ?thesis
        using less.hyps[OF _ step[OF less.prems b] amounts_ok_step[OF less.prems(2) b(1,5,2)]] by simp
    qed
  qed
qed

section \<open>Exactly once\<close>

lemma partition_by_floor_eq:
  "partition_by_floor rs =
     (filter (\<lambda>r. MIN_PAYOUT_OUTPUT_SOMPI \<le> pr_amount_sompi r) rs,
      filter (\<lambda>r. \<not> MIN_PAYOUT_OUTPUT_SOMPI \<le> pr_amount_sompi r) rs)"
proof -
  let ?f = "\<lambda>(payable, deferred) r.
    if MIN_PAYOUT_OUTPUT_SOMPI \<le> pr_amount_sompi r then (payable @ [r], deferred) else (payable, deferred @ [r])"
  have "foldl ?f (xs, ys) rs =
     (xs @ filter (\<lambda>r. MIN_PAYOUT_OUTPUT_SOMPI \<le> pr_amount_sompi r) rs,
      ys @ filter (\<lambda>r. \<not> MIN_PAYOUT_OUTPUT_SOMPI \<le> pr_amount_sompi r) rs)" for xs ys
    by (induction rs arbitrary: xs ys) auto
  then show ?thesis by (simp add: partition_by_floor_def)
qed

lemma remove_paid_mset:
  assumes "drawn_from payable b" and dist: "distinct (map pr_id payable)"
  shows "mset (pb_payouts b) + mset (remove_paid payable (pb_payouts b)) = mset payable"
proof -
  obtain sel where sel: "distinct sel" "\<forall>i \<in> set sel. i < length payable" "pb_payouts b = map ((!) payable) sel"
    using assms(1) by (auto simp: drawn_from_def)
  have inj: "inj_on pr_id (set payable)" and dp: "distinct payable" using dist by (auto simp: distinct_map)
  have sub: "set (pb_payouts b) \<subseteq> set payable" using sel by auto
  have "distinct (pb_payouts b)"
    using sel dp by (auto simp: distinct_map inj_on_def nth_eq_iff_index_eq)
  then have "mset (pb_payouts b) = mset (filter (\<lambda>r. r \<in> set (pb_payouts b)) payable)"
    using sub dp by (subst set_eq_iff_mset_eq_distinct[symmetric]) auto
  moreover have "list_ex (\<lambda>p. pr_id p = pr_id r) (pb_payouts b) \<longleftrightarrow> r \<in> set (pb_payouts b)" if "r \<in> set payable" for r
    using that sub inj by (auto simp: list_ex_iff inj_on_def)
  then have "remove_paid payable (pb_payouts b) = filter (\<lambda>r. r \<notin> set (pb_payouts b)) payable"
    unfolding remove_paid_def by (intro filter_cong) auto
  ultimately show ?thesis by simp
qed

lemma distinct_remove_paid: "distinct (map pr_id payable) \<Longrightarrow> distinct (map pr_id (remove_paid payable paid))"
  by (simp add: remove_paid_def distinct_map_filter)

lemma amounts_ok_plan:
  assumes "amounts_ok utxos recipients fr"
  shows "amounts_ok (sort_utxos_desc utxos) (sort_recipients_desc (fst (partition_by_floor recipients))) fr"
proof -
  have "set (sort_utxos_desc utxos) = set utxos" by (simp add: sort_utxos_desc_def)
  moreover have "set (sort_recipients_desc (fst (partition_by_floor recipients))) \<subseteq> set recipients"
    by (auto simp: sort_recipients_desc_def partition_by_floor_eq)
  ultimately show ?thesis
    using assms by (simp add: amounts_ok_def total_in_sort subset_iff)
qed

text \<open>Every plan is a run of the loop from the sorted inputs.\<close>

lemma plan_batches_rule:
  assumes "amounts_ok utxos recipients fr"
    and "P [] (sort_utxos_desc utxos) (sort_recipients_desc (fst (partition_by_floor recipients)))"
    and "\<And>batches utxos payable b k. P batches utxos payable \<Longrightarrow> amounts_ok utxos payable fr \<Longrightarrow>
      batch_ok ev cs fr b \<Longrightarrow> drawn_from payable b \<Longrightarrow> 1 \<le> k \<Longrightarrow> k \<le> length utxos \<Longrightarrow> pb_inputs b = take k utxos \<Longrightarrow>
      k = 1 \<or> change_needed ev cs (take 1 utxos) \<Longrightarrow>
      P (batches @ [b]) (reinject (length batches) b cs (remove_consumed utxos (pb_inputs b)))
        (remove_paid payable (pb_payouts b))"
  shows "\<exists>batches rest unpaid. P batches rest unpaid \<and>
    plan_batches ev utxos recipients cs fr =
      Ok \<lparr> pr_batches = batches, pr_deferred_below_floor = snd (partition_by_floor recipients), pr_unpaid = unpaid \<rparr>"
proof -
  have "\<exists>batches' utxos' unpaid.
      plan_loop ev cs fr [] (sort_utxos_desc utxos) (sort_recipients_desc (fst (partition_by_floor recipients))) =
        Ok (batches', unpaid) \<and> P batches' utxos' unpaid"
    by (rule plan_loop_rule[where P = P, OF assms(2) amounts_ok_plan[OF assms(1)]]) (rule assms(3); assumption)
  then show ?thesis by (auto simp: plan_batches_def partition_by_floor_eq)
qed

text \<open>Whatever the amounts, a batch is drawn from the recipients without
  repetition, so a plan that returns splits them.\<close>

lemma greedy_loop_distinct:
  assumes "greedy_loop ev inputs input_sum recipients cs fr max_outputs idx rest selected = Ok sel"
    and "distinct selected" and "\<forall>i \<in> set selected. i < idx"
  shows "distinct sel"
  using assms
proof (induction rest arbitrary: idx selected)
  case (Cons r rest)
  show ?case
  proof (cases "max_outputs \<le> length selected")
    case True
    then show ?thesis using Cons.prems by simp
  next
    case False
    then obtain sel' where st: "greedy_step ev inputs input_sum recipients cs fr idx r selected = Ok sel'"
      and lp: "greedy_loop ev inputs input_sum recipients cs fr max_outputs (Suc idx) rest sel' = Ok sel"
      using Cons.prems(1) by (auto elim!: and_then_OkE)
    have "sel' = selected \<or> sel' = selected @ [idx]"
      using st unfolding greedy_step_def Let_def by (auto elim!: and_then_OkE split: if_split_asm option.split_asm)
    then have "distinct sel'" "\<forall>i \<in> set sel'. i < Suc idx" using Cons.prems(2,3) by (auto simp: less_Suc_eq)
    from Cons.IH[OF lp this] show ?thesis .
  qed
qed simp

lemma picked_full:
  assumes "length (picked xs idxs) = length idxs"
  shows "(\<forall>i \<in> set idxs. i < length xs) \<and> picked xs idxs = map ((!) xs) idxs"
proof -
  have le: "length (picked xs js) \<le> length js" for js
    by (induction js) (auto simp: picked_def map_filter_simps split: option.split)
  have "\<forall>i \<in> set idxs. i < length xs" using assms
  proof (induction idxs)
    case (Cons j js)
    show ?case
    proof (cases "j < length xs")
      case True
      then show ?thesis using Cons by (simp add: picked_def get_def map_filter_simps)
    next
      case False
      then have "picked xs (j # js) = picked xs js" by (simp add: picked_def get_def map_filter_simps)
      then show ?thesis using Cons.prems le[of js] by simp
    qed
  qed simp
  then show ?thesis using picked_map by blast
qed

lemma try_inputs_drawn:
  assumes "try_inputs ev inputs recipients cs fr = Ok (Return b)"
  shows "drawn_from recipients b"
proof -
  obtain input_sum where i: "sum_u64 (map tu_amount inputs) = (Ok input_sum :: (unit, int) outcome)"
    using assms unfolding try_inputs_def by (rule and_then_OkE)
  obtain x where x: "greedy_recipients_for_inputs ev inputs input_sum recipients cs fr = Ok x"
    using assms unfolding try_inputs_def i and_then.simps by (rule and_then_OkE)
  obtain sel where sel: "x = Some sel" using assms unfolding try_inputs_def i x and_then.simps by (cases x) auto
  note g = x[unfolded sel]
  have s: "sel \<noteq> []" "length (picked recipients sel) = length sel" "pb_payouts b = picked recipients sel"
    using assms unfolding try_inputs_def i g and_then.simps option.case Let_def
    by (auto elim!: and_then_OkE split: option.split_asm if_split_asm)
  obtain sel0 where sel0: "greedy_loop ev inputs input_sum recipients cs fr (max (length inputs * MAX_OUTPUTS_PER_INPUT) 1) 0 recipients [] = Ok sel0"
    using g unfolding greedy_recipients_for_inputs_def by (rule and_then_OkE)
  then have "sel = sel0" using g by (simp add: greedy_recipients_for_inputs_def split: if_split_asm)
  then have "distinct sel" using greedy_loop_distinct[OF sel0] by simp
  then show ?thesis unfolding drawn_from_def by (intro exI[of _ sel]) (simp add: s(1,3) picked_full[OF s(2)])
qed

lemma widen_loop_drawn:
  assumes "widen_loop ev utxos recipients cs fr n = Ok (Some b)"
  shows "drawn_from recipients b"
  using assms
proof (induction ev utxos recipients cs fr n rule: widen_loop.induct)
  case (1 ev utxos recipients cs fr n)
  from 1(2) consider "try_inputs ev (take n utxos) recipients cs fr = Ok (Return b)"
    | "\<not> length utxos < n" "try_inputs ev (take n utxos) recipients cs fr = Ok Widen"
      "widen_loop ev utxos recipients cs fr (Suc n) = Ok (Some b)"
    unfolding widen_loop.simps[of ev utxos recipients cs fr n]
    by (auto elim!: and_then_OkE split: if_split_asm attempt.split_asm)
  then show ?case using 1(1) by cases (auto dest: try_inputs_drawn)
qed

lemma plan_loop_splits:
  assumes "plan_loop ev cs fr batches utxos payable = Ok (bs, unpaid)" and "distinct (map pr_id payable)"
  shows "mset (concat (map pb_payouts bs)) + mset unpaid = mset (concat (map pb_payouts batches)) + mset payable"
  using assms
proof (induction "length payable" arbitrary: batches utxos payable rule: less_induct)
  case less
  show ?case
  proof (cases "payable = [] \<or> utxos = []")
    case True
    then show ?thesis using less.prems(1) by (subst (asm) plan_loop.simps) auto
  next
    case False
    then obtain r where r: "build_one_batch ev utxos payable cs fr = Ok r"
      using less.prems(1) by (subst (asm) plan_loop.simps) (auto elim: and_then_OkE)
    show ?thesis
    proof (cases r)
      case None
      then show ?thesis using less.prems(1) r False by (subst (asm) plan_loop.simps) auto
    next
      case (Some b)
      have lp: "plan_loop ev cs fr (batches @ [b]) (reinject (length batches) b cs (remove_consumed utxos (pb_inputs b)))
          (remove_paid payable (pb_payouts b)) = Ok (bs, unpaid)"
        using less.prems(1) r Some False by (subst (asm) plan_loop.simps) simp
      have "drawn_from payable b" using r Some by (simp add: build_one_batch_def widen_loop_drawn)
      from remove_paid_mset[OF this less.prems(2)]
        less.hyps[OF remove_paid_shrinks[OF r[unfolded Some]] lp distinct_remove_paid[OF less.prems(2)]]
      show ?thesis by (simp add: add.assoc)
    qed
  qed
qed

lemma plan_batches_splits:
  assumes "plan_batches ev utxos recipients cs fr = Ok res" and "distinct (map pr_id recipients)"
  shows "distinct (map pr_id (concat (map pb_payouts (pr_batches res))))"
    and "set (concat (map pb_payouts (pr_batches res))) \<subseteq> set recipients"
proof -
  let ?payable = "sort_recipients_desc (fst (partition_by_floor recipients))"
  obtain bs unpaid where lp: "plan_loop ev cs fr [] (sort_utxos_desc utxos) ?payable = Ok (bs, unpaid)"
    and res: "pr_batches res = bs"
    using assms(1) by (auto simp: plan_batches_def partition_by_floor_eq elim!: and_then_OkE)
  have d: "distinct (map pr_id ?payable)"
    using assms(2) by (auto simp: sort_recipients_desc_def partition_by_floor_eq distinct_map intro: inj_on_subset)
  have m: "mset (concat (map pb_payouts bs)) + mset unpaid = mset ?payable" using plan_loop_splits[OF lp d] by simp
  then have "mset (map pr_id (concat (map pb_payouts bs) @ unpaid)) = mset (map pr_id ?payable)"
    by (metis mset_append mset_map)
  then have "distinct (map pr_id (concat (map pb_payouts bs) @ unpaid))" using d by (metis mset_eq_imp_distinct_iff)
  then show "distinct (map pr_id (concat (map pb_payouts (pr_batches res))))" by (simp add: res)
  have "set (concat (map pb_payouts bs)) \<subseteq> set ?payable"
    using m by (metis mset_subset_eq_add_left set_mset_mono set_mset_mset)
  then show "set (concat (map pb_payouts (pr_batches res))) \<subseteq> set recipients"
    by (auto simp: res sort_recipients_desc_def partition_by_floor_eq)
qed

section \<open>No coin twice\<close>

text \<open>An input is a coin of the treasury or the change of an earlier batch.\<close>

definition sourced :: "TreasuryUtxo list \<Rightarrow> ScriptPublicKey \<Rightarrow> PlannedBatch list \<Rightarrow> nat \<Rightarrow> TreasuryUtxo \<Rightarrow> bool" where
  "sourced utxos cs batches j u \<longleftrightarrow> u \<in> set utxos \<or>
     (\<exists>i < j. u = planning_change_utxo i (pb_change_amount_sompi (batches ! i)) cs)"

definition spends_ok :: "TreasuryUtxo list \<Rightarrow> ScriptPublicKey \<Rightarrow> PlannedBatch list \<Rightarrow> TreasuryUtxo list \<Rightarrow> bool" where
  "spends_ok coins cs batches utxos \<longleftrightarrow>
     distinct (map tu_outpoint (concat (map pb_inputs batches) @ utxos)) \<and>
     (\<forall>u \<in> set utxos. sourced coins cs batches (length batches) u) \<and>
     (\<forall>j < length batches. \<forall>u \<in> set (pb_inputs (batches ! j)). sourced coins cs batches j u)"

lemma sourced_append: "j \<le> length batches \<Longrightarrow> sourced coins cs (batches @ bs) j u \<longleftrightarrow> sourced coins cs batches j u"
proof -
  assume "j \<le> length batches"
  then have "(batches @ bs) ! i = batches ! i" if "i < j" for i using that by (simp add: nth_append)
  then show ?thesis by (simp add: sourced_def cong: conj_cong)
qed

lemma sourced_mono:
  assumes "sourced coins cs batches i u" and "i \<le> j"
  shows "sourced coins cs batches j u"
  using assms(1) unfolding sourced_def
proof
  assume "\<exists>k < i. u = planning_change_utxo k (pb_change_amount_sompi (batches ! k)) cs"
  then obtain k where "k < i" "u = planning_change_utxo k (pb_change_amount_sompi (batches ! k)) cs" by blast
  then have "k < j \<and> u = planning_change_utxo k (pb_change_amount_sompi (batches ! k)) cs" using assms(2) by simp
  then show "u \<in> set coins \<or> (\<exists>k < j. u = planning_change_utxo k (pb_change_amount_sompi (batches ! k)) cs)" by blast
qed blast

lemma sourced_outpoint:
  assumes "sourced coins cs batches j u" and "\<forall>u \<in> set coins. \<not> is_planning_virtual u" and "j \<le> n"
  shows "tu_outpoint u \<noteq> tu_outpoint (planning_change_utxo n c cs)"
  using assms(1) unfolding sourced_def
proof
  assume "u \<in> set coins"
  then show ?thesis using assms(2) by (auto simp: is_planning_virtual_def planning_change_utxo_def)
next
  assume "\<exists>i < j. u = planning_change_utxo i (pb_change_amount_sompi (batches ! i)) cs"
  then show ?thesis using assms(3) by (auto simp: planning_change_utxo_def)
qed

lemma spends_ok_step:
  assumes ok: "spends_ok coins cs batches utxos" and real: "\<forall>u \<in> set coins. \<not> is_planning_virtual u"
    and b: "pb_inputs b = take k utxos"
  shows "spends_ok coins cs (batches @ [b]) (reinject (length batches) b cs (remove_consumed utxos (pb_inputs b)))"
proof -
  let ?n = "length batches" and ?v = "planning_change_utxo (length batches) (pb_change_amount_sompi b) cs"
  let ?spent = "concat (map pb_inputs batches)" and ?rest = "remove_consumed utxos (take k utxos)"
  have dist: "distinct (map tu_outpoint (?spent @ utxos))" using ok by (simp add: spends_ok_def)
  have src: "sourced coins cs batches ?n u" if "u \<in> set utxos" for u using ok that by (simp add: spends_ok_def)
  have rest: "?rest = drop k utxos"
  proof -
    have "\<not> list_ex (\<lambda>c. tu_outpoint c = tu_outpoint u) (take k utxos)" if "u \<in> set (drop k utxos)" for u
    proof -
      have "distinct (map tu_outpoint (take k utxos @ drop k utxos))" using dist by simp
      then have "tu_outpoint ` set (take k utxos) \<inter> tu_outpoint ` set (drop k utxos) = {}"
        unfolding map_append distinct_append by simp
      then show ?thesis using that by (auto simp: list_ex_iff)
    qed
    then show ?thesis unfolding remove_consumed_take by (intro filter_True) blast
  qed
  have new: "tu_outpoint ?v \<notin> tu_outpoint ` (set ?spent \<union> set utxos)"
  proof -
    have "sourced coins cs batches ?n u" if "u \<in> set ?spent" for u
    proof -
      from that obtain b' where "b' \<in> set batches" "u \<in> set (pb_inputs b')" by auto
      then obtain j where j: "j < ?n" "u \<in> set (pb_inputs (batches ! j))" by (metis in_set_conv_nth)
      then have "sourced coins cs batches j u" using ok by (simp add: spends_ok_def)
      then show ?thesis using j(1) by (elim sourced_mono) simp
    qed
    then have "tu_outpoint u \<noteq> tu_outpoint ?v" if "u \<in> set ?spent \<union> set utxos" for u
      using that src sourced_outpoint[OF _ real order_refl] by blast
    then show ?thesis by (metis imageE)
  qed
  have td: "mset (take k utxos) + mset (drop k utxos) = mset utxos" by (metis append_take_drop_id mset_append)
  have all: "distinct (map tu_outpoint (?spent @ take k utxos @ drop k utxos))" using dist by simp
  have d: "distinct (map tu_outpoint (concat (map pb_inputs (batches @ [b])) @ reinject ?n b cs ?rest))"
  proof (cases "0 < pb_change_amount_sompi b \<and> int ?n \<le> u32_max")
    case True
    have "mset (map tu_outpoint (concat (map pb_inputs (batches @ [b])) @ reinject ?n b cs ?rest)) =
        mset (map tu_outpoint ((?spent @ take k utxos @ drop k utxos) @ [?v]))"
      using True b arg_cong[OF td, of "image_mset tu_outpoint"] by (simp add: reinject_def rest sort_utxos_desc_def)
    moreover have "tu_outpoint ?v \<notin> set (map tu_outpoint (?spent @ take k utxos @ drop k utxos))"
      using new by (simp add: image_Un)
    then have "distinct (map tu_outpoint ((?spent @ take k utxos @ drop k utxos) @ [?v]))"
      using all unfolding map_append[of _ _ "[?v]"] distinct_append by simp
    ultimately show ?thesis using mset_eq_imp_distinct_iff by blast
  next
    case False
    then have "reinject ?n b cs ?rest = drop k utxos" by (auto simp: reinject_def rest)
    then have "concat (map pb_inputs (batches @ [b])) @ reinject ?n b cs ?rest = ?spent @ take k utxos @ drop k utxos"
      by (simp add: b)
    then show ?thesis using all by (simp only:)
  qed
  have inputs: "sourced coins cs (batches @ [b]) j u" if "j < Suc ?n" "u \<in> set (pb_inputs ((batches @ [b]) ! j))" for j u
  proof (cases "j = ?n")
    case True
    then show ?thesis using that(2) src b by (auto simp: sourced_append dest: in_set_takeD)
  next
    case False
    then have "j < ?n" using that(1) by simp
    then show ?thesis using that(2) ok by (simp add: sourced_append nth_append spends_ok_def)
  qed
  have left: "sourced coins cs (batches @ [b]) (Suc ?n) u" if "u \<in> set (reinject ?n b cs ?rest)" for u
  proof -
    from that consider "u = ?v" | "u \<in> set utxos"
      using set_reinject[of ?n b cs ?rest] unfolding remove_consumed_def by auto
    then show ?thesis
    proof cases
      case 1
      then show ?thesis unfolding sourced_def by (intro disjI2 exI[of _ ?n]) simp
    next
      case 2
      then show ?thesis using src sourced_mono[of coins cs "batches @ [b]" ?n u "Suc ?n"] by (simp add: sourced_append)
    qed
  qed
  show ?thesis using d inputs left unfolding spends_ok_def b by simp
qed

section \<open>Properties\<close>

text \<open>C8.  A plan pays every recipient at most once and loses none: planning
  always returns, and the recipients of its batches, those below the payout
  floor and those left unpaid are together exactly the recipients given,
  each counted once.\<close>

theorem plan_batches_pays_each_once:
  assumes "amounts_ok utxos recipients fee_rate" and "distinct (map pr_id recipients)"
  shows "\<exists>res. plan_batches ev utxos recipients change_script fee_rate = Ok res \<and>
    mset (concat (map pb_payouts (pr_batches res))) + mset (pr_unpaid res) + mset (pr_deferred_below_floor res) =
      mset recipients \<and>
    pr_deferred_below_floor res = filter (\<lambda>r. pr_amount_sompi r < MIN_PAYOUT_OUTPUT_SOMPI) recipients"
proof -
  let ?payable = "sort_recipients_desc (fst (partition_by_floor recipients))"
  let ?P = "\<lambda>batches (utxos :: TreasuryUtxo list) payable.
    mset (concat (map pb_payouts batches)) + mset payable = mset ?payable \<and> distinct (map pr_id payable)"
  have start: "distinct (map pr_id ?payable)"
    using assms(2) by (auto simp: sort_recipients_desc_def partition_by_floor_eq distinct_map intro: inj_on_subset)
  have step: "?P (batches @ [b]) us' (remove_paid payable (pb_payouts b))"
    if "?P batches us payable" "drawn_from payable b" for batches us us' payable b
    using that remove_paid_mset[OF that(2)] distinct_remove_paid by (simp add: add.assoc)
  have "\<exists>batches rest unpaid. ?P batches rest unpaid \<and>
    plan_batches ev utxos recipients change_script fee_rate =
      Ok \<lparr> pr_batches = batches, pr_deferred_below_floor = snd (partition_by_floor recipients), pr_unpaid = unpaid \<rparr>"
    by (rule plan_batches_rule[where P = ?P, OF assms(1)]) (simp add: start, rule step)
  then show ?thesis
    using multiset_partition[of "mset recipients" "\<lambda>r. MIN_PAYOUT_OUTPUT_SOMPI \<le> pr_amount_sompi r"]
    by (auto simp: partition_by_floor_eq sort_recipients_desc_def not_le)
qed


text \<open>C7.  No coin is spent twice.  Over the whole plan the outpoints of the
  inputs are distinct, and every input of batch \<open>j\<close> is a treasury coin or the
  virtual change of a batch before \<open>j\<close>, at that batch's change amount.\<close>

theorem plan_batches_no_double_spend:
  assumes "amounts_ok utxos recipients fee_rate" and "distinct (map tu_outpoint utxos)"
    and "list_all (\<lambda>u. \<not> is_planning_virtual u) utxos"
  shows "\<exists>res. plan_batches ev utxos recipients change_script fee_rate = Ok res \<and>
    distinct (map tu_outpoint (concat (map pb_inputs (pr_batches res)))) \<and>
    (\<forall>j < length (pr_batches res). \<forall>u \<in> set (pb_inputs (pr_batches res ! j)).
       sourced utxos change_script (pr_batches res) j u)"
proof -
  let ?P = "\<lambda>batches coins _. spends_ok utxos change_script batches coins"
  have real: "\<forall>u \<in> set utxos. \<not> is_planning_virtual u" using assms(3) by (simp add: list_all_iff)
  have "distinct (map tu_outpoint (sort_utxos_desc utxos))"
    using assms(2) by (simp add: sort_utxos_desc_def distinct_map)
  then have start: "spends_ok utxos change_script [] (sort_utxos_desc utxos)"
    by (simp add: spends_ok_def sourced_def sort_utxos_desc_def)
  have "\<exists>batches rest unpaid. ?P batches rest unpaid \<and>
    plan_batches ev utxos recipients change_script fee_rate =
      Ok \<lparr> pr_batches = batches, pr_deferred_below_floor = snd (partition_by_floor recipients), pr_unpaid = unpaid \<rparr>"
    by (rule plan_batches_rule[where P = ?P, OF assms(1) start]) (rule spends_ok_step[OF _ real])
  then show ?thesis by (auto simp: spends_ok_def)
qed

definition covered :: "TreasuryUtxo list \<Rightarrow> int \<Rightarrow> bool" where
  "covered coins x \<longleftrightarrow> (\<exists>c \<in> set coins. x \<le> tu_amount c)"

definition one_coin_ok :: "TreasuryUtxo list \<Rightarrow> PlannedBatch list \<Rightarrow> TreasuryUtxo list \<Rightarrow> bool" where
  "one_coin_ok coins batches utxos \<longleftrightarrow>
     (\<forall>b \<in> set batches. length (pb_inputs b) = 1 \<and> (\<forall>r \<in> set (pb_payouts b). covered coins (pr_amount_sompi r))) \<and>
     (\<forall>u \<in> set utxos. covered coins (tu_amount u))"

lemma covered_mono: "covered coins y \<Longrightarrow> x \<le> y \<Longrightarrow> covered coins x"
  unfolding covered_def by (meson order_trans)

lemma one_coin_step:
  assumes ok: "one_coin_ok coins batches utxos" and amounts: "amounts_ok utxos payable fr"
    and b: "batch_ok ev cs fr b" "drawn_from payable b" "pb_inputs b = take 1 utxos" "1 \<le> length utxos"
  shows "one_coin_ok coins (batches @ [b]) (reinject n b cs (remove_consumed utxos (pb_inputs b)))"
proof -
  obtain u where u: "pb_inputs b = [u]" "u \<in> set utxos" using b(3,4) by (cases utxos) auto
  have w: "covered coins (tu_amount u)" using ok u(2) by (simp add: one_coin_ok_def)
  have nonneg: "\<forall>x \<in> set (map pr_amount_sompi (pb_payouts b)). 0 \<le> x"
    using amounts b(2) by (auto simp: amounts_ok_def drawn_from_def)
  obtain g where g: "total_paid (pb_payouts b) + pb_change_amount_sompi b + fee_of fr g \<le> tu_amount u"
    using b(1) u(1) by (auto simp: batch_ok_def)
  have fee: "0 \<le> fee_of fr g" using amounts by (intro fee_of_nonneg) (simp add: amounts_ok_def)
  have change: "0 \<le> pb_change_amount_sompi b" using b(1) by (simp add: batch_ok_def)
  have paid: "pr_amount_sompi r \<le> tu_amount u" if "r \<in> set (pb_payouts b)" for r
    using sum_list_member_le[OF nonneg, of "pr_amount_sompi r"] that g fee change by force
  have "0 \<le> total_paid (pb_payouts b)" using nonneg by (intro sum_list_nonneg) auto
  then have ch: "pb_change_amount_sompi b \<le> tu_amount u" using g fee by linarith
  have "covered coins (tu_amount v)" if "v \<in> set (reinject n b cs (remove_consumed utxos (pb_inputs b)))" for v
  proof -
    from that consider "v = planning_change_utxo n (pb_change_amount_sompi b) cs" | "v \<in> set utxos"
      using set_reinject[of n b cs "remove_consumed utxos (pb_inputs b)"] unfolding remove_consumed_def by auto
    then show ?thesis
      using ok covered_mono[OF w ch] by cases (simp_all add: one_coin_ok_def planning_change_utxo_def)
  qed
  then show ?thesis using ok u(1) covered_mono[OF w paid] by (auto simp: one_coin_ok_def)
qed

text \<open>C32.  The planner never joins coins.  If leaving out the change output
  never makes a shape too heavy, every batch has exactly one input: the
  branches that widen the input set are unreachable, and a recipient larger
  than every coin is not paid, however much the treasury holds in total.\<close>

theorem plan_batches_one_coin:
  assumes "amounts_ok utxos recipients fee_rate"
    and "\<forall>ins ps c. evaluate_shape ev ins ps change_script c \<noteq> None \<longrightarrow>
      evaluate_shape ev ins ps change_script 0 \<noteq> None"
  shows "\<exists>res. plan_batches ev utxos recipients change_script fee_rate = Ok res \<and>
    (\<forall>b \<in> set (pr_batches res). length (pb_inputs b) = 1 \<and>
       (\<forall>r \<in> set (pb_payouts b). \<exists>u \<in> set utxos. pr_amount_sompi r \<le> tu_amount u))"
proof -
  have no: "\<not> change_needed ev change_script ins" for ins using assms(2) unfolding change_needed_def by blast
  let ?P = "\<lambda>batches coins (_ :: PayoutRecipient list). one_coin_ok utxos batches coins"
  have start: "one_coin_ok utxos [] (sort_utxos_desc utxos)"
    unfolding one_coin_ok_def covered_def sort_utxos_desc_def by auto
  have "\<exists>batches rest unpaid. ?P batches rest unpaid \<and>
    plan_batches ev utxos recipients change_script fee_rate =
      Ok \<lparr> pr_batches = batches, pr_deferred_below_floor = snd (partition_by_floor recipients), pr_unpaid = unpaid \<rparr>"
    by (rule plan_batches_rule[where P = ?P, OF assms(1) start], rule one_coin_step) (simp_all add: no)
  then show ?thesis by (auto simp: one_coin_ok_def covered_def)
qed

section \<open>A concrete plan\<close>

definition demo_consensus :: consensus where
  "demo_consensus = \<lparr> calc_non_contextual_masses = (\<lambda>tx. (1000 * int (length (tx_inputs tx)) + 300 * int (length (tx_outputs tx)), 4000)),
     calc_contextual_masses = (\<lambda>tx entries. Some 0), output_estimated_serialized_size = (\<lambda>_. 52),
     block_compute_limit = 500000 \<rparr>"

definition demo_coin :: "int \<Rightarrow> int \<Rightarrow> TreasuryUtxo" where
  "demo_coin i amount = \<lparr> tu_outpoint = \<lparr> op_transaction_id = [7], op_index = i \<rparr>,
     tu_entry = \<lparr> ue_amount = amount, ue_script_public_key = ''t'', ue_block_daa_score = 1,
                  ue_is_coinbase = True, ue_covenant_id = None \<rparr> \<rparr>"

definition demo_recipient :: "string \<Rightarrow> int \<Rightarrow> PayoutRecipient" where
  "demo_recipient i amount = \<lparr> pr_id = i, pr_amount_sompi = amount, pr_script_public_key = i \<rparr>"

definition demo_coins :: "TreasuryUtxo list" where
  "demo_coins = [demo_coin 0 4000000, demo_coin 1 5000000]"

definition demo_recipients :: "PayoutRecipient list" where
  "demo_recipients = [demo_recipient ''a'' 2000000, demo_recipient ''b'' 1000, demo_recipient ''c'' 2500000,
     demo_recipient ''d'' 6000000]"

lemmas demo_defs = demo_coins_def demo_recipients_def demo_coin_def demo_recipient_def

lemma demo_amounts_ok: "amounts_ok demo_coins demo_recipients (from_feerate r)"
  by (simp add: amounts_ok_def demo_defs from_feerate_def MIN_RELAY_TX_FEE_SOMPI_PER_KG_def)

theorem plan_batches_pays_each_once_witness:
  "\<exists>res. plan_batches (mainnet demo_consensus) demo_coins demo_recipients ''t'' (from_feerate (Fin 1)) = Ok res \<and>
    mset (concat (map pb_payouts (pr_batches res))) + mset (pr_unpaid res) + mset (pr_deferred_below_floor res) =
      mset demo_recipients \<and>
    pr_deferred_below_floor res = [demo_recipient ''b'' 1000]"
proof -
  have "distinct (map pr_id demo_recipients)" by (simp add: demo_defs)
  moreover have "filter (\<lambda>r. pr_amount_sompi r < MIN_PAYOUT_OUTPUT_SOMPI) demo_recipients = [demo_recipient ''b'' 1000]"
    by (simp add: demo_defs MIN_PAYOUT_OUTPUT_SOMPI_def)
  ultimately show ?thesis using plan_batches_pays_each_once[OF demo_amounts_ok] by metis
qed


theorem plan_batches_no_double_spend_witness:
  "\<exists>res. plan_batches (mainnet demo_consensus) demo_coins demo_recipients ''t'' (from_feerate (Fin 1)) = Ok res \<and>
    distinct (map tu_outpoint (concat (map pb_inputs (pr_batches res)))) \<and>
    (\<forall>j < length (pr_batches res). \<forall>u \<in> set (pb_inputs (pr_batches res ! j)).
       sourced demo_coins ''t'' (pr_batches res) j u)"
proof (rule plan_batches_no_double_spend[OF demo_amounts_ok])
  show "distinct (map tu_outpoint demo_coins)" by (simp add: demo_defs)
  show "list_all (\<lambda>u. \<not> is_planning_virtual u) demo_coins"
    by (simp add: demo_defs is_planning_virtual_def PLANNING_VIRTUAL_TXID_BYTES_def)
qed

lemma demo_shape:
  "evaluate_shape (mainnet demo_consensus) ins ps cs c \<noteq> None \<longrightarrow> evaluate_shape (mainnet demo_consensus) ins ps cs 0 \<noteq> None"
  by (auto simp: evaluate_shape_def build_populated_def evaluate_populated_def mainnet_def demo_consensus_def
      fits_independently_def Let_def split: if_splits)

text \<open>Nine million sompi in two coins do not pay a recipient of six.\<close>

theorem plan_batches_one_coin_witness:
  "\<exists>res. plan_batches (mainnet demo_consensus) demo_coins demo_recipients ''t'' (from_feerate (Fin 1)) = Ok res \<and>
    total_in demo_coins = 9000000 \<and> demo_recipient ''d'' 6000000 \<in> set demo_recipients \<and>
    (\<forall>b \<in> set (pr_batches res). length (pb_inputs b) = 1 \<and> demo_recipient ''d'' 6000000 \<notin> set (pb_payouts b))"
proof -
  obtain res where res: "plan_batches (mainnet demo_consensus) demo_coins demo_recipients ''t'' (from_feerate (Fin 1)) = Ok res"
    "\<And>b. b \<in> set (pr_batches res) \<Longrightarrow> length (pb_inputs b) = 1 \<and>
       (\<forall>r \<in> set (pb_payouts b). \<exists>u \<in> set demo_coins. pr_amount_sompi r \<le> tu_amount u)"
    using plan_batches_one_coin[OF demo_amounts_ok, of "mainnet demo_consensus" "''t''" "Fin 1"] demo_shape by blast
  have "\<not> (\<exists>u \<in> set demo_coins. pr_amount_sompi (demo_recipient ''d'' 6000000) \<le> tu_amount u)"
    by (simp add: demo_defs)
  moreover have "total_in demo_coins = 9000000" "demo_recipient ''d'' 6000000 \<in> set demo_recipients"
    by (simp_all add: demo_defs)
  ultimately show ?thesis using res by blast
qed

end
