(* ===== verification/Consolidation.thy ===== *)
theory Consolidation
  imports Planner
begin

text \<open>
  The treasury consolidation planner,
  \<open>src/crates/katpool-storagemass/src/consolidation.rs\<close>: many coins into one
  self-send, smallest first, with the number of inputs found by bisection.
\<close>

section \<open>Definitions\<close>

definition MIN_CONSOLIDATION_INPUTS :: nat where "MIN_CONSOLIDATION_INPUTS = 2"

definition sort_utxos_asc :: "TreasuryUtxo list \<Rightarrow> TreasuryUtxo list" where
  "sort_utxos_asc = sort_key tu_amount"

definition evaluate_self_send ::
  "MassEvaluator \<Rightarrow> TreasuryUtxo list \<Rightarrow> ScriptPublicKey \<Rightarrow> int \<Rightarrow> TxMass option" where
  "evaluate_self_send ev inputs treasury_script change_amount =
     (case build_populated inputs [] treasury_script change_amount of (tx, entries) \<Rightarrow>
      case evaluate_populated ev tx entries of
        Ok t \<Rightarrow> if fits_independently (standard_tx_mass_limit ev) t then Some t else None
      | _ \<Rightarrow> None)"

definition fits_prefix ::
  "MassEvaluator \<Rightarrow> TreasuryUtxo list \<Rightarrow> ScriptPublicKey \<Rightarrow> nat \<Rightarrow> (unit, TxMass option) outcome" where
  "fits_prefix ev utxos treasury_script n =
     (if length utxos < n then Ok None else
      and_then (sum_u64 (map tu_amount (take n utxos))) (\<lambda>input_sum.
      Ok (evaluate_self_send ev (take n utxos) treasury_script input_sum)))"

function bisect ::
  "MassEvaluator \<Rightarrow> TreasuryUtxo list \<Rightarrow> ScriptPublicKey \<Rightarrow> nat \<Rightarrow> nat \<Rightarrow> (unit, nat) outcome" where
  "bisect ev utxos treasury_script lo hi =
     (if lo < hi then
        let mid = lo + (hi - lo + 1) div 2 in
        and_then (fits_prefix ev utxos treasury_script mid) (\<lambda>r.
        if r \<noteq> None then bisect ev utxos treasury_script mid hi
        else bisect ev utxos treasury_script lo (mid - 1))
      else Ok lo)"
  by pat_completeness auto
termination
  by (relation "measure (\<lambda>(ev, utxos, s, lo, hi). hi - lo)") auto

declare bisect.simps [simp del]

definition max_inputs_that_fit ::
  "MassEvaluator \<Rightarrow> TreasuryUtxo list \<Rightarrow> ScriptPublicKey \<Rightarrow> nat \<Rightarrow> (unit, nat) outcome" where
  "max_inputs_that_fit ev utxos treasury_script max_inputs_per_tx =
     (let hi_bound = min max_inputs_per_tx (length utxos) in
      if hi_bound = 0 then Ok 0 else
      and_then (fits_prefix ev utxos treasury_script 1) (\<lambda>r.
      if r = None then Ok 0 else bisect ev utxos treasury_script 1 hi_bound))"

text \<open>\<open>slice::chunks\<close>; a chunk size of zero panics.\<close>

function chunks :: "nat \<Rightarrow> 'a list \<Rightarrow> 'a list list" where
  "chunks n xs = (if xs = [] \<or> n = 0 then [] else take n xs # chunks n (drop n xs))"
  by pat_completeness auto
termination
  by (relation "measure (\<lambda>(n, xs). length xs)") auto

declare chunks.simps [simp del]

fun consolidate_chunks ::
  "MassEvaluator \<Rightarrow> ScriptPublicKey \<Rightarrow> FeeRate \<Rightarrow> nat \<Rightarrow> PlannedBatch list \<Rightarrow> TreasuryUtxo list list \<Rightarrow>
   (unit, PlannedBatch list) outcome" where
  "consolidate_chunks ev treasury_script fee_rate max_txs batches [] = Ok batches"
| "consolidate_chunks ev treasury_script fee_rate max_txs batches (chunk # rest) =
     (if max_txs \<le> length batches then Ok batches
      else if length chunk < MIN_CONSOLIDATION_INPUTS then Ok batches
      else and_then (sum_u64 (map tu_amount chunk)) (\<lambda>input_sum.
        case evaluate_self_send ev chunk treasury_script input_sum of
          None \<Rightarrow> consolidate_chunks ev treasury_script fee_rate max_txs batches rest
        | Some t \<Rightarrow>
            if reserves_fee fee_rate \<and> input_sum \<le> fee_for fee_rate t
            then consolidate_chunks ev treasury_script fee_rate max_txs batches rest
            else consolidate_chunks ev treasury_script fee_rate max_txs
              (batches @ [\<lparr> pb_inputs = chunk, pb_payouts = [], pb_change_amount_sompi = input_sum, pb_mass = t \<rparr>]) rest))"

definition plan_consolidation ::
  "MassEvaluator \<Rightarrow> TreasuryUtxo list \<Rightarrow> ScriptPublicKey \<Rightarrow> FeeRate \<Rightarrow> nat \<Rightarrow> nat \<Rightarrow> (unit, PlannedBatch list) outcome" where
  "plan_consolidation ev utxos treasury_script fee_rate max_inputs_per_tx max_txs =
     (let real = filter (\<lambda>u. \<not> is_planning_virtual u) utxos in
      if max_txs = 0 \<or> max_inputs_per_tx < MIN_CONSOLIDATION_INPUTS \<or> length real < MIN_CONSOLIDATION_INPUTS
      then Ok [] else
      let sorted = sort_utxos_asc real in
      and_then (max_inputs_that_fit ev sorted treasury_script max_inputs_per_tx) (\<lambda>cap.
      if cap < MIN_CONSOLIDATION_INPUTS then Ok []
      else consolidate_chunks ev treasury_script fee_rate max_txs [] (chunks cap sorted)))"

section \<open>The bisection\<close>

definition coins_ok :: "TreasuryUtxo list \<Rightarrow> bool" where
  "coins_ok utxos \<longleftrightarrow> (\<forall>u \<in> set utxos. 0 \<le> tu_amount u) \<and> total_in utxos \<le> u64_max"

definition prefix_fits :: "MassEvaluator \<Rightarrow> TreasuryUtxo list \<Rightarrow> ScriptPublicKey \<Rightarrow> nat \<Rightarrow> bool" where
  "prefix_fits ev utxos s n \<longleftrightarrow> n \<le> length utxos \<and> evaluate_self_send ev (take n utxos) s (total_in (take n utxos)) \<noteq> None"

lemma sum_coins:
  assumes "coins_ok utxos"
  shows "(sum_u64 (map tu_amount utxos) :: (unit, int) outcome) = Ok (total_in utxos)"
  using u64.sum_from_nonneg[of "map tu_amount utxos" 0] assms by (auto simp: coins_ok_def)

lemma coins_ok_take: "coins_ok utxos \<Longrightarrow> coins_ok (take n utxos)"
  using total_in_take[of utxos n] by (auto simp: coins_ok_def dest: in_set_takeD)

lemma fits_prefix_eq:
  assumes "coins_ok utxos"
  shows "\<exists>r. fits_prefix ev utxos s n = Ok r \<and> (r \<noteq> None \<longleftrightarrow> prefix_fits ev utxos s n)"
  using sum_coins[OF coins_ok_take[OF assms, of n]] by (auto simp: fits_prefix_def prefix_fits_def)

lemma bisect_ok:
  assumes "coins_ok utxos" and "lo \<le> hi" and "prefix_fits ev utxos s lo"
    and mono: "\<And>m n. 1 \<le> m \<Longrightarrow> m \<le> n \<Longrightarrow> prefix_fits ev utxos s n \<Longrightarrow> prefix_fits ev utxos s m"
    and "\<And>n. hi < n \<Longrightarrow> n \<le> upper \<Longrightarrow> \<not> prefix_fits ev utxos s n"
  shows "\<exists>k. bisect ev utxos s lo hi = Ok k \<and> lo \<le> k \<and> k \<le> hi \<and> prefix_fits ev utxos s k \<and>
    (\<forall>n. k < n \<longrightarrow> n \<le> upper \<longrightarrow> \<not> prefix_fits ev utxos s n)"
  using assms(2,3,5)
proof (induction "hi - lo" arbitrary: lo hi rule: less_induct)
  case less
  show ?case
  proof (cases "lo < hi")
    case False
    then show ?thesis using less.prems by (subst bisect.simps) auto
  next
    case True
    define mid where "mid = lo + (hi - lo + 1) div 2"
    have mid: "lo < mid" "mid \<le> hi" using True by (auto simp: mid_def)
    then have shrink: "hi - mid < hi - lo" "mid - 1 - lo < hi - lo" by linarith+
    obtain r where r: "fits_prefix ev utxos s mid = Ok r" "r \<noteq> None \<longleftrightarrow> prefix_fits ev utxos s mid"
      using fits_prefix_eq[OF assms(1)] by blast
    show ?thesis
    proof (cases "prefix_fits ev utxos s mid")
      case fit: True
      then have "bisect ev utxos s lo hi = bisect ev utxos s mid hi"
        using r True unfolding mid_def by (subst bisect.simps) (simp add: Let_def)
      then show ?thesis
        using less.hyps[OF shrink(1) mid(2) fit less.prems(3)] mid(1) by auto
    next
      case no: False
      then have "bisect ev utxos s lo hi = bisect ev utxos s lo (mid - 1)"
        using r True unfolding mid_def by (subst bisect.simps) (simp add: Let_def)
      moreover have above: "\<not> prefix_fits ev utxos s n" if "mid - 1 < n" for n
      proof -
        have "1 \<le> mid" "mid \<le> n" using that mid(1) by linarith+
        then show ?thesis using no mono by blast
      qed
      have "lo \<le> mid - 1" "mid - 1 \<le> hi" using mid by auto
      ultimately show ?thesis
        using less.hyps[OF shrink(2) \<open>lo \<le> mid - 1\<close> less.prems(2) above] by (auto intro: order_trans)
    qed
  qed
qed

text \<open>Without monotonicity the answer still fits.\<close>

lemma bisect_sound:
  assumes "coins_ok utxos" and "lo \<le> hi"
  shows "\<exists>k. bisect ev utxos s lo hi = Ok k \<and> lo \<le> k \<and> k \<le> hi"
  using assms(2)
proof (induction "hi - lo" arbitrary: lo hi rule: less_induct)
  case less
  show ?case
  proof (cases "lo < hi")
    case False
    then show ?thesis using less.prems by (subst bisect.simps) auto
  next
    case True
    define mid where "mid = lo + (hi - lo + 1) div 2"
    have mid: "lo < mid" "mid \<le> hi" using True by (auto simp: mid_def)
    then have shrink: "hi - mid < hi - lo" "mid - 1 - lo < hi - lo" by linarith+
    obtain r where r: "fits_prefix ev utxos s mid = Ok r" using fits_prefix_eq[OF assms(1)] by blast
    show ?thesis
    proof (cases "r = None")
      case True
      then have "bisect ev utxos s lo hi = bisect ev utxos s lo (mid - 1)"
        using r \<open>lo < hi\<close> unfolding mid_def by (subst bisect.simps) (simp add: Let_def)
      moreover have "lo \<le> mid - 1" "mid - 1 \<le> hi" using mid by auto
      ultimately show ?thesis using less.hyps[OF shrink(2)] by (auto intro: order_trans)
    next
      case False
      then have "bisect ev utxos s lo hi = bisect ev utxos s mid hi"
        using r \<open>lo < hi\<close> unfolding mid_def by (subst bisect.simps) (simp add: Let_def)
      moreover have "lo \<le> mid" using mid by auto
      ultimately show ?thesis using less.hyps[OF shrink(1) mid(2)] by (auto intro: order_trans)
    qed
  qed
qed

lemma max_inputs_positive:
  assumes "1 \<le> min m (length utxos)"
  shows "max_inputs_that_fit ev utxos s m = and_then (fits_prefix ev utxos s 1) (\<lambda>r.
    if r = None then Ok 0 else bisect ev utxos s 1 (min m (length utxos)))"
  unfolding max_inputs_that_fit_def Let_def using assms by (intro if_not_P) linarith

lemma max_inputs_total:
  assumes "coins_ok utxos"
  shows "\<exists>k. max_inputs_that_fit ev utxos s m = Ok k \<and> k \<le> min m (length utxos)"
proof (cases "min m (length utxos) = 0")
  case False
  obtain r where r: "fits_prefix ev utxos s 1 = Ok r" using fits_prefix_eq[OF assms] by blast
  have le: "1 \<le> min m (length utxos)" using False by linarith
  obtain k where "bisect ev utxos s 1 (min m (length utxos)) = Ok k" "k \<le> min m (length utxos)"
    using bisect_sound[OF assms le, of ev s] by auto
  then show ?thesis unfolding max_inputs_positive[OF le] using r by (cases r) auto
qed (simp add: max_inputs_that_fit_def)

section \<open>Chunks\<close>

lemma concat_chunks: "0 < n \<Longrightarrow> concat (chunks n xs) = xs"
proof (induction n xs rule: chunks.induct)
  case (1 n xs)
  then show ?case by (subst chunks.simps) auto
qed

lemma chunks_length: "c \<in> set (chunks n xs) \<Longrightarrow> length c \<le> n"
proof (induction n xs rule: chunks.induct)
  case (1 n xs)
  then show ?case by (subst (asm) chunks.simps) (auto split: if_splits)
qed

definition self_send_ok :: "MassEvaluator \<Rightarrow> FeeRate \<Rightarrow> nat \<Rightarrow> PlannedBatch \<Rightarrow> bool" where
  "self_send_ok ev fr cap b \<longleftrightarrow>
     2 \<le> length (pb_inputs b) \<and> length (pb_inputs b) \<le> cap \<and> pb_payouts b = [] \<and>
     pb_change_amount_sompi b = total_in (pb_inputs b) \<and>
     fits_independently MAX_STANDARD_TX_MASS (pb_mass b) \<and>
     (reserves_fee fr \<longrightarrow> fee_for fr (pb_mass b) < pb_change_amount_sompi b)"

lemma evaluate_self_send_fits:
  "evaluate_self_send ev inputs s c = Some t \<Longrightarrow> fits_independently MAX_STANDARD_TX_MASS t"
  by (auto simp: evaluate_self_send_def standard_tx_mass_limit_def split: outcome.splits if_splits prod.splits)

lemma consolidate_chunks_ok:
  assumes "coins_ok (concat cs)" and "\<forall>c \<in> set cs. length c \<le> cap" and "length batches \<le> max_txs"
    and "\<forall>b \<in> set batches. self_send_ok ev fr cap b"
  shows "\<exists>res. consolidate_chunks ev s fr max_txs batches cs = Ok (batches @ res) \<and>
    (\<forall>b \<in> set res. self_send_ok ev fr cap b) \<and> length (batches @ res) \<le> max_txs \<and>
    mset (concat (map pb_inputs res)) \<subseteq># mset (concat cs)"
  using assms
proof (induction cs arbitrary: batches)
  case Nil
  then show ?case by auto
next
  case (Cons c cs)
  have ok: "coins_ok c" "coins_ok (concat cs)"
  proof -
    have nonneg: "\<forall>u \<in> set c. 0 \<le> tu_amount u" "\<forall>u \<in> set (concat cs). 0 \<le> tu_amount u"
      using Cons.prems(1) unfolding coins_ok_def concat.simps set_append by blast+
    then have "0 \<le> total_in c" "0 \<le> total_in (concat cs)"
      by (auto intro!: sum_list_nonneg simp del: set_concat)
    then show "coins_ok c" "coins_ok (concat cs)" using Cons.prems(1) nonneg by (simp_all add: coins_ok_def del: set_concat)
  qed
  have skip: ?case if "consolidate_chunks ev s fr max_txs batches (c # cs) = consolidate_chunks ev s fr max_txs batches cs"
  proof -
    have grow: "X \<subseteq># mset (concat (c # cs))" if "X \<subseteq># mset (concat cs)" for X
      using that mset_subset_eq_add_right[of "mset (concat cs)" "mset c"] by (simp add: subset_mset.order_trans)
    have "\<forall>c \<in> set cs. length c \<le> cap" using Cons.prems(2) by simp
    from Cons.IH[OF ok(2) this Cons.prems(3,4)] show ?thesis unfolding that using grow by blast
  qed
  show ?case
  proof (cases "max_txs \<le> length batches \<or> length c < MIN_CONSOLIDATION_INPUTS")
    case True
    then show ?thesis using Cons.prems(3) by (intro exI[of _ "[]"]) auto
  next
    case go: False
    show ?thesis
    proof (cases "evaluate_self_send ev c s (total_in c)")
      case None
      then show ?thesis using go sum_coins[OF ok(1)] by (intro skip) auto
    next
      case (Some t)
      show ?thesis
      proof (cases "reserves_fee fr \<and> total_in c \<le> fee_for fr t")
        case True
        then show ?thesis using go Some sum_coins[OF ok(1)] by (intro skip) auto
      next
        case False
        let ?b = "\<lparr> pb_inputs = c, pb_payouts = [], pb_change_amount_sompi = total_in c, pb_mass = t \<rparr>"
        have b: "self_send_ok ev fr cap ?b"
          using go False Cons.prems(2) evaluate_self_send_fits[OF Some]
          by (auto simp: self_send_ok_def MIN_CONSOLIDATION_INPUTS_def)
        obtain res where res: "consolidate_chunks ev s fr max_txs (batches @ [?b]) cs = Ok ((batches @ [?b]) @ res)"
          "\<forall>b \<in> set res. self_send_ok ev fr cap b" "length ((batches @ [?b]) @ res) \<le> max_txs"
          "mset (concat (map pb_inputs res)) \<subseteq># mset (concat cs)"
          using Cons.IH[OF ok(2), of "batches @ [?b]"] Cons.prems(2,4) go b by auto
        have "consolidate_chunks ev s fr max_txs batches (c # cs) = Ok (batches @ (?b # res))"
          using go Some False sum_coins[OF ok(1)] res(1) by auto
        then show ?thesis using res b by (intro exI[of _ "?b # res"]) auto
      qed
    qed
  qed
qed

section \<open>Properties\<close>

text \<open>C28.  The bisection finds the largest self-send.  When the mass does not
  shrink as inputs are added, the number returned is within the caller's and
  the treasury's limits, and a prefix of the coins fits the standard mass
  limit exactly when it is no longer than that.\<close>

theorem max_inputs_that_fit_maximal:
  assumes "coins_ok utxos"
    and "\<forall>m n. 1 \<le> m \<and> m \<le> n \<and> prefix_fits ev utxos s n \<longrightarrow> prefix_fits ev utxos s m"
  shows "\<exists>k. max_inputs_that_fit ev utxos s max_inputs = Ok k \<and> k \<le> min max_inputs (length utxos) \<and>
    (\<forall>n. 1 \<le> n \<and> n \<le> min max_inputs (length utxos) \<longrightarrow> (prefix_fits ev utxos s n \<longleftrightarrow> n \<le> k))"
proof (cases "min max_inputs (length utxos) = 0")
  case True
  then show ?thesis by (auto simp: max_inputs_that_fit_def)
next
  case False
  let ?hi = "min max_inputs (length utxos)"
  have le: "1 \<le> ?hi" using False by linarith
  have mono: "prefix_fits ev utxos s m" if "1 \<le> m" "m \<le> n" "prefix_fits ev utxos s n" for m n
    using assms(2) that by blast
  obtain r where r: "fits_prefix ev utxos s 1 = Ok r" "r \<noteq> None \<longleftrightarrow> prefix_fits ev utxos s 1"
    using fits_prefix_eq[OF assms(1)] by blast
  show ?thesis
  proof (cases "prefix_fits ev utxos s 1")
    case no: False
    then have "max_inputs_that_fit ev utxos s max_inputs = Ok 0"
      unfolding max_inputs_positive[OF le] using r by auto
    then show ?thesis using no mono[of 1] by auto
  next
    case True
    have "\<exists>k. bisect ev utxos s 1 ?hi = Ok k \<and> 1 \<le> k \<and> k \<le> ?hi \<and> prefix_fits ev utxos s k \<and>
        (\<forall>n. k < n \<longrightarrow> n \<le> ?hi \<longrightarrow> \<not> prefix_fits ev utxos s n)"
      by (rule bisect_ok[OF assms(1) le True]) (erule (2) mono, simp)
    then obtain k where k: "bisect ev utxos s 1 ?hi = Ok k" "k \<le> ?hi" "prefix_fits ev utxos s k"
      "\<forall>n. k < n \<longrightarrow> n \<le> ?hi \<longrightarrow> \<not> prefix_fits ev utxos s n" by blast
    have "max_inputs_that_fit ev utxos s max_inputs = Ok k"
      unfolding max_inputs_positive[OF le] using r True k(1) by auto
    moreover have "prefix_fits ev utxos s n \<longleftrightarrow> n \<le> k" if "1 \<le> n" "n \<le> ?hi" for n
      using that k(3,4) mono[of n k] not_le by blast
    ultimately show ?thesis using k(2) by blast
  qed
qed


definition heavy_consensus :: consensus where
  "heavy_consensus = \<lparr> calc_non_contextual_masses = (\<lambda>tx. (40000 * int (length (tx_inputs tx)), 4000)),
     calc_contextual_masses = (\<lambda>tx entries. Some 0), output_estimated_serialized_size = (\<lambda>_. 52),
     block_compute_limit = 500000 \<rparr>"

lemma heavy_prefix_fits:
  "prefix_fits (mainnet heavy_consensus) utxos s n \<longleftrightarrow> n \<le> length utxos \<and> n \<le> 2"
  by (auto simp: prefix_fits_def evaluate_self_send_def build_populated_def evaluate_populated_def mainnet_def
      heavy_consensus_def fits_independently_def standard_tx_mass_limit_def MAX_STANDARD_TX_MASS_def Let_def)

lemma demo_coins_ok: "coins_ok [demo_coin 0 5, demo_coin 1 3, demo_coin 2 9]"
  by (simp add: coins_ok_def demo_coin_def)

theorem max_inputs_that_fit_maximal_witness:
  "max_inputs_that_fit (mainnet heavy_consensus) [demo_coin 0 5, demo_coin 1 3, demo_coin 2 9] ''t'' 10 = Ok 2"
proof -
  let ?us = "[demo_coin 0 5, demo_coin 1 3, demo_coin 2 9]"
  obtain k where k: "max_inputs_that_fit (mainnet heavy_consensus) ?us ''t'' 10 = Ok k" "k \<le> 3"
    "\<forall>n. 1 \<le> n \<and> n \<le> 3 \<longrightarrow> (prefix_fits (mainnet heavy_consensus) ?us ''t'' n \<longleftrightarrow> n \<le> k)"
    using max_inputs_that_fit_maximal[OF demo_coins_ok, of "mainnet heavy_consensus" "''t''" 10]
    by (auto simp: heavy_prefix_fits)
  from k(3)[THEN spec, of 2] k(3)[THEN spec, of 3] have "2 \<le> k" "\<not> 3 \<le> k" by (simp_all add: heavy_prefix_fits)
  then show ?thesis using k(1) by (simp add: eval_nat_numeral not_less_eq_eq le_antisym)
qed


end
