(* ===== verification/FeeModel.thy ===== *)
theory FeeModel
  imports RustStr
begin

text \<open>
  The pool's fee model, \<open>src/accountant/src/config.rs\<close>: the topline fee read
  from the environment, the rebate ratio of each wallet tier, and the split of
  one wallet's gross share into pool fee, NACHO rebate and net payout.
\<close>

section \<open>Configuration\<close>

abbreviation (input) MAX_TOPLINE_BPS :: int where "MAX_TOPLINE_BPS \<equiv> 1000"
abbreviation (input) STANDARD_REBATE_BPS :: int where "STANDARD_REBATE_BPS \<equiv> 3300"
abbreviation (input) ELITE_REBATE_BPS :: int where "ELITE_REBATE_BPS \<equiv> 10000"
abbreviation (input) DEFAULT_TOPLINE_BPS :: int where "DEFAULT_TOPLINE_BPS \<equiv> 75"

record FeeConfig =
  topline_bps :: int

datatype WalletTier = Standard | Elite

text \<open>The configuration errors of the loader, one constructor per message.\<close>

datatype ConfigError =
    NotUtf8 string
  | NotU16 string string
  | ToplineExceedsMax string int

text \<open>\<open>std::env::VarError\<close>.\<close>

datatype VarError = NotPresent | NotUnicode

definition FeeConfig_new :: "int \<Rightarrow> FeeConfig option" where
  "FeeConfig_new bps = (if bps > MAX_TOPLINE_BPS then None else Some \<lparr> topline_bps = bps \<rparr>)"

definition parse_bps :: "string \<Rightarrow> string \<Rightarrow> (ConfigError, int) outcome" where
  "parse_bps var raw = ok_or (NotU16 var raw) (parse_uint u16_max raw)"

definition from_lookup :: "string \<Rightarrow> (string \<Rightarrow> VarError + string) \<Rightarrow> (ConfigError, FeeConfig) outcome" where
  "from_lookup var lookup =
     and_then
       (case lookup var of
          Inr s \<Rightarrow> parse_bps var s
        | Inl NotPresent \<Rightarrow> Ok DEFAULT_TOPLINE_BPS
        | Inl NotUnicode \<Rightarrow> Err (NotUtf8 var))
       (\<lambda>bps. ok_or (ToplineExceedsMax var bps) (FeeConfig_new bps))"

fun rebate_bps :: "FeeConfig \<Rightarrow> WalletTier \<Rightarrow> int" where
  "rebate_bps cfg Standard = STANDARD_REBATE_BPS"
| "rebate_bps cfg Elite = ELITE_REBATE_BPS"

fun WalletTier_as_str :: "WalletTier \<Rightarrow> string" where
  "WalletTier_as_str Standard = ''standard''"
| "WalletTier_as_str Elite = ''elite''"

section \<open>The allocation of one gross share\<close>

record Allocation =
  gross_sompi :: int
  pool_fee_sompi :: int
  nacho_accrual_sompi :: int
  net_payout_sompi :: int
  applied_topline_bps :: int
  applied_rebate_bps :: int
  applied_tier :: WalletTier

datatype AllocationError =
    NegativeGross int
  | Overflow string
  | Unbalanced Allocation

text \<open>The two plain additions trap.\<close>

definition is_balanced :: "Allocation \<Rightarrow> ('e, bool) outcome" where
  "is_balanced a =
     and_then (trapping i64_min i64_max (pool_fee_sompi a + nacho_accrual_sompi a)) (\<lambda>s.
     and_then (trapping i64_min i64_max (s + net_payout_sompi a)) (\<lambda>t.
     Ok (gross_sompi a = t)))"

definition compute_allocation ::
  "FeeConfig \<Rightarrow> int \<Rightarrow> WalletTier \<Rightarrow> (AllocationError, Allocation) outcome" where
  "compute_allocation cfg gross tier =
     (if gross < 0 then Err (NegativeGross gross) else
      let topline = topline_bps cfg; rebate = rebate_bps cfg tier in
      and_then (ok_or (Overflow ''fee_share'') (checked i64_min i64_max (gross * topline))) (\<lambda>p.
      let fee_share = tdiv p 10000 in
      and_then (ok_or (Overflow ''nacho_accrual'') (checked i64_min i64_max (fee_share * rebate))) (\<lambda>q.
      let nacho_accrual = tdiv q 10000 in
      and_then (trapping i64_min i64_max (fee_share - nacho_accrual)) (\<lambda>pool_fee.
      and_then (trapping i64_min i64_max (gross - fee_share)) (\<lambda>net_payout.
      let allocation = \<lparr> gross_sompi = gross, pool_fee_sompi = pool_fee,
            nacho_accrual_sompi = nacho_accrual, net_payout_sompi = net_payout,
            applied_topline_bps = topline, applied_rebate_bps = rebate,
            applied_tier = tier \<rparr> in
      and_then (is_balanced allocation) (\<lambda>ok.
      if \<not> ok then Err (Unbalanced allocation) else Ok allocation))))))"

text \<open>The configurations \<open>FeeConfig_new\<close> lets through.\<close>

definition FeeConfig_ok :: "FeeConfig \<Rightarrow> bool" where
  "FeeConfig_ok cfg \<longleftrightarrow> 0 \<le> topline_bps cfg \<and> topline_bps cfg \<le> MAX_TOPLINE_BPS"

section \<open>Facts on the split\<close>

lemma rebate_bps_range: "0 \<le> rebate_bps cfg tier" "rebate_bps cfg tier \<le> 10000"
  by (cases tier; simp)+

text \<open>The split of a gross share as plain arithmetic.\<close>

definition fee_share_of :: "FeeConfig \<Rightarrow> int \<Rightarrow> int" where
  "fee_share_of cfg gross = gross * topline_bps cfg div 10000"

definition rebate_of :: "FeeConfig \<Rightarrow> WalletTier \<Rightarrow> int \<Rightarrow> int" where
  "rebate_of cfg tier gross = fee_share_of cfg gross * rebate_bps cfg tier div 10000"

lemma fee_share_of_bounds:
  assumes "FeeConfig_ok cfg" and "0 \<le> gross"
  shows "0 \<le> fee_share_of cfg gross" and "10 * fee_share_of cfg gross \<le> gross"
proof -
  have "gross * topline_bps cfg \<le> gross * 1000"
    using assms by (intro mult_left_mono) (auto simp: FeeConfig_ok_def)
  then show "10 * fee_share_of cfg gross \<le> gross"
    unfolding fee_share_of_def by linarith
  show "0 \<le> fee_share_of cfg gross"
    using assms unfolding fee_share_of_def FeeConfig_ok_def
    by (intro pos_imp_zdiv_nonneg_iff[THEN iffD2]) auto
qed

lemma bps_of_bounds:
  fixes x :: int
  assumes "0 \<le> x" and "0 \<le> r" and "r \<le> 10000"
  shows "0 \<le> x * r div 10000" and "x * r div 10000 \<le> x"
proof -
  have "x * r \<le> x * 10000" using assms by (intro mult_left_mono) auto
  then show "x * r div 10000 \<le> x" by linarith
  show "0 \<le> x * r div 10000" using assms by (simp add: pos_imp_zdiv_nonneg_iff)
qed

lemma rebate_of_bounds:
  assumes "FeeConfig_ok cfg" and "0 \<le> gross"
  shows "0 \<le> rebate_of cfg tier gross" and "rebate_of cfg tier gross \<le> fee_share_of cfg gross"
  using bps_of_bounds[of "fee_share_of cfg gross" "rebate_bps cfg tier"]
    rebate_bps_range[of cfg tier] fee_share_of_bounds[OF assms]
  by (auto simp: rebate_of_def)

text \<open>The second multiplication cannot overflow once the first one did not:
  the division by 10000 in between makes room for the rebate ratio.\<close>

lemma rebate_product_bound:
  assumes "FeeConfig_ok cfg" and "0 \<le> gross" and "gross * topline_bps cfg \<le> i64_max"
  shows "fee_share_of cfg gross * rebate_bps cfg tier \<le> i64_max"
proof -
  have "fee_share_of cfg gross * rebate_bps cfg tier \<le> fee_share_of cfg gross * 10000"
    using rebate_bps_range fee_share_of_bounds[OF assms(1,2)] by (intro mult_left_mono)
  also have "\<dots> \<le> gross * topline_bps cfg" by (simp add: fee_share_of_def)
  also note assms(3)
  finally show ?thesis .
qed

definition split_of :: "FeeConfig \<Rightarrow> int \<Rightarrow> WalletTier \<Rightarrow> Allocation" where
  "split_of cfg gross tier =
     \<lparr> gross_sompi = gross,
       pool_fee_sompi = fee_share_of cfg gross - rebate_of cfg tier gross,
       nacho_accrual_sompi = rebate_of cfg tier gross,
       net_payout_sompi = gross - fee_share_of cfg gross,
       applied_topline_bps = topline_bps cfg,
       applied_rebate_bps = rebate_bps cfg tier,
       applied_tier = tier \<rparr>"

lemma compute_allocation_eq:
  assumes "FeeConfig_ok cfg" and "gross \<le> i64_max"
  shows "compute_allocation cfg gross tier =
    (if gross < 0 then Err (NegativeGross gross)
     else if i64_max < gross * topline_bps cfg then Err (Overflow ''fee_share'')
     else Ok (split_of cfg gross tier))"
proof (cases "gross < 0 \<or> i64_max < gross * topline_bps cfg")
  case True
  then show ?thesis
    by (auto simp: compute_allocation_def checked_def in_range_def Let_def)
next
  case False
  have p: "0 \<le> gross * topline_bps cfg" using assms False by (auto simp: FeeConfig_ok_def)
  note fs = fee_share_of_bounds[OF assms(1), of gross] and rb = rebate_of_bounds[OF assms(1), of gross tier]
  have q: "0 \<le> fee_share_of cfg gross * rebate_bps cfg tier"
    using fs False rebate_bps_range by simp
  have q': "fee_share_of cfg gross * rebate_bps cfg tier \<le> i64_max"
    using rebate_product_bound[OF assms(1)] False by auto
  have t1: "tdiv (gross * topline_bps cfg) 10000 = fee_share_of cfg gross"
    using p by (simp add: tdiv_nonneg fee_share_of_def)
  have t2: "tdiv (fee_share_of cfg gross * rebate_bps cfg tier) 10000 = rebate_of cfg tier gross"
    using q by (simp add: tdiv_nonneg rebate_of_def)
  show ?thesis
    using False p q q' fs rb assms(2)
    by (simp add: compute_allocation_def checked_def trapping_def in_range_def Let_def t1 t2
        is_balanced_def split_of_def)
qed

section \<open>Properties\<close>

text \<open>C15.  For every configuration the loader accepts and every non-negative
  \<open>i64\<close> gross share, \<open>compute_allocation\<close> either reports the overflow of
  \<open>gross * topline_bps\<close> or returns a split whose three parts are non-negative,
  add up to the gross share exactly, charge the floored topline fee (at most a
  tenth of the gross) and leave the pool nothing on the elite tier.  It never
  panics and never reaches the \<open>Unbalanced\<close> or the rebate overflow branch.\<close>

theorem compute_allocation_correct:
  assumes "FeeConfig_ok cfg" and "0 \<le> gross" and "gross \<le> i64_max"
  shows "compute_allocation cfg gross tier = Err (Overflow ''fee_share'') \<and>
           i64_max < gross * topline_bps cfg \<or>
         (\<exists>a. compute_allocation cfg gross tier = Ok a \<and>
            0 \<le> pool_fee_sompi a \<and> 0 \<le> nacho_accrual_sompi a \<and> 9 * gross \<le> 10 * net_payout_sompi a \<and>
            pool_fee_sompi a + nacho_accrual_sompi a + net_payout_sompi a = gross \<and>
            gross_sompi a = gross \<and>
            pool_fee_sompi a + nacho_accrual_sompi a = gross * topline_bps cfg div 10000 \<and>
            (if tier = Elite then pool_fee_sompi a = 0
             else nacho_accrual_sompi a = gross * topline_bps cfg div 10000 * 33 div 100))"
proof (cases "i64_max < gross * topline_bps cfg")
  case True
  then show ?thesis using assms by (simp add: compute_allocation_eq)
next
  case False
  have std: "x * 3300 div 10000 = x * 33 div 100" for x :: int by linarith
  have "compute_allocation cfg gross tier = Ok (split_of cfg gross tier)"
    using assms False by (simp add: compute_allocation_eq)
  moreover have "rebate_of cfg Elite gross = fee_share_of cfg gross" by (simp add: rebate_of_def)
  moreover have "rebate_of cfg Standard gross = gross * topline_bps cfg div 10000 * 33 div 100"
    by (simp add: rebate_of_def std fee_share_of_def)
  ultimately show ?thesis
    using fee_share_of_bounds[OF assms(1,2)] rebate_of_bounds[OF assms(1,2), of tier]
    by (cases tier) (auto simp: split_of_def fee_share_of_def)
qed

theorem compute_allocation_correct_witness:
  "FeeConfig_ok \<lparr> topline_bps = 75 \<rparr> \<and>
   compute_allocation \<lparr> topline_bps = 75 \<rparr> 100000000 Standard =
     Ok \<lparr> gross_sompi = 100000000, pool_fee_sompi = 502500, nacho_accrual_sompi = 247500,
          net_payout_sompi = 99250000, applied_topline_bps = 75, applied_rebate_bps = 3300,
          applied_tier = Standard \<rparr> \<and>
   (\<exists>a. compute_allocation \<lparr> topline_bps = 75 \<rparr> 100000000 Elite = Ok a \<and> pool_fee_sompi a = 0)"
  using compute_allocation_correct[of "\<lparr> topline_bps = 75 \<rparr>" 100000000 Elite]
  by (auto simp: FeeConfig_ok_def compute_allocation_eq split_of_def fee_share_of_def rebate_of_def)

text \<open>C35.  The fee loader accepts exactly the decimal texts of 0 to 1000 (with
  an optional plus sign or leading zeros) and the unset variable, which means
  75; whatever it returns is a configuration \<open>compute_allocation\<close> is correct
  for, and the decimal text of every such number is read back as that number.\<close>

theorem from_lookup_sound_complete:
  "(from_lookup var lookup = Ok cfg) =
     (lookup var = Inl NotPresent \<and> topline_bps cfg = DEFAULT_TOPLINE_BPS \<or>
      (\<exists>s. lookup var = Inr s \<and> parse_uint u16_max s = Some (topline_bps cfg) \<and> FeeConfig_ok cfg)) \<and>
   (0 \<le> n \<and> n \<le> MAX_TOPLINE_BPS \<longrightarrow>
      from_lookup var (\<lambda>_. Inr (show_nat (nat n))) = Ok \<lparr> topline_bps = n \<rparr>)"
proof (intro conjI impI)
  have new: "FeeConfig_new b = Some cfg \<longleftrightarrow> topline_bps cfg = b \<and> b \<le> MAX_TOPLINE_BPS" for b
    by (cases cfg) (auto simp: FeeConfig_new_def)
  show "(from_lookup var lookup = Ok cfg) =
     (lookup var = Inl NotPresent \<and> topline_bps cfg = DEFAULT_TOPLINE_BPS \<or>
      (\<exists>s. lookup var = Inr s \<and> parse_uint u16_max s = Some (topline_bps cfg) \<and> FeeConfig_ok cfg))"
    by (auto simp: from_lookup_def parse_bps_def outcome_simps new FeeConfig_ok_def
         split: sum.splits VarError.splits dest: parse_uint_bounds)
next
  assume "0 \<le> n \<and> n \<le> MAX_TOPLINE_BPS"
  then show "from_lookup var (\<lambda>_. Inr (show_nat (nat n))) = Ok \<lparr> topline_bps = n \<rparr>"
    by (simp add: from_lookup_def parse_bps_def parse_uint_show_nat FeeConfig_new_def)
qed

theorem from_lookup_sound_complete_witness:
  "from_lookup ''KATPOOL_FEE_TOPLINE_BPS'' (\<lambda>_. Inr (show_nat (nat 120))) = Ok \<lparr> topline_bps = 120 \<rparr> \<and>
   from_lookup ''KATPOOL_FEE_TOPLINE_BPS'' (\<lambda>_. Inr ''1001'') =
     Err (ToplineExceedsMax ''KATPOOL_FEE_TOPLINE_BPS'' 1001)"
  using from_lookup_sound_complete[of "''KATPOOL_FEE_TOPLINE_BPS''" "\<lambda>_. Inl NotPresent" _ 120]
  by (simp add: from_lookup_def parse_bps_def is_ascii_digit_def digit_value_def FeeConfig_new_def)

end
