(* ===== verification/Net.thy ===== *)
theory Net
  imports RustStr
begin

text \<open>
  \<open>str::parse::<IpAddr>\<close> of Rust's standard library, as the event consumer
  calls it on the remote address of a session: a dotted IPv4 address, or an
  IPv6 address with at most one \<open>::\<close> and an optional embedded IPv4 tail.  A
  reader takes the input and returns a value with the rest, or nothing.
\<close>

datatype IpAddr = V4 "int list" | V6 "int list"

definition to_digit :: "int \<Rightarrow> char \<Rightarrow> int option" where
  "to_digit radix c =
     (let v = (if is_ascii_digit c then digit_value c
               else if is_ascii_lowercase c then int (of_char c) - 87
               else if is_ascii_uppercase c then int (of_char c) - 55 else radix)
      in if v < radix then Some v else None)"

definition read_number :: "int \<Rightarrow> nat \<Rightarrow> bool \<Rightarrow> int \<Rightarrow> string \<Rightarrow> (int \<times> string) option" where
  "read_number radix max_digits allow_zero_prefix type_max s =
     (let ds = takeWhile (\<lambda>c. to_digit radix c \<noteq> None) s;
          v = foldl (\<lambda>a c. a * radix + the (to_digit radix c)) 0 ds in
      if ds = [] \<or> max_digits < length ds then None
      else if \<not> allow_zero_prefix \<and> hd ds = CHR ''0'' \<and> 1 < length ds then None
      else if type_max < v then None
      else Some (v, drop (length ds) s))"

definition read_given_char :: "char \<Rightarrow> string \<Rightarrow> string option" where
  "read_given_char c s = (case s of x # xs \<Rightarrow> if x = c then Some xs else None | [] \<Rightarrow> None)"

definition read_separator :: "char \<Rightarrow> nat \<Rightarrow> (string \<Rightarrow> ('a \<times> string) option) \<Rightarrow> string \<Rightarrow> ('a \<times> string) option" where
  "read_separator sep i inner s = (if 0 < i then Option.bind (read_given_char sep s) inner else inner s)"

fun read_octets :: "nat \<Rightarrow> nat \<Rightarrow> string \<Rightarrow> (int list \<times> string) option" where
  "read_octets 0 i s = Some ([], s)"
| "read_octets (Suc k) i s =
     Option.bind (read_separator (CHR ''.'') i (read_number 10 3 False 255) s) (\<lambda>(v, s).
     Option.bind (read_octets k (Suc i) s) (\<lambda>(vs, s). Some (v # vs, s)))"

definition read_ipv4_addr :: "string \<Rightarrow> (int list \<times> string) option" where
  "read_ipv4_addr s = read_octets 4 0 s"

text \<open>Groups until the slots are full or no further group is read; the flag
  says whether the last two came from an IPv4 address.\<close>

fun read_groups :: "nat \<Rightarrow> nat \<Rightarrow> string \<Rightarrow> int list \<times> bool \<times> string" where
  "read_groups 0 i s = ([], False, s)"
| "read_groups (Suc k) i s =
     (case (if 0 < k then read_separator (CHR '':'') i read_ipv4_addr s else None) of
        Some (octets, s') \<Rightarrow> ([octets ! 0 * 256 + octets ! 1, octets ! 2 * 256 + octets ! 3], True, s')
      | None \<Rightarrow>
          (case read_separator (CHR '':'') i (read_number 16 4 True 65535) s of
             None \<Rightarrow> ([], False, s)
           | Some (g, s') \<Rightarrow> (case read_groups k (Suc i) s' of (gs, v4, s'') \<Rightarrow> (g # gs, v4, s''))))"

definition read_ipv6_addr :: "string \<Rightarrow> (int list \<times> string) option" where
  "read_ipv6_addr s =
     (case read_groups 8 0 s of (front, front_v4, s) \<Rightarrow>
      if length front = 8 then Some (front, s)
      else if front_v4 then None
      else Option.bind (read_given_char (CHR '':'') s) (\<lambda>s.
           Option.bind (read_given_char (CHR '':'') s) (\<lambda>s.
           case read_groups (7 - length front) 0 s of (back, _, s) \<Rightarrow>
             Some (front @ replicate (8 - length front - length back) 0 @ back, s))))"

definition IpAddr_from_str :: "string \<Rightarrow> IpAddr option" where
  "IpAddr_from_str s =
     (case read_ipv4_addr s of
        Some (octets, rest) \<Rightarrow> if rest = [] then Some (V4 octets) else None
      | None \<Rightarrow>
          (case read_ipv6_addr s of
             Some (groups, rest) \<Rightarrow> if rest = [] then Some (V6 groups) else None
           | None \<Rightarrow> None))"

lemma ip_examples:
  "IpAddr_from_str ''203.0.113.7'' = Some (V4 [203, 0, 113, 7])"
  "IpAddr_from_str ''203.0.113.07'' = None"
  "IpAddr_from_str ''203.0.113.256'' = None"
  "IpAddr_from_str ''::1'' = Some (V6 [0, 0, 0, 0, 0, 0, 0, 1])"
  "IpAddr_from_str ''2001:db8::ffff'' = Some (V6 [8193, 3512, 0, 0, 0, 0, 0, 65535])"
  "IpAddr_from_str ''::ffff:10.0.0.1'' = Some (V6 [0, 0, 0, 0, 0, 65535, 2560, 1])"
  "IpAddr_from_str ''1:2:3:4:5:6:7:8:9'' = None"
  "IpAddr_from_str ''unknown'' = None"
  by code_simp+

end
