(* ===== verification/Schema.thy ===== *)
theory Schema
  imports Domain FeeModel Net
begin

text \<open>
  The Postgres schema of \<open>src/crates/katpool-db/migrations\<close> and the row types
  of \<open>src/crates/katpool-db/src/repo\<close>.  A table is its rows in insertion order
  with the next value of its id sequence; the database is a record of tables.
  The CHECK constraints are predicates on a row, stated with Postgres's own
  order on \<open>float8\<close>, in which NaN equals itself and exceeds every number.
  \<open>now()\<close> and the default timestamps are arguments of the operations.

  Not modelled: connection failures and pool timeouts (a statement here fails
  only on a constraint, a missing row or an overflow), and the gaps that a
  rolled-back insert leaves in an id sequence.
\<close>

section \<open>Errors\<close>

datatype DbError =
    Connection
  | Constraint string
  | NotFound
  | Migration
  | DbConfig
  | AcquireTimeout
  | Other

abbreviation unique_violation :: DbError where "unique_violation \<equiv> Constraint ''23505''"
abbreviation foreign_key_violation :: DbError where "foreign_key_violation \<equiv> Constraint ''23503''"
abbreviation check_violation :: DbError where "check_violation \<equiv> Constraint ''23514''"
abbreviation numeric_out_of_range :: DbError where "numeric_out_of_range \<equiv> Constraint ''22003''"

definition is_transient :: "DbError \<Rightarrow> bool" where
  "is_transient e \<longleftrightarrow> e = Connection \<or> e = AcquireTimeout"

definition is_not_found :: "DbError \<Rightarrow> bool" where
  "is_not_found e \<longleftrightarrow> e = NotFound"

fun sqlstate :: "DbError \<Rightarrow> string option" where
  "sqlstate (Constraint s) = Some s"
| "sqlstate _ = None"

section \<open>Tables\<close>

record 'r tbl =
  rows :: "'r list"
  nextval :: int

definition empty_tbl :: "'r tbl" where
  "empty_tbl = \<lparr> rows = [], nextval = 1 \<rparr>"

text \<open>An INSERT takes the next id of the sequence and appends the row.\<close>

definition insert_row :: "(int \<Rightarrow> 'r) \<Rightarrow> 'r tbl \<Rightarrow> 'r tbl" where
  "insert_row mk t = \<lparr> rows = rows t @ [mk (nextval t)], nextval = nextval t + 1 \<rparr>"

text \<open>An \<open>INSERT \<dots> ON CONFLICT\<close> that finds a conflict has still drawn an id.\<close>

definition skip_id :: "'r tbl \<Rightarrow> 'r tbl" where
  "skip_id t = t\<lparr> nextval := nextval t + 1 \<rparr>"

definition update_where :: "('r \<Rightarrow> bool) \<Rightarrow> ('r \<Rightarrow> 'r) \<Rightarrow> 'r tbl \<Rightarrow> 'r tbl" where
  "update_where P f t = t\<lparr> rows := map (\<lambda>r. if P r then f r else r) (rows t) \<rparr>"

definition find_where :: "('r \<Rightarrow> bool) \<Rightarrow> 'r tbl \<Rightarrow> 'r option" where
  "find_where P t = find P (rows t)"

definition select_where :: "('r \<Rightarrow> bool) \<Rightarrow> 'r tbl \<Rightarrow> 'r list" where
  "select_where P t = filter P (rows t)"

definition exists_where :: "('r \<Rightarrow> bool) \<Rightarrow> 'r tbl \<Rightarrow> bool" where
  "exists_where P t = list_ex P (rows t)"

text \<open>Primary keys are drawn from the sequence, so they are distinct and
  below its next value.\<close>

definition keyed :: "('r \<Rightarrow> int) \<Rightarrow> 'r tbl \<Rightarrow> bool" where
  "keyed key t \<longleftrightarrow> distinct (map key (rows t)) \<and> list_all (\<lambda>r. key r < nextval t) (rows t)"

section \<open>Postgres float8\<close>

definition pg_le :: "f64 \<Rightarrow> f64 \<Rightarrow> bool" where
  "pg_le a b \<longleftrightarrow> b = NaN \<or> f64_le a b"

definition pg_lt :: "f64 \<Rightarrow> f64 \<Rightarrow> bool" where
  "pg_lt a b \<longleftrightarrow> a \<noteq> NaN \<and> (b = NaN \<or> f64_lt a b)"

fun f64_is_inf :: "f64 \<Rightarrow> bool" where
  "f64_is_inf (Inf s) = True"
| "f64_is_inf _ = False"

definition pg_add :: "f64 \<Rightarrow> f64 \<Rightarrow> (DbError, f64) outcome" where
  "pg_add a b =
     (let r = f64_add a b in
      if f64_is_inf r \<and> \<not> f64_is_inf a \<and> \<not> f64_is_inf b then Err numeric_out_of_range else Ok r)"

text \<open>\<open>sum(float8)\<close> over the rows in table order; the sum of no rows is NULL.\<close>

fun pg_sum :: "f64 list \<Rightarrow> (DbError, f64 option) outcome" where
  "pg_sum [] = Ok None"
| "pg_sum (x # xs) = and_then (try_fold pg_add x xs) (\<lambda>s. Ok (Some s))"

section \<open>Rows\<close>

record Wallet =
  wal_id :: int
  wal_address :: string
  wal_network :: string
  wal_first_seen_at :: timestamp
  wal_last_seen_at :: timestamp

record Worker =
  wkr_id :: int
  wkr_wallet_id :: int
  wkr_name :: string
  wkr_first_seen_at :: timestamp
  wkr_last_seen_at :: timestamp

record ConnectionSession =
  ses_id :: int
  ses_worker_id :: "int option"
  ses_remote_ip :: IpAddr
  ses_remote_app :: "string option"
  ses_country :: "string option"
  ses_connected_at :: timestamp
  ses_disconnected_at :: "timestamp option"
  ses_shares_credited :: int
  ses_shares_rejected :: int
  ses_malformed_frames :: int

record Share =
  sh_id :: int
  sh_wallet_id :: int
  sh_worker_id :: int
  sh_session_id :: "int option"
  sh_difficulty :: f64
  sh_daa_score :: int
  sh_credited_at :: timestamp
  sh_correlation_id :: correlation_id

record ShareReject =
  rej_id :: int
  rej_wallet_id :: int
  rej_worker_id :: int
  rej_reason :: ShareRejectReason
  rej_rejected_at :: timestamp
  rej_correlation_id :: correlation_id

record ShareWindow =
  sw_id :: int
  sw_wallet_id :: int
  sw_daa_start :: int
  sw_daa_end :: int
  sw_started_at :: timestamp
  sw_ended_at :: timestamp
  sw_total_weight :: f64
  sw_share_count :: int

datatype BlockStatus = Found | SubmittedToNode | ConfirmedBlue | Matured | Orphaned

record Block =
  blk_id :: int
  blk_hash :: hash_bytes
  blk_finder_wallet_id :: int
  blk_finder_worker_id :: int
  blk_daa_score :: int
  blk_blue_score :: "int option"
  blk_nonce :: int
  blk_status :: BlockStatus
  blk_found_at :: timestamp
  blk_submitted_at :: "timestamp option"
  blk_confirmed_at :: "timestamp option"
  blk_matured_at :: "timestamp option"
  blk_miner_reward_sompi :: "int option"
  blk_correlation_id :: correlation_id

record CoinbaseReward =
  cr_id :: int
  cr_outpoint_transaction_id :: hash_bytes
  cr_outpoint_index :: int
  cr_amount_sompi :: int
  cr_block_daa_score :: int
  cr_discovered_at :: timestamp
  cr_allocated_at :: "timestamp option"

record NewAllocation =
  na_wallet_id :: int
  na_weight :: f64
  na_window_total :: f64
  na_gross_share_sompi :: int
  na_pool_fee_sompi :: int
  na_nacho_accrual_sompi :: int
  na_net_payout_sompi :: int
  na_applied_topline_bps :: int
  na_applied_rebate_bps :: int
  na_applied_tier :: WalletTier

record ShareAllocation =
  sa_id :: int
  sa_coinbase_reward_id :: int
  sa_new :: NewAllocation
  sa_computed_at :: timestamp

record NachoRebate =
  nr_wallet_id :: int
  nr_accrued_sompi :: int
  nr_paid_sompi :: int
  nr_updated_at :: timestamp

datatype PayoutKind = Kas | Krc20Nacho

datatype CycleStatus = CyclePlanned | Broadcasting | PartiallySettled | Settled | CycleFailed

datatype PayoutStatus = Planned | Submitted | Accepted | Confirmed | PayoutFailed

datatype Krc20TransferStatus = Pending | CommitSubmitted | RevealSubmitted | Completed | TransferFailed

record PayoutCycle =
  cy_id :: int
  cy_kind :: PayoutKind
  cy_status :: CycleStatus
  cy_daa_start :: int
  cy_daa_end :: int
  cy_planned_at :: timestamp
  cy_broadcast_at :: "timestamp option"
  cy_settled_at :: "timestamp option"
  cy_total_sompi :: int
  cy_total_recipients :: int
  cy_idempotency_key :: string

record Payout =
  po_id :: int
  po_cycle_id :: int
  po_wallet_id :: int
  po_amount_sompi :: int
  po_status :: PayoutStatus
  po_tx_hash :: "hash_bytes option"
  po_krc20_commit_hash :: "hash_bytes option"
  po_krc20_reveal_hash :: "hash_bytes option"
  po_planned_at :: timestamp
  po_submitted_at :: "timestamp option"
  po_confirmed_at :: "timestamp option"
  po_failure_reason :: "string option"
  po_accepted_daa_score :: "int option"

record Krc20PendingTransfer =
  kp_id :: int
  kp_payout_id :: int
  kp_sompi_to_miner :: int
  kp_nacho_amount :: int
  kp_p2sh_address :: string
  kp_status :: Krc20TransferStatus
  kp_commit_fee_sompi :: "int option"
  kp_reveal_fee_sompi :: "int option"
  kp_created_at :: timestamp
  kp_updated_at :: timestamp

text \<open>The JSON payload of an audit row, as the list of its fields.\<close>

datatype json_value = JInt int | JStr string

record AuditLogEntry =
  au_id :: int
  au_occurred_at :: timestamp
  au_actor :: string
  au_action :: string
  au_subject_type :: "string option"
  au_subject_id :: "int option"
  au_correlation_id :: "correlation_id option"
  au_payload :: "(string \<times> json_value) list"

record TreasurySnapshot =
  ts_id :: int
  ts_captured_at :: timestamp
  ts_kas_balance_sompi :: int
  ts_nacho_balance :: int
  ts_daa_score :: int
  ts_blue_score :: int
  ts_notes :: "string option"
  ts_utxo_count :: "int option"

record db =
  wallet_t :: "Wallet tbl"
  worker_t :: "Worker tbl"
  session_t :: "ConnectionSession tbl"
  share_t :: "Share tbl"
  reject_t :: "ShareReject tbl"
  window_t :: "ShareWindow tbl"
  block_t :: "Block tbl"
  reward_t :: "CoinbaseReward tbl"
  allocation_t :: "ShareAllocation tbl"
  rebate_t :: "NachoRebate tbl"
  cycle_t :: "PayoutCycle tbl"
  payout_t :: "Payout tbl"
  krc20_t :: "Krc20PendingTransfer tbl"
  audit_t :: "AuditLogEntry tbl"
  snapshot_t :: "TreasurySnapshot tbl"

definition empty_db :: db where
  "empty_db =
     \<lparr> wallet_t = empty_tbl, worker_t = empty_tbl, session_t = empty_tbl, share_t = empty_tbl,
       reject_t = empty_tbl, window_t = empty_tbl, block_t = empty_tbl, reward_t = empty_tbl,
       allocation_t = empty_tbl, rebate_t = empty_tbl, cycle_t = empty_tbl, payout_t = empty_tbl,
       krc20_t = empty_tbl, audit_t = empty_tbl, snapshot_t = empty_tbl \<rparr>"

text \<open>A statement or a transaction maps a database to a result and the
  database it leaves; an error leaves no database, since the transaction is
  rolled back.\<close>

type_synonym 'a db_result = "(DbError, 'a \<times> db) outcome"

section \<open>Constraints\<close>

definition body_of_length :: "nat \<Rightarrow> nat \<Rightarrow> string \<Rightarrow> string \<Rightarrow> bool" where
  "body_of_length lo hi prefix address =
     (case strip_prefix prefix address of
        None \<Rightarrow> False
      | Some body \<Rightarrow> lo \<le> length body \<and> length body \<le> hi \<and> list_all is_bech32_char body)"

definition wallet_check :: "string \<Rightarrow> string \<Rightarrow> bool" where
  "wallet_check network address \<longleftrightarrow>
     (network = ''mainnet'' \<and> body_of_length 50 80 ''kaspa:'' address) \<or>
     (network = ''testnet-10'' \<and> body_of_length 50 80 ''kaspatest:'' address) \<or>
     (network = ''testnet-11'' \<and> body_of_length 50 80 ''kaspatest:'' address) \<or>
     (network = ''devnet'' \<and> body_of_length 50 80 ''kaspadev:'' address) \<or>
     (network = ''simnet'' \<and> body_of_length 50 80 ''kaspasim:'' address)"

text \<open>The bracket expression of \<open>worker_name_charset\<close>, character by
  character.\<close>

definition worker_charset :: "char \<Rightarrow> bool" where
  "worker_charset c \<longleftrightarrow>
     is_ascii_uppercase c \<or> is_ascii_lowercase c \<or> is_ascii_digit c \<or>
     c = CHR ''_'' \<or> c = CHR ''-'' \<or> c = CHR ''.'' \<or> c = CHR ''#'' \<or> c = CHR ''@'' \<or>
     c = CHR '':'' \<or> c = CHR ''+'' \<or> c = CHR ''/'' \<or> c = CHR 0x5C"

definition worker_check :: "string \<Rightarrow> bool" where
  "worker_check name \<longleftrightarrow>
     1 \<le> length name \<and> length name \<le> 64 \<and> name \<noteq> [] \<and> list_all worker_charset name"

definition share_check :: "f64 \<Rightarrow> int \<Rightarrow> bool" where
  "share_check difficulty daa_score \<longleftrightarrow> pg_lt (Fin 0) difficulty \<and> 0 \<le> daa_score"

definition snapshot_check :: "TreasurySnapshot \<Rightarrow> bool" where
  "snapshot_check r \<longleftrightarrow> 0 \<le> ts_kas_balance_sompi r \<and> 0 \<le> ts_nacho_balance r \<and> 0 \<le> ts_daa_score r \<and>
     0 \<le> ts_blue_score r \<and> pred_option ((\<le>) 0) (ts_utxo_count r)"

definition window_check :: "ShareWindow \<Rightarrow> bool" where
  "window_check w \<longleftrightarrow>
     pg_le (Fin 0) (sw_total_weight w) \<and> 0 \<le> sw_share_count w \<and> sw_daa_start w < sw_daa_end w"

fun opt_ge :: "timestamp option \<Rightarrow> timestamp option \<Rightarrow> bool" where
  "opt_ge None _ = True"
| "opt_ge (Some a) None = False"
| "opt_ge (Some a) (Some b) = (b \<le> a)"

definition block_check :: "Block \<Rightarrow> bool" where
  "block_check b \<longleftrightarrow>
     length (blk_hash b) = 32 \<and> 0 \<le> blk_daa_score b \<and>
     pred_option (\<lambda>x. 0 \<le> x) (blk_blue_score b) \<and>
     pred_option (\<lambda>x. 0 \<le> x) (blk_miner_reward_sompi b) \<and>
     opt_ge (blk_submitted_at b) (Some (blk_found_at b)) \<and>
     opt_ge (blk_confirmed_at b) (blk_submitted_at b) \<and>
     opt_ge (blk_matured_at b) (blk_confirmed_at b)"

definition reward_check :: "CoinbaseReward \<Rightarrow> bool" where
  "reward_check r \<longleftrightarrow>
     length (cr_outpoint_transaction_id r) = 32 \<and> 0 \<le> cr_outpoint_index r \<and>
     0 \<le> cr_amount_sompi r \<and> 0 \<le> cr_block_daa_score r"

definition allocation_check :: "NewAllocation \<Rightarrow> bool" where
  "allocation_check a \<longleftrightarrow>
     pg_le (Fin 0) (na_weight a) \<and> pg_lt (Fin 0) (na_window_total a) \<and>
     0 \<le> na_gross_share_sompi a \<and> 0 \<le> na_pool_fee_sompi a \<and>
     0 \<le> na_nacho_accrual_sompi a \<and> 0 \<le> na_net_payout_sompi a \<and>
     na_gross_share_sompi a =
       na_pool_fee_sompi a + na_nacho_accrual_sompi a + na_net_payout_sompi a \<and>
     pg_le (na_weight a) (na_window_total a) \<and>
     0 \<le> na_applied_topline_bps a \<and> na_applied_topline_bps a \<le> 1000 \<and>
     0 \<le> na_applied_rebate_bps a \<and> na_applied_rebate_bps a \<le> 10000"

definition rebate_check :: "NachoRebate \<Rightarrow> bool" where
  "rebate_check r \<longleftrightarrow>
     0 \<le> nr_accrued_sompi r \<and> 0 \<le> nr_paid_sompi r \<and> nr_paid_sompi r \<le> nr_accrued_sompi r"

definition cycle_check :: "PayoutCycle \<Rightarrow> bool" where
  "cycle_check c \<longleftrightarrow>
     0 \<le> cy_daa_start c \<and> cy_daa_start c < cy_daa_end c \<and>
     0 \<le> cy_total_sompi c \<and> 0 \<le> cy_total_recipients c \<and>
     opt_ge (cy_broadcast_at c) (Some (cy_planned_at c)) \<and>
     opt_ge (cy_settled_at c) (cy_broadcast_at c)"

definition payout_check :: "Payout \<Rightarrow> bool" where
  "payout_check p \<longleftrightarrow>
     0 < po_amount_sompi p \<and>
     pred_option (\<lambda>h. length h = 32) (po_tx_hash p) \<and>
     pred_option (\<lambda>h. length h = 32) (po_krc20_commit_hash p) \<and>
     pred_option (\<lambda>h. length h = 32) (po_krc20_reveal_hash p) \<and>
     opt_ge (po_submitted_at p) (Some (po_planned_at p)) \<and>
     opt_ge (po_confirmed_at p) (po_submitted_at p) \<and>
     pred_option (\<lambda>x. 0 \<le> x) (po_accepted_daa_score p)"

definition krc20_check :: "Krc20PendingTransfer \<Rightarrow> bool" where
  "krc20_check k \<longleftrightarrow>
     0 < kp_sompi_to_miner k \<and> 0 < kp_nacho_amount k \<and>
     pred_option (\<lambda>x. 0 \<le> x) (kp_commit_fee_sompi k) \<and>
     pred_option (\<lambda>x. 0 \<le> x) (kp_reveal_fee_sompi k)"

text \<open>An UPDATE fails as a whole when one of the rows it writes violates a
  CHECK.\<close>

definition checked_update ::
  "('r \<Rightarrow> bool) \<Rightarrow> ('r \<Rightarrow> bool) \<Rightarrow> ('r \<Rightarrow> 'r) \<Rightarrow> 'r tbl \<Rightarrow> (DbError, 'r tbl) outcome" where
  "checked_update chk P f t =
     (if list_all (\<lambda>r. chk (f r)) (select_where P t) then Ok (update_where P f t)
      else Err check_violation)"

section \<open>Facts on tables\<close>

named_theorems tbl_simps

lemma keyed_empty [simp]: "keyed key empty_tbl"
  by (simp add: keyed_def empty_tbl_def)

lemma keyed_insert_row: "keyed key t \<Longrightarrow> key (mk (nextval t)) = nextval t \<Longrightarrow> keyed key (insert_row mk t)"
  by (force simp: keyed_def insert_row_def list_all_iff)

lemma keyed_skip_id: "keyed key t \<Longrightarrow> keyed key (skip_id t)"
  by (force simp: keyed_def skip_id_def list_all_iff)

lemma keyed_update_where: "keyed key t \<Longrightarrow> (\<And>r. key (f r) = key r) \<Longrightarrow> keyed key (update_where P f t)"
proof -
  assume k: "keyed key t" and f: "\<And>r. key (f r) = key r"
  have "key \<circ> (\<lambda>r. if P r then f r else r) = key" using f by (auto simp: fun_eq_iff)
  then show ?thesis using k f by (auto simp: keyed_def update_where_def list_all_iff)
qed

lemma rows_insert_row [tbl_simps]: "rows (insert_row mk t) = rows t @ [mk (nextval t)]"
  by (simp add: insert_row_def)

lemma rows_skip_id [tbl_simps]: "rows (skip_id t) = rows t"
  by (simp add: skip_id_def)

lemma rows_update_where [tbl_simps]: "rows (update_where P f t) = map (\<lambda>r. if P r then f r else r) (rows t)"
  by (simp add: update_where_def)

lemma find_where_Some: "find_where P t = Some r \<Longrightarrow> r \<in> set (rows t) \<and> P r"
  by (auto simp: find_where_def find_Some_iff)

lemma find_where_None: "find_where P t = None \<longleftrightarrow> (\<forall>r \<in> set (rows t). \<not> P r)"
  by (auto simp: find_where_def find_None_iff)

text \<open>With distinct keys a lookup by key finds the row.\<close>

lemma find_where_key:
  assumes "keyed key t" and "r \<in> set (rows t)"
  shows "find_where (\<lambda>x. key x = key r) t = Some r"
proof -
  obtain r' where r': "find_where (\<lambda>x. key x = key r) t = Some r'"
    using assms(2) find_where_None[of "\<lambda>x. key x = key r" t] by fastforce
  then have "r' \<in> set (rows t)" "key r' = key r" by (auto dest: find_where_Some)
  with assms have "r' = r" by (auto simp: keyed_def distinct_map inj_on_def)
  with r' show ?thesis by simp
qed

lemma checked_update_Ok_iff:
  "checked_update chk P f t = Ok t' \<longleftrightarrow>
     (\<forall>r \<in> set (rows t). P r \<longrightarrow> chk (f r)) \<and> t' = update_where P f t"
  by (auto simp: checked_update_def list_all_iff select_where_def)

end
