(* ===== verification/RepoAccounting.thy ===== *)
theory RepoAccounting
  imports Schema
begin

text \<open>
  The repository functions the accountant calls,
  \<open>src/crates/katpool-db/src/repo\<close>: wallets, workers, sessions, shares,
  rejections, share windows, blocks, coinbase rewards, allocations, NACHO
  rebates and the audit log.  Each function is its SQL statement on the tables
  of \<open>Schema\<close>; CHECK constraints are tested before the conflict target and
  foreign keys after it, as Postgres does.
\<close>

section \<open>Wallets and workers\<close>

definition wallet_ensure :: "timestamp \<Rightarrow> string \<Rightarrow> string \<Rightarrow> db \<Rightarrow> Wallet db_result" where
  "wallet_ensure now address network d =
     (if \<not> wallet_check network address then Err check_violation else
      case find_where (\<lambda>w. wal_address w = address) (wallet_t d) of
        Some w \<Rightarrow>
          Ok (w\<lparr> wal_last_seen_at := now \<rparr>,
              d\<lparr> wallet_t := skip_id (update_where (\<lambda>w. wal_address w = address)
                              (\<lambda>w. w\<lparr> wal_last_seen_at := now \<rparr>) (wallet_t d)) \<rparr>)
      | None \<Rightarrow>
          let mk = (\<lambda>i. \<lparr> wal_id = i, wal_address = address, wal_network = network,
                          wal_first_seen_at = now, wal_last_seen_at = now \<rparr>) in
          Ok (mk (nextval (wallet_t d)), d\<lparr> wallet_t := insert_row mk (wallet_t d) \<rparr>))"

definition wallet_get_by_id :: "int \<Rightarrow> db \<Rightarrow> (DbError, Wallet) outcome" where
  "wallet_get_by_id i d = ok_or NotFound (find_where (\<lambda>w. wal_id w = i) (wallet_t d))"

definition wallet_find_by_address :: "string \<Rightarrow> db \<Rightarrow> Wallet option" where
  "wallet_find_by_address address d = find_where (\<lambda>w. wal_address w = address) (wallet_t d)"

definition worker_ensure :: "timestamp \<Rightarrow> int \<Rightarrow> string \<Rightarrow> db \<Rightarrow> Worker db_result" where
  "worker_ensure now wallet_id name d =
     (if \<not> worker_check name then Err check_violation else
      case find_where (\<lambda>w. wkr_wallet_id w = wallet_id \<and> wkr_name w = name) (worker_t d) of
        Some w \<Rightarrow>
          Ok (w\<lparr> wkr_last_seen_at := now \<rparr>,
              d\<lparr> worker_t := skip_id (update_where (\<lambda>w. wkr_wallet_id w = wallet_id \<and> wkr_name w = name)
                              (\<lambda>w. w\<lparr> wkr_last_seen_at := now \<rparr>) (worker_t d)) \<rparr>)
      | None \<Rightarrow>
          if \<not> exists_where (\<lambda>w. wal_id w = wallet_id) (wallet_t d) then Err foreign_key_violation else
          let mk = (\<lambda>i. \<lparr> wkr_id = i, wkr_wallet_id = wallet_id, wkr_name = name,
                          wkr_first_seen_at = now, wkr_last_seen_at = now \<rparr>) in
          Ok (mk (nextval (worker_t d)), d\<lparr> worker_t := insert_row mk (worker_t d) \<rparr>))"

definition worker_get_by_id :: "int \<Rightarrow> db \<Rightarrow> (DbError, Worker) outcome" where
  "worker_get_by_id i d = ok_or NotFound (find_where (\<lambda>w. wkr_id w = i) (worker_t d))"

definition worker_list_for_wallet :: "int \<Rightarrow> db \<Rightarrow> Worker list" where
  "worker_list_for_wallet wallet_id d =
     sort_key (\<lambda>w. - wkr_last_seen_at w) (select_where (\<lambda>w. wkr_wallet_id w = wallet_id) (worker_t d))"

section \<open>Shares and rejections\<close>

definition insert_credited ::
  "timestamp \<Rightarrow> int \<Rightarrow> int \<Rightarrow> int option \<Rightarrow> f64 \<Rightarrow> int \<Rightarrow> correlation_id \<Rightarrow> db \<Rightarrow> int db_result" where
  "insert_credited now wallet_id worker_id session_id difficulty daa_score cid d =
     (if \<not> share_check difficulty (u64_as_i64 daa_score) then Err check_violation
      else if \<not> exists_where (\<lambda>w. wal_id w = wallet_id) (wallet_t d) \<or>
              \<not> exists_where (\<lambda>w. wkr_id w = worker_id) (worker_t d) \<or>
              \<not> pred_option (\<lambda>s. exists_where (\<lambda>x. ses_id x = s) (session_t d)) session_id
      then Err foreign_key_violation
      else let mk = (\<lambda>i. \<lparr> sh_id = i, sh_wallet_id = wallet_id, sh_worker_id = worker_id,
                    sh_session_id = session_id, sh_difficulty = difficulty,
                    sh_daa_score = u64_as_i64 daa_score, sh_credited_at = now,
                    sh_correlation_id = cid \<rparr>) in
           Ok (nextval (share_t d), d\<lparr> share_t := insert_row mk (share_t d) \<rparr>))"

definition in_window :: "int \<Rightarrow> int \<Rightarrow> Share \<Rightarrow> bool" where
  "in_window daa_start daa_end s \<longleftrightarrow> daa_start \<le> sh_daa_score s \<and> sh_daa_score s < daa_end"

definition sum_weight_for_window :: "int \<Rightarrow> int \<Rightarrow> int \<Rightarrow> db \<Rightarrow> (DbError, f64) outcome" where
  "sum_weight_for_window wallet_id daa_start daa_end d =
     and_then (pg_sum (map sh_difficulty (select_where (\<lambda>s. sh_wallet_id s = wallet_id \<and>
                 in_window (u64_as_i64 daa_start) (u64_as_i64 daa_end) s) (share_t d))))
       (\<lambda>w. Ok (case w of None \<Rightarrow> Fin 0 | Some v \<Rightarrow> v))"

definition count_for_window :: "int \<Rightarrow> int \<Rightarrow> int \<Rightarrow> db \<Rightarrow> int" where
  "count_for_window wallet_id daa_start daa_end d =
     int (length (select_where (\<lambda>s. sh_wallet_id s = wallet_id \<and>
            in_window (u64_as_i64 daa_start) (u64_as_i64 daa_end) s) (share_t d)))"

definition share_reject_insert ::
  "timestamp \<Rightarrow> int \<Rightarrow> int \<Rightarrow> ShareRejectReason \<Rightarrow> correlation_id \<Rightarrow> db \<Rightarrow> int db_result" where
  "share_reject_insert now wallet_id worker_id reason cid d =
     (if \<not> exists_where (\<lambda>w. wal_id w = wallet_id) (wallet_t d) \<or>
         \<not> exists_where (\<lambda>w. wkr_id w = worker_id) (worker_t d)
      then Err foreign_key_violation
      else let mk = (\<lambda>i. \<lparr> rej_id = i, rej_wallet_id = wallet_id, rej_worker_id = worker_id,
                    rej_reason = reason, rej_rejected_at = now, rej_correlation_id = cid \<rparr>) in
           Ok (nextval (reject_t d), d\<lparr> reject_t := insert_row mk (reject_t d) \<rparr>))"

section \<open>Sessions\<close>

definition session_insert ::
  "int option \<Rightarrow> IpAddr \<Rightarrow> string option \<Rightarrow> string option \<Rightarrow> timestamp \<Rightarrow> timestamp option \<Rightarrow> db \<Rightarrow> int db_result" where
  "session_insert worker_id remote_ip remote_app country connected_at disconnected_at d =
     (if \<not> pred_option (\<lambda>w. exists_where (\<lambda>x. wkr_id x = w) (worker_t d)) worker_id
      then Err foreign_key_violation
      else let mk = (\<lambda>i. \<lparr> ses_id = i, ses_worker_id = worker_id, ses_remote_ip = remote_ip,
                    ses_remote_app = remote_app, ses_country = country,
                    ses_connected_at = connected_at, ses_disconnected_at = disconnected_at,
                    ses_shares_credited = 0, ses_shares_rejected = 0, ses_malformed_frames = 0 \<rparr>) in
           Ok (nextval (session_t d), d\<lparr> session_t := insert_row mk (session_t d) \<rparr>))"

definition session_open ::
  "int option \<Rightarrow> IpAddr \<Rightarrow> string option \<Rightarrow> string option \<Rightarrow> timestamp \<Rightarrow> db \<Rightarrow> int db_result" where
  "session_open worker_id remote_ip remote_app country connected_at d =
     session_insert worker_id remote_ip remote_app country connected_at None d"

definition session_record_closed ::
  "int option \<Rightarrow> IpAddr \<Rightarrow> string option \<Rightarrow> string option \<Rightarrow> timestamp \<Rightarrow> timestamp \<Rightarrow> db \<Rightarrow> int db_result" where
  "session_record_closed worker_id remote_ip remote_app country connected_at disconnected_at d =
     session_insert worker_id remote_ip remote_app country connected_at (Some disconnected_at) d"

definition coalesce :: "'a option \<Rightarrow> 'a \<Rightarrow> 'a option" where
  "coalesce v w = Some (case v of Some x \<Rightarrow> x | None \<Rightarrow> w)"

definition session_close :: "timestamp \<Rightarrow> int \<Rightarrow> db \<Rightarrow> unit db_result" where
  "session_close now sid d =
     Ok ((), d\<lparr> session_t := update_where (\<lambda>s. ses_id s = sid)
               (\<lambda>s. s\<lparr> ses_disconnected_at := coalesce (ses_disconnected_at s) now \<rparr>) (session_t d) \<rparr>)"

definition session_close_all_open :: "timestamp \<Rightarrow> db \<Rightarrow> int db_result" where
  "session_close_all_open now d =
     Ok (int (length (select_where (\<lambda>s. ses_disconnected_at s = None) (session_t d))),
         d\<lparr> session_t := update_where (\<lambda>s. ses_disconnected_at s = None)
              (\<lambda>s. s\<lparr> ses_disconnected_at := Some now \<rparr>) (session_t d) \<rparr>)"

definition session_active_summary :: "db \<Rightarrow> int \<times> int" where
  "session_active_summary d =
     (let open_rows = select_where (\<lambda>s. ses_disconnected_at s = None) (session_t d) in
      (int (length open_rows), int (length (remdups (List.map_filter ses_worker_id open_rows)))))"

definition increment_counters :: "int \<Rightarrow> int \<Rightarrow> int \<Rightarrow> int \<Rightarrow> db \<Rightarrow> unit db_result" where
  "increment_counters sid credited rejected malformed d =
     Ok ((), d\<lparr> session_t := update_where (\<lambda>s. ses_id s = sid)
       (\<lambda>s. s\<lparr> ses_shares_credited := ses_shares_credited s + credited,
                ses_shares_rejected := ses_shares_rejected s + rejected,
                ses_malformed_frames := ses_malformed_frames s + malformed \<rparr>) (session_t d) \<rparr>)"

section \<open>Share windows\<close>

text \<open>\<open>ORDER BY total_weight DESC\<close> in Postgres's order on \<open>float8\<close>; rows of
  equal weight keep the table's order.\<close>

fun insert_desc :: "('r \<Rightarrow> f64) \<Rightarrow> 'r \<Rightarrow> 'r list \<Rightarrow> 'r list" where
  "insert_desc weight w [] = [w]"
| "insert_desc weight w (v # vs) =
     (if pg_lt (weight v) (weight w) then w # v # vs else v # insert_desc weight w vs)"

definition order_by_desc :: "('r \<Rightarrow> f64) \<Rightarrow> 'r list \<Rightarrow> 'r list" where
  "order_by_desc weight ws = fold (insert_desc weight) ws []"

definition list_for_window :: "int \<Rightarrow> int \<Rightarrow> db \<Rightarrow> ShareWindow list" where
  "list_for_window daa_start daa_end d =
     order_by_desc sw_total_weight (select_where
       (\<lambda>w. sw_daa_start w = u64_as_i64 daa_start \<and> sw_daa_end w = u64_as_i64 daa_end) (window_t d))"

definition window_find :: "int \<Rightarrow> int \<Rightarrow> int \<Rightarrow> db \<Rightarrow> ShareWindow option" where
  "window_find wallet_id daa_start daa_end d =
     find_where (\<lambda>w. sw_wallet_id w = wallet_id \<and> sw_daa_start w = u64_as_i64 daa_start \<and>
                     sw_daa_end w = u64_as_i64 daa_end) (window_t d)"

section \<open>Coinbase rewards\<close>

datatype EnsureOutcome = Inserted | AlreadyExisted

definition u32_as_i32 :: "int \<Rightarrow> int" where
  "u32_as_i32 x = sint (word_of_int x :: 32 word)"

definition reward_ensure ::
  "timestamp \<Rightarrow> hash_bytes \<Rightarrow> int \<Rightarrow> int \<Rightarrow> int \<Rightarrow> db \<Rightarrow> (int \<times> EnsureOutcome) db_result" where
  "reward_ensure now txid index amount daa d =
     (let mk = (\<lambda>i. \<lparr> cr_id = i, cr_outpoint_transaction_id = txid, cr_outpoint_index = u32_as_i32 index,
                      cr_amount_sompi = amount, cr_block_daa_score = u64_as_i64 daa,
                      cr_discovered_at = now, cr_allocated_at = None \<rparr>) in
      if \<not> reward_check (mk 0) then Err check_violation else
      case find_where (\<lambda>r. cr_outpoint_transaction_id r = txid \<and> cr_outpoint_index r = u32_as_i32 index)
             (reward_t d) of
        Some r \<Rightarrow> Ok ((cr_id r, AlreadyExisted), d\<lparr> reward_t := skip_id (reward_t d) \<rparr>)
      | None \<Rightarrow> Ok ((nextval (reward_t d), Inserted), d\<lparr> reward_t := insert_row mk (reward_t d) \<rparr>))"

definition reward_list_unallocated :: "int \<Rightarrow> db \<Rightarrow> CoinbaseReward list" where
  "reward_list_unallocated limit d =
     take (nat limit) (sort_key cr_block_daa_score (sort_key cr_id
       (select_where (\<lambda>r. cr_allocated_at r = None) (reward_t d))))"

definition lock_for_allocation :: "int \<Rightarrow> db \<Rightarrow> CoinbaseReward option" where
  "lock_for_allocation i d = find_where (\<lambda>r. cr_id r = i) (reward_t d)"

definition mark_allocated :: "timestamp \<Rightarrow> int \<Rightarrow> db \<Rightarrow> unit db_result" where
  "mark_allocated now i d =
     Ok ((), d\<lparr> reward_t := update_where (\<lambda>r. cr_id r = i)
               (\<lambda>r. r\<lparr> cr_allocated_at := coalesce (cr_allocated_at r) now \<rparr>) (reward_t d) \<rparr>)"

definition find_by_outpoint :: "hash_bytes \<Rightarrow> int \<Rightarrow> db \<Rightarrow> CoinbaseReward option" where
  "find_by_outpoint txid index d =
     find_where (\<lambda>r. cr_outpoint_transaction_id r = txid \<and> cr_outpoint_index r = u32_as_i32 index)
       (reward_t d)"

section \<open>Allocations\<close>

definition na_is_balanced :: "NewAllocation \<Rightarrow> ('e, bool) outcome" where
  "na_is_balanced a =
     and_then (trapping i64_min i64_max (na_pool_fee_sompi a + na_nacho_accrual_sompi a)) (\<lambda>s.
     and_then (trapping i64_min i64_max (s + na_net_payout_sompi a)) (\<lambda>t.
     Ok (na_gross_share_sompi a = t)))"

definition insert_allocation_row :: "timestamp \<Rightarrow> int \<Rightarrow> db \<Rightarrow> NewAllocation \<Rightarrow> (DbError, db) outcome" where
  "insert_allocation_row now reward_id d a =
     (if \<not> allocation_check a then Err check_violation
      else if exists_where (\<lambda>s. sa_coinbase_reward_id s = reward_id \<and>
                                na_wallet_id (sa_new s) = na_wallet_id a) (allocation_t d)
      then Err unique_violation
      else if \<not> exists_where (\<lambda>r. cr_id r = reward_id) (reward_t d) \<or>
              \<not> exists_where (\<lambda>w. wal_id w = na_wallet_id a) (wallet_t d)
      then Err foreign_key_violation
      else Ok (d\<lparr> allocation_t := insert_row (\<lambda>i. \<lparr> sa_id = i, sa_coinbase_reward_id = reward_id,
                 sa_new = a, sa_computed_at = now \<rparr>) (allocation_t d) \<rparr>))"

definition insert_batch :: "timestamp \<Rightarrow> int \<Rightarrow> NewAllocation list \<Rightarrow> db \<Rightarrow> int db_result" where
  "insert_batch now reward_id new_rows d =
     (if new_rows = [] then Ok (0, d) else
      and_then (try_fold (\<lambda>u r. and_then (na_is_balanced r) (\<lambda>ok. if ok then Ok () else Err DbConfig)) ()
                 new_rows) (\<lambda>_.
      and_then (try_fold (insert_allocation_row now reward_id) d new_rows) (\<lambda>d'.
      Ok (int (length new_rows), d'))))"

definition list_for_reward :: "int \<Rightarrow> db \<Rightarrow> ShareAllocation list" where
  "list_for_reward reward_id d =
     order_by_desc (\<lambda>a. na_weight (sa_new a))
       (select_where (\<lambda>a. sa_coinbase_reward_id a = reward_id) (allocation_t d))"

section \<open>NACHO rebates\<close>

definition pending_sompi :: "NachoRebate \<Rightarrow> int" where
  "pending_sompi r = nr_accrued_sompi r - nr_paid_sompi r"

definition rebate_get :: "int \<Rightarrow> db \<Rightarrow> NachoRebate option" where
  "rebate_get wallet_id d = find_where (\<lambda>r. nr_wallet_id r = wallet_id) (rebate_t d)"

text \<open>The common body of the rebate updates: compute the new row, reject it
  when a column leaves \<open>bigint\<close> or the row violates its CHECK.\<close>

definition rebate_write :: "NachoRebate \<Rightarrow> db \<Rightarrow> NachoRebate db_result" where
  "rebate_write r d =
     (if \<not> in_i64 (nr_accrued_sompi r) \<or> \<not> in_i64 (nr_paid_sompi r) then Err numeric_out_of_range
      else if \<not> rebate_check r then Err check_violation
      else Ok (r, d\<lparr> rebate_t := update_where (\<lambda>x. nr_wallet_id x = nr_wallet_id r) (\<lambda>_. r) (rebate_t d) \<rparr>))"

definition rebate_upsert :: "(int \<Rightarrow> int) \<Rightarrow> timestamp \<Rightarrow> int \<Rightarrow> int \<Rightarrow> db \<Rightarrow> NachoRebate db_result" where
  "rebate_upsert f now wallet_id v d =
     (case rebate_get wallet_id d of
        Some r \<Rightarrow> rebate_write (r\<lparr> nr_accrued_sompi := f (nr_accrued_sompi r), nr_updated_at := now \<rparr>) d
      | None \<Rightarrow>
          if \<not> exists_where (\<lambda>w. wal_id w = wallet_id) (wallet_t d) then Err foreign_key_violation else
          let r = \<lparr> nr_wallet_id = wallet_id, nr_accrued_sompi = v, nr_paid_sompi = 0, nr_updated_at = now \<rparr> in
          Ok (r, d\<lparr> rebate_t := (rebate_t d)\<lparr> rows := rows (rebate_t d) @ [r] \<rparr> \<rparr>))"

definition accrue :: "timestamp \<Rightarrow> int \<Rightarrow> int \<Rightarrow> db \<Rightarrow> NachoRebate db_result" where
  "accrue now wallet_id delta d =
     (if delta < 0 then Err DbConfig else rebate_upsert (\<lambda>a. a + delta) now wallet_id delta d)"

definition set_accrual :: "timestamp \<Rightarrow> int \<Rightarrow> int \<Rightarrow> db \<Rightarrow> NachoRebate db_result" where
  "set_accrual now wallet_id accrued d =
     (if accrued < 0 then Err DbConfig else rebate_upsert (\<lambda>_. accrued) now wallet_id accrued d)"

definition mark_paid :: "timestamp \<Rightarrow> int \<Rightarrow> int \<Rightarrow> db \<Rightarrow> NachoRebate db_result" where
  "mark_paid now wallet_id delta d =
     (if delta < 0 then Err DbConfig else
      case rebate_get wallet_id d of
        None \<Rightarrow> Err NotFound
      | Some r \<Rightarrow> rebate_write (r\<lparr> nr_paid_sompi := nr_paid_sompi r + delta, nr_updated_at := now \<rparr>) d)"

definition rebate_list_pending :: "int \<Rightarrow> int \<Rightarrow> db \<Rightarrow> NachoRebate list" where
  "rebate_list_pending min_pending limit d =
     take (nat limit) (sort_key (\<lambda>r. - pending_sompi r)
       (select_where (\<lambda>r. min_pending \<le> pending_sompi r) (rebate_t d)))"

section \<open>Blocks\<close>

definition new_block :: "timestamp \<Rightarrow> hash_bytes \<Rightarrow> int \<Rightarrow> int \<Rightarrow> int \<Rightarrow> int \<Rightarrow> correlation_id \<Rightarrow> int \<Rightarrow> Block" where
  "new_block now hash wallet_id worker_id daa nonce cid i =
     \<lparr> blk_id = i, blk_hash = hash, blk_finder_wallet_id = wallet_id, blk_finder_worker_id = worker_id,
       blk_daa_score = u64_as_i64 daa, blk_blue_score = None, blk_nonce = u64_as_i64 nonce,
       blk_status = Found, blk_found_at = now, blk_submitted_at = None, blk_confirmed_at = None,
       blk_matured_at = None, blk_miner_reward_sompi = None, blk_correlation_id = cid \<rparr>"

definition block_insert ::
  "timestamp \<Rightarrow> hash_bytes \<Rightarrow> int \<Rightarrow> int \<Rightarrow> int \<Rightarrow> int \<Rightarrow> correlation_id \<Rightarrow> db \<Rightarrow> int db_result" where
  "block_insert now hash wallet_id worker_id daa nonce cid d =
     (let mk = new_block now hash wallet_id worker_id daa nonce cid in
      if \<not> block_check (mk 0) then Err check_violation
      else if exists_where (\<lambda>b. blk_hash b = hash) (block_t d) then Err unique_violation
      else if \<not> exists_where (\<lambda>w. wal_id w = wallet_id) (wallet_t d) \<or>
              \<not> exists_where (\<lambda>w. wkr_id w = worker_id) (worker_t d)
      then Err foreign_key_violation
      else Ok (nextval (block_t d), d\<lparr> block_t := insert_row mk (block_t d) \<rparr>))"

definition block_ensure ::
  "timestamp \<Rightarrow> hash_bytes \<Rightarrow> int \<Rightarrow> int \<Rightarrow> int \<Rightarrow> int \<Rightarrow> correlation_id \<Rightarrow> db \<Rightarrow>
     (int \<times> EnsureOutcome) db_result" where
  "block_ensure now hash wallet_id worker_id daa nonce cid d =
     (let mk = new_block now hash wallet_id worker_id daa nonce cid in
      if \<not> block_check (mk 0) then Err check_violation else
      case find_where (\<lambda>b. blk_hash b = hash) (block_t d) of
        Some b \<Rightarrow> Ok ((blk_id b, AlreadyExisted), d\<lparr> block_t := skip_id (block_t d) \<rparr>)
      | None \<Rightarrow>
          if \<not> exists_where (\<lambda>w. wal_id w = wallet_id) (wallet_t d) \<or>
             \<not> exists_where (\<lambda>w. wkr_id w = worker_id) (worker_t d)
          then Err foreign_key_violation
          else Ok ((nextval (block_t d), Inserted), d\<lparr> block_t := insert_row mk (block_t d) \<rparr>))"

definition find_by_hash :: "hash_bytes \<Rightarrow> db \<Rightarrow> Block option" where
  "find_by_hash hash d = find_where (\<lambda>b. blk_hash b = hash) (block_t d)"

definition block_update :: "hash_bytes \<Rightarrow> BlockStatus list \<Rightarrow> (Block \<Rightarrow> Block) \<Rightarrow> db \<Rightarrow> unit db_result" where
  "block_update hash allowed f d =
     and_then (checked_update block_check (\<lambda>b. blk_hash b = hash \<and> blk_status b \<in> set allowed) f (block_t d))
       (\<lambda>t. Ok ((), d\<lparr> block_t := t \<rparr>))"

definition mark_submitted :: "timestamp \<Rightarrow> hash_bytes \<Rightarrow> db \<Rightarrow> unit db_result" where
  "mark_submitted now hash d =
     block_update hash [Found, SubmittedToNode]
       (\<lambda>b. b\<lparr> blk_status := SubmittedToNode, blk_submitted_at := coalesce (blk_submitted_at b) now \<rparr>) d"

definition mark_confirmed_blue :: "timestamp \<Rightarrow> hash_bytes \<Rightarrow> int option \<Rightarrow> db \<Rightarrow> unit db_result" where
  "mark_confirmed_blue now hash blue_score d =
     block_update hash [SubmittedToNode, ConfirmedBlue]
       (\<lambda>b. b\<lparr> blk_status := ConfirmedBlue,
                blk_blue_score := (case blue_score of Some s \<Rightarrow> Some s | None \<Rightarrow> blk_blue_score b),
                blk_confirmed_at := coalesce (blk_confirmed_at b) now \<rparr>) d"

definition mark_matured :: "timestamp \<Rightarrow> hash_bytes \<Rightarrow> int \<Rightarrow> db \<Rightarrow> unit db_result" where
  "mark_matured now hash reward d =
     block_update hash [ConfirmedBlue, Matured]
       (\<lambda>b. b\<lparr> blk_status := Matured, blk_miner_reward_sompi := Some reward,
                blk_matured_at := coalesce (blk_matured_at b) now \<rparr>) d"

definition mark_orphaned :: "hash_bytes \<Rightarrow> db \<Rightarrow> unit db_result" where
  "mark_orphaned hash d =
     block_update hash [Found, SubmittedToNode, ConfirmedBlue, Orphaned] (\<lambda>b. b\<lparr> blk_status := Orphaned \<rparr>) d"

definition block_list_by_status :: "BlockStatus list \<Rightarrow> int \<Rightarrow> db \<Rightarrow> Block list" where
  "block_list_by_status statuses limit d =
     take (nat limit) (sort_key blk_found_at (select_where (\<lambda>b. blk_status b \<in> set statuses) (block_t d)))"

definition block_list_recent :: "int \<Rightarrow> int option \<Rightarrow> db \<Rightarrow> Block list" where
  "block_list_recent limit before_id d =
     take (nat limit) (sort_key (\<lambda>b. - blk_id b)
       (select_where (\<lambda>b. pred_option (\<lambda>i. blk_id b < i) before_id) (block_t d)))"

section \<open>Audit log\<close>

record NewEntry =
  ne_actor :: string
  ne_action :: string
  ne_subject_type :: "string option"
  ne_subject_id :: "int option"
  ne_correlation_id :: "correlation_id option"
  ne_payload :: "(string \<times> json_value) list"

definition NewEntry_new :: "string \<Rightarrow> string \<Rightarrow> NewEntry" where
  "NewEntry_new actor action =
     \<lparr> ne_actor = actor, ne_action = action, ne_subject_type = None, ne_subject_id = None,
       ne_correlation_id = None, ne_payload = [] \<rparr>"

definition NewEntry_subject :: "string \<Rightarrow> int \<Rightarrow> NewEntry \<Rightarrow> NewEntry" where
  "NewEntry_subject kind i e = e\<lparr> ne_subject_type := Some kind, ne_subject_id := Some i \<rparr>"

definition audit_append :: "timestamp \<Rightarrow> NewEntry \<Rightarrow> db \<Rightarrow> int db_result" where
  "audit_append now e d =
     Ok (nextval (audit_t d), d\<lparr> audit_t := insert_row (\<lambda>i.
          \<lparr> au_id = i, au_occurred_at = now, au_actor = ne_actor e, au_action = ne_action e,
            au_subject_type = ne_subject_type e, au_subject_id = ne_subject_id e,
            au_correlation_id = ne_correlation_id e, au_payload = ne_payload e \<rparr>) (audit_t d) \<rparr>)"

definition audit_list_for_subject :: "string \<Rightarrow> int \<Rightarrow> int \<Rightarrow> db \<Rightarrow> AuditLogEntry list" where
  "audit_list_for_subject kind i limit d =
     take (nat limit) (sort_key au_occurred_at
       (select_where (\<lambda>a. au_subject_type a = Some kind \<and> au_subject_id a = Some i) (audit_t d)))"

section \<open>Treasury snapshots\<close>

definition snapshot_insert_row :: "(int \<Rightarrow> TreasurySnapshot) \<Rightarrow> db \<Rightarrow> int db_result" where
  "snapshot_insert_row mk d =
     (if \<not> snapshot_check (mk 0) then Err check_violation
      else Ok (nextval (snapshot_t d), d\<lparr> snapshot_t := insert_row mk (snapshot_t d) \<rparr>))"

definition treasury_insert ::
  "timestamp \<Rightarrow> int \<Rightarrow> int \<Rightarrow> int \<Rightarrow> int \<Rightarrow> string option \<Rightarrow> db \<Rightarrow> int db_result" where
  "treasury_insert now kas_balance_sompi nacho_balance daa_score blue_score notes =
     snapshot_insert_row (\<lambda>i. \<lparr> ts_id = i, ts_captured_at = now, ts_kas_balance_sompi = kas_balance_sompi,
       ts_nacho_balance = nacho_balance, ts_daa_score = daa_score, ts_blue_score = blue_score, ts_notes = notes,
       ts_utxo_count = None \<rparr>)"

definition insert_snapshot :: "timestamp \<Rightarrow> int \<Rightarrow> int \<Rightarrow> int \<Rightarrow> string option \<Rightarrow> db \<Rightarrow> int db_result" where
  "insert_snapshot now kas_balance_sompi utxo_count daa_score notes =
     snapshot_insert_row (\<lambda>i. \<lparr> ts_id = i, ts_captured_at = now, ts_kas_balance_sompi = kas_balance_sompi,
       ts_nacho_balance = 0, ts_daa_score = daa_score, ts_blue_score = 0, ts_notes = notes,
       ts_utxo_count = Some utxo_count \<rparr>)"

definition treasury_list_recent :: "int \<Rightarrow> db \<Rightarrow> TreasurySnapshot list" where
  "treasury_list_recent limit d = take (nat limit) (sort_key (\<lambda>r. - ts_captured_at r) (rows (snapshot_t d)))"

definition treasury_latest :: "db \<Rightarrow> TreasurySnapshot option" where
  "treasury_latest d = (case treasury_list_recent 1 d of [] \<Rightarrow> None | r # _ \<Rightarrow> Some r)"

section \<open>The contract of the ensure functions\<close>

text \<open>What an idempotent insert promises to its callers: afterwards the key
  resolves to the returned id, and a key that already resolved keeps its id.\<close>

locale idempotent_insert =
  fixes ensure :: "'a \<Rightarrow> 'd \<Rightarrow> ('e, int \<times> 'd) outcome"
    and lookup :: "'k \<Rightarrow> 'd \<Rightarrow> int option"
    and key :: "'a \<Rightarrow> 'k"
  assumes found: "ensure a d = Ok (i, d') \<Longrightarrow> lookup (key a) d' = Some i"
    and kept: "ensure a d = Ok (i, d') \<Longrightarrow> lookup k d = Some j \<Longrightarrow> lookup k d' = Some j"
begin

lemma existing_id: "ensure a d = Ok (i, d') \<Longrightarrow> lookup (key a) d = Some j \<Longrightarrow> i = j"
  using found kept by fastforce

lemma same_key_same_id:
  "ensure a d = Ok (i, d1) \<Longrightarrow> ensure b d1 = Ok (j, d2) \<Longrightarrow> key a = key b \<Longrightarrow> i = j"
  using existing_id found by metis

text \<open>An id once returned is returned again for the same key after any number
  of further calls.\<close>

lemma id_stable:
  assumes "ensure a d = Ok (i, d1)"
    and "try_fold (\<lambda>s b. and_then (ensure b s) (\<lambda>r. Ok (snd r))) d1 bs = Ok d2"
    and "ensure c d2 = Ok (j, d3)" and "key c = key a"
  shows "j = i"
proof -
  have "lookup (key a) d2 = Some i"
    by (rule try_fold_invariant[OF assms(2)]) (use found[OF assms(1)] kept in \<open>auto simp: outcome_simps\<close>)
  then show ?thesis using existing_id[OF assms(3)] assms(4) by simp
qed

end

definition id_result :: "('r \<Rightarrow> int) \<Rightarrow> ('e, 'r \<times> 'd) outcome \<Rightarrow> ('e, int \<times> 'd) outcome" where
  "id_result f m = and_then m (\<lambda>p. Ok (f (fst p), snd p))"

lemma find_map_same:
  assumes "\<And>r. P (g r) = P r"
  shows "find P (map g xs) = map_option g (find P xs)"
  using assms by (induction xs) auto

lemma find_append_None: "find P xs = None \<Longrightarrow> find P (xs @ ys) = find P ys"
  by (induction xs) (auto split: if_splits)

lemma find_append_Some: "find P xs = Some r \<Longrightarrow> find P (xs @ ys) = Some r"
  by (induction xs) auto

lemmas find_tbl = find_where_def rows_insert_row rows_skip_id rows_update_where
  find_append_None find_append_Some

interpretation wallet_upsert: idempotent_insert
  "\<lambda>(now, address, network) d. id_result wal_id (wallet_ensure now address network d)"
  "\<lambda>address d. map_option wal_id (wallet_find_by_address address d)"
  "\<lambda>(now, address, network). address"
proof unfold_locales
  fix a :: "timestamp \<times> string \<times> string" and d d' :: db and i j :: int and k :: string
  obtain now address network where a: "a = (now, address, network)" by (cases a)
  assume ok: "(case a of (now, address, network) \<Rightarrow>
                \<lambda>d. id_result wal_id (wallet_ensure now address network d)) d = Ok (i, d')"
  let ?g = "\<lambda>w. if wal_address w = address then w\<lparr> wal_last_seen_at := now \<rparr> else w"
  have upd: "find (\<lambda>w. wal_address w = k) (map ?g ws) = map_option ?g (find (\<lambda>w. wal_address w = k) ws)" for k ws
    by (rule find_map_same) auto
  show "map_option wal_id (wallet_find_by_address (case a of (now, address, network) \<Rightarrow> address) d') = Some i"
    using ok unfolding a
    by (auto simp: id_result_def wallet_ensure_def wallet_find_by_address_def find_tbl outcome_simps upd
        Let_def split: if_splits option.splits dest: find_where_Some)
  show "map_option wal_id (wallet_find_by_address k d') = Some j"
    if "map_option wal_id (wallet_find_by_address k d) = Some j"
    using ok that unfolding a
    by (auto simp: id_result_def wallet_ensure_def wallet_find_by_address_def find_tbl outcome_simps upd
        Let_def split: if_splits option.splits)
qed

interpretation worker_upsert: idempotent_insert
  "\<lambda>(now, wallet_id, name) d. id_result wkr_id (worker_ensure now wallet_id name d)"
  "\<lambda>(wallet_id, name) d.
     map_option wkr_id (find_where (\<lambda>w. wkr_wallet_id w = wallet_id \<and> wkr_name w = name) (worker_t d))"
  "\<lambda>(now, wallet_id, name). (wallet_id, name)"
proof unfold_locales
  fix a :: "timestamp \<times> int \<times> string" and d d' :: db and i j :: int and k :: "int \<times> string"
  obtain now wid name where a: "a = (now, wid, name)" by (cases a)
  obtain kw kn where k: "k = (kw, kn)" by (cases k)
  assume ok: "(case a of (now, wallet_id, name) \<Rightarrow>
                \<lambda>d. id_result wkr_id (worker_ensure now wallet_id name d)) d = Ok (i, d')"
  let ?g = "\<lambda>w. if wkr_wallet_id w = wid \<and> wkr_name w = name then w\<lparr> wkr_last_seen_at := now \<rparr> else w"
  have upd: "find (\<lambda>w. wkr_wallet_id w = x \<and> wkr_name w = n) (map ?g ws) =
      map_option ?g (find (\<lambda>w. wkr_wallet_id w = x \<and> wkr_name w = n) ws)" for x n ws
    by (rule find_map_same) auto
  show "(case (case a of (now, wallet_id, name) \<Rightarrow> (wallet_id, name)) of (wallet_id, name) \<Rightarrow>
      \<lambda>d. map_option wkr_id (find_where (\<lambda>w. wkr_wallet_id w = wallet_id \<and> wkr_name w = name) (worker_t d))) d'
      = Some i"
    using ok unfolding a
    by (auto simp: id_result_def worker_ensure_def find_tbl outcome_simps upd
        Let_def split: if_splits option.splits)
  show "(case k of (wallet_id, name) \<Rightarrow>
      \<lambda>d. map_option wkr_id (find_where (\<lambda>w. wkr_wallet_id w = wallet_id \<and> wkr_name w = name) (worker_t d))) d'
      = Some j"
    if "(case k of (wallet_id, name) \<Rightarrow>
      \<lambda>d. map_option wkr_id (find_where (\<lambda>w. wkr_wallet_id w = wallet_id \<and> wkr_name w = name) (worker_t d))) d
      = Some j"
    using ok that unfolding a k
    by (auto simp: id_result_def worker_ensure_def find_tbl outcome_simps upd
        Let_def split: if_splits option.splits)
qed

interpretation reward_upsert: idempotent_insert
  "\<lambda>(now, txid, index, amount, daa) d. id_result fst (reward_ensure now txid index amount daa d)"
  "\<lambda>(txid, index) d. map_option cr_id (find_by_outpoint txid index d)"
  "\<lambda>(now, txid, index, amount, daa). (txid, index)"
  by unfold_locales
    (auto simp: id_result_def reward_ensure_def find_by_outpoint_def find_tbl outcome_simps Let_def
      split: if_splits option.splits)

interpretation block_upsert: idempotent_insert
  "\<lambda>(now, hash, wallet_id, worker_id, daa, nonce, cid) d.
     id_result fst (block_ensure now hash wallet_id worker_id daa nonce cid d)"
  "\<lambda>hash d. map_option blk_id (find_by_hash hash d)"
  "\<lambda>(now, hash, wallet_id, worker_id, daa, nonce, cid). hash"
  by unfold_locales
    (auto simp: id_result_def block_ensure_def find_by_hash_def find_tbl outcome_simps Let_def new_block_def
      split: if_splits option.splits)

section \<open>Facts on the statements\<close>

lemma mset_insert_desc: "mset (insert_desc f w ws) = add_mset w (mset ws)"
  by (induction ws) auto

lemma mset_order_by_desc: "mset (order_by_desc f ws) = mset ws"
proof -
  have "mset (fold (insert_desc f) ws acc) = mset ws + mset acc" for acc
    by (induction ws arbitrary: acc) (auto simp: mset_insert_desc)
  then show ?thesis by (simp add: order_by_desc_def)
qed

lemma set_order_by_desc [simp]: "set (order_by_desc f ws) = set ws"
  by (metis mset_order_by_desc set_mset_mset)

lemma distinct_map_mset: "mset xs = mset ys \<Longrightarrow> distinct (map f xs) = distinct (map f ys)"
  by (metis mset_eq_imp_distinct_iff mset_map)

end
