(* ===== verification/Window.thy ===== *)
theory Window
  imports RepoAccounting
begin

text \<open>
  The share-window aggregator, \<open>src/accountant/src/window.rs\<close>: one rollup row
  per wallet with a share in the half-open DAA range, written by a single
  \<open>INSERT \<dots> ON CONFLICT DO UPDATE\<close> and read back for the totals, in one
  transaction.
\<close>

section \<open>Transactions\<close>

text \<open>A transaction that fails or panics leaves the database as it was.\<close>

fun run_tx :: "(db \<Rightarrow> ('e, 'a \<times> db) outcome) \<Rightarrow> db \<Rightarrow> ('e, 'a) outcome \<times> db" where
  "run_tx f d = (case f d of Ok (a, d') \<Rightarrow> (Ok a, d') | Err e \<Rightarrow> (Err e, d) | Panic \<Rightarrow> (Panic, d))"

text \<open>Code after a committed transaction sees its database, whether or not it
  fails later.\<close>

fun st_bind :: "('e, 'a) outcome \<times> 's \<Rightarrow> ('a \<Rightarrow> 's \<Rightarrow> ('e, 'b) outcome \<times> 's) \<Rightarrow> ('e, 'b) outcome \<times> 's" where
  "st_bind (Ok a, d) k = k a d"
| "st_bind (Err e, d) k = (Err e, d)"
| "st_bind (Panic, d) k = (Panic, d)"

fun st_map_err :: "('e \<Rightarrow> 'f) \<Rightarrow> ('e, 'a) outcome \<times> 's \<Rightarrow> ('f, 'a) outcome \<times> 's" where
  "st_map_err g (m, d) = (map_err g m, d)"

section \<open>Aggregation\<close>

record Agg =
  agg_wallet_id :: int
  agg_w :: f64
  agg_n :: int
  agg_first_credit :: timestamp

definition window_shares :: "int \<Rightarrow> int \<Rightarrow> db \<Rightarrow> Share list" where
  "window_shares s e d = select_where (in_window s e) (share_t d)"

definition agg_row :: "Share list \<Rightarrow> int \<Rightarrow> (DbError, Agg) outcome" where
  "agg_row shares w =
     (let mine = filter (\<lambda>s. sh_wallet_id s = w) shares in
      and_then (pg_sum (map sh_difficulty mine)) (\<lambda>tot.
      Ok \<lparr> agg_wallet_id = w, agg_w = (case tot of Some t \<Rightarrow> t | None \<Rightarrow> Fin 0),
           agg_n = int (length mine),
           agg_first_credit = fold min (map sh_credited_at mine) (sh_credited_at (hd mine)) \<rparr>))"

definition aggregate :: "int \<Rightarrow> int \<Rightarrow> db \<Rightarrow> (DbError, Agg list) outcome" where
  "aggregate s e d =
     (let shares = window_shares s e d in
      traverse (agg_row shares) (remdups (map sh_wallet_id shares)))"

definition is_window :: "int \<Rightarrow> int \<Rightarrow> int \<Rightarrow> ShareWindow \<Rightarrow> bool" where
  "is_window w s e r \<longleftrightarrow> sw_wallet_id r = w \<and> sw_daa_start r = s \<and> sw_daa_end r = e"

definition window_of_agg :: "int \<Rightarrow> int \<Rightarrow> timestamp \<Rightarrow> Agg \<Rightarrow> int \<Rightarrow> ShareWindow" where
  "window_of_agg s e now a i =
     \<lparr> sw_id = i, sw_wallet_id = agg_wallet_id a, sw_daa_start = s, sw_daa_end = e,
       sw_started_at = agg_first_credit a, sw_ended_at = now, sw_total_weight = agg_w a,
       sw_share_count = agg_n a \<rparr>"

definition refresh_window :: "timestamp \<Rightarrow> Agg \<Rightarrow> ShareWindow \<Rightarrow> ShareWindow" where
  "refresh_window now a r =
     r\<lparr> sw_total_weight := agg_w a, sw_share_count := agg_n a, sw_ended_at := now \<rparr>"

definition upsert_window :: "int \<Rightarrow> int \<Rightarrow> timestamp \<Rightarrow> db \<Rightarrow> Agg \<Rightarrow> (DbError, db) outcome" where
  "upsert_window s e now d a =
     (if \<not> window_check (window_of_agg s e now a 0) then Err check_violation
      else if exists_where (is_window (agg_wallet_id a) s e) (window_t d)
      then Ok (d\<lparr> window_t := skip_id (update_where (is_window (agg_wallet_id a) s e)
                 (refresh_window now a) (window_t d)) \<rparr>)
      else if \<not> exists_where (\<lambda>w. wal_id w = agg_wallet_id a) (wallet_t d) then Err foreign_key_violation
      else Ok (d\<lparr> window_t := insert_row (window_of_agg s e now a) (window_t d) \<rparr>))"

record CloseOutcome =
  co_wallets :: int
  co_shares :: int
  co_total_weight :: f64

text \<open>\<open>sum(bigint)\<close> is computed in \<open>numeric\<close> and cast back.\<close>

definition pg_sum_bigint :: "int list \<Rightarrow> (DbError, int option) outcome" where
  "pg_sum_bigint xs =
     (if xs = [] then Ok None
      else if in_i64 (sum_list xs) then Ok (Some (sum_list xs)) else Err numeric_out_of_range)"

definition close_window_tx :: "int \<Rightarrow> int \<Rightarrow> timestamp \<Rightarrow> db \<Rightarrow> CloseOutcome db_result" where
  "close_window_tx s e now d =
     and_then (aggregate s e d) (\<lambda>agg.
     and_then (try_fold (upsert_window s e now) d agg) (\<lambda>d'.
     let closed = select_where (\<lambda>r. sw_daa_start r = s \<and> sw_daa_end r = e) (window_t d') in
     and_then (pg_sum (map sw_total_weight closed)) (\<lambda>w.
     and_then (pg_sum_bigint (map sw_share_count closed)) (\<lambda>n.
     Ok (\<lparr> co_wallets = int (length agg),
           co_shares = (case n of Some c \<Rightarrow> c | None \<Rightarrow> 0),
           co_total_weight = (case w of Some x \<Rightarrow> x | None \<Rightarrow> Fin 0) \<rparr>, d')))))"

definition close_window :: "int \<Rightarrow> int \<Rightarrow> timestamp \<Rightarrow> db \<Rightarrow> (DbError, CloseOutcome) outcome \<times> db" where
  "close_window daa_start daa_end now d =
     (if daa_end \<le> daa_start then (Err DbConfig, d)
      else run_tx (close_window_tx (u64_as_i64 daa_start) (u64_as_i64 daa_end) now) d)"

section \<open>A small pool\<close>

text \<open>Two wallets, four shares and one reward, the state the witnesses of the
  accounting theories are evaluated on.\<close>

definition demo_share :: "int \<Rightarrow> int \<Rightarrow> rat \<Rightarrow> int \<Rightarrow> Share" where
  "demo_share i w diff daa =
     \<lparr> sh_id = i, sh_wallet_id = w, sh_worker_id = w, sh_session_id = None, sh_difficulty = Fin diff,
       sh_daa_score = daa, sh_credited_at = 5, sh_correlation_id = i \<rparr>"

definition demo_wallet :: "int \<Rightarrow> string \<Rightarrow> Wallet" where
  "demo_wallet i a = \<lparr> wal_id = i, wal_address = a, wal_network = ''mainnet'', wal_first_seen_at = 0, wal_last_seen_at = 0 \<rparr>"

definition demo_reward :: "timestamp option \<Rightarrow> CoinbaseReward" where
  "demo_reward allocated =
     \<lparr> cr_id = 1, cr_outpoint_transaction_id = replicate 32 0, cr_outpoint_index = 0, cr_amount_sompi = 1001,
       cr_block_daa_score = 150, cr_discovered_at = 8, cr_allocated_at = allocated \<rparr>"

definition demo_db :: "timestamp option \<Rightarrow> db" where
  "demo_db allocated = empty_db
     \<lparr> wallet_t := \<lparr> rows = [demo_wallet 1 ''kaspa:qz4j8mu2'', demo_wallet 2 ''kaspa:qypczcz0''], nextval = 3 \<rparr>,
       share_t := \<lparr> rows = [demo_share 1 1 2 100, demo_share 2 2 1 101, demo_share 3 1 1 102, demo_share 4 2 7 200],
                    nextval = 5 \<rparr>,
       reward_t := \<lparr> rows = [demo_reward allocated], nextval = 2 \<rparr> \<rparr>"

section \<open>The window table\<close>

text \<open>What the constraints keep of \<open>share_window\<close>.\<close>

definition windows_ok :: "db \<Rightarrow> bool" where
  "windows_ok d \<longleftrightarrow>
     distinct (map (\<lambda>r. (sw_wallet_id r, sw_daa_start r, sw_daa_end r)) (rows (window_t d))) \<and>
     list_all window_check (rows (window_t d)) \<and>
     list_all (\<lambda>r. f64_valid (sw_total_weight r)) (rows (window_t d))"

definition shares_ok :: "db \<Rightarrow> bool" where
  "shares_ok d \<longleftrightarrow>
     list_all (\<lambda>s. f64_valid (sh_difficulty s) \<and> f64_is_finite (sh_difficulty s) \<and>
                    f64_lt (Fin 0) (sh_difficulty s)) (rows (share_t d))"

section \<open>Facts\<close>

lemma f64_add_valid: "f64_valid (f64_add a b)"
  by (cases a; cases b) (simp_all add: to_f64_valid)

lemma pg_add_valid: "pg_add a b = Ok r \<Longrightarrow> f64_valid r"
  by (auto simp: pg_add_def Let_def f64_add_valid split: if_splits)

lemma pg_sum_valid: "pg_sum xs = Ok (Some s) \<Longrightarrow> list_all f64_valid xs \<Longrightarrow> f64_valid s"
proof (cases xs)
  case (Cons x ys)
  assume "pg_sum xs = Ok (Some s)" "list_all f64_valid xs"
  then have "try_fold pg_add x ys = Ok s" "f64_valid x" using Cons by (auto simp: outcome_simps)
  then show ?thesis by (rule try_fold_invariant) (auto intro: pg_add_valid)
qed auto

lemma aggregate_wallets: "aggregate s e d = Ok agg \<Longrightarrow>
    map agg_wallet_id agg = remdups (map sh_wallet_id (window_shares s e d))"
proof -
  assume ok: "aggregate s e d = Ok agg"
  have row: "agg_row sh w = Ok a \<Longrightarrow> agg_wallet_id a = w" for sh w a
    by (auto simp: agg_row_def Let_def outcome_simps)
  from ok have "list_all2 (\<lambda>w a. agg_row (window_shares s e d) w = Ok a)
      (remdups (map sh_wallet_id (window_shares s e d))) agg"
    by (simp add: aggregate_def Let_def traverse_Ok_iff)
  then show ?thesis by (induction rule: list_all2_induct) (auto dest: row)
qed

lemma aggregate_row:
  "aggregate s e d = Ok agg \<Longrightarrow> a \<in> set agg \<Longrightarrow> agg_row (window_shares s e d) (agg_wallet_id a) = Ok a"
proof -
  assume "aggregate s e d = Ok agg" "a \<in> set agg"
  then obtain w where "agg_row (window_shares s e d) w = Ok a"
    by (auto simp: aggregate_def Let_def dest: traverse_Ok_in)
  moreover from this have "agg_wallet_id a = w" by (auto simp: agg_row_def Let_def outcome_simps)
  ultimately show ?thesis by simp
qed

lemma upsert_window_frame:
  "upsert_window s e now d a = Ok d' \<Longrightarrow> \<exists>t. d' = d\<lparr> window_t := t \<rparr>"
  by (auto simp: upsert_window_def split: if_splits)

lemma try_fold_upsert_frame: "try_fold (upsert_window s e now) d agg = Ok d' \<Longrightarrow> \<exists>t. d' = d\<lparr> window_t := t \<rparr>"
proof (induction agg arbitrary: d)
  case Nil
  then have "d' = d\<lparr> window_t := window_t d \<rparr>" by simp
  then show ?case by blast
next
  case (Cons a agg)
  then obtain d1 where d1: "upsert_window s e now d a = Ok d1" "try_fold (upsert_window s e now) d1 agg = Ok d'"
    by (auto simp: outcome_simps)
  with Cons.IH obtain t where "d' = d1\<lparr> window_t := t \<rparr>" by blast
  then show ?case using upsert_window_frame[OF d1(1)] by force
qed

lemma close_window_tx_frame: "close_window_tx s e now d = Ok (c, d') \<Longrightarrow> \<exists>t. d' = d\<lparr> window_t := t \<rparr>"
  by (auto simp: close_window_tx_def outcome_simps Let_def dest: try_fold_upsert_frame)

lemma close_window_frame: "close_window s e now d = (m, d') \<Longrightarrow> \<exists>t. d' = d\<lparr> window_t := t \<rparr>"
proof -
  assume "close_window s e now d = (m, d')"
  then have "d' = d \<or> (\<exists>t. d' = d\<lparr> window_t := t \<rparr>)"
    by (auto simp: close_window_def split: if_splits outcome.splits prod.splits dest: close_window_tx_frame)
  moreover have "d = d\<lparr> window_t := window_t d \<rparr>" by simp
  ultimately show ?thesis by metis
qed

text \<open>The rollup a reader finds for one wallet and one range.\<close>

definition window_view :: "int \<Rightarrow> int \<Rightarrow> int \<Rightarrow> db \<Rightarrow> (f64 \<times> int) option" where
  "window_view w s e d =
     map_option (\<lambda>r. (sw_total_weight r, sw_share_count r)) (find_where (is_window w s e) (window_t d))"

lemma is_window_refresh [simp]: "is_window w s e (refresh_window now a r) = is_window w s e r"
  by (simp add: is_window_def refresh_window_def)

lemma exists_find_where: "exists_where P t \<longleftrightarrow> (\<exists>r. find_where P t = Some r)"
proof -
  have "list_ex P xs \<longleftrightarrow> (\<exists>r. find P xs = Some r)" for xs by (induction xs) auto
  then show ?thesis by (simp add: exists_where_def find_where_def)
qed

lemma upsert_window_view:
  assumes "upsert_window s e now d a = Ok d'"
  shows "window_view w s' e' d' =
    (if w = agg_wallet_id a \<and> s' = s \<and> e' = e then Some (agg_w a, agg_n a) else window_view w s' e' d)"
proof -
  let ?P = "is_window (agg_wallet_id a) s e" and ?t = "window_t d"
  let ?g = "\<lambda>r. if ?P r then refresh_window now a r else r"
  have find_upd: "find (is_window w s' e') (map ?g rs) = map_option ?g (find (is_window w s' e') rs)" for rs
    by (rule find_map_same) auto
  have same: "is_window w s' e' r \<Longrightarrow> ?P r \<longleftrightarrow> w = agg_wallet_id a \<and> s' = s \<and> e' = e" for r
    by (auto simp: is_window_def)
  consider (upd) "exists_where ?P ?t" "d' = d\<lparr> window_t := skip_id (update_where ?P (refresh_window now a) ?t) \<rparr>"
    | (ins) "\<not> exists_where ?P ?t" "d' = d\<lparr> window_t := insert_row (window_of_agg s e now a) ?t \<rparr>"
    using assms by (auto simp: upsert_window_def split: if_splits)
  then show ?thesis
  proof cases
    case upd
    then obtain r0 where "find_where ?P ?t = Some r0" by (auto simp: exists_find_where)
    then show ?thesis
      using upd(2) same find_where_Some[of "is_window w s' e'" ?t]
      by (cases "find (is_window w s' e') (rows ?t)")
        (auto simp: window_view_def find_tbl find_upd refresh_window_def)
  next
    case ins
    then have "find_where ?P ?t = None" by (auto simp: exists_find_where)
    then show ?thesis
      using ins(2) by (cases "find (is_window w s' e') (rows ?t)")
        (auto simp: window_view_def find_tbl window_of_agg_def is_window_def)
  qed
qed

lemma try_fold_upsert_view:
  assumes "try_fold (upsert_window s e now) d agg = Ok d'" and "distinct (map agg_wallet_id agg)"
  shows "window_view w s' e' d' =
    (if s' = s \<and> e' = e \<and> w \<in> agg_wallet_id ` set agg
     then map_option (\<lambda>a. (agg_w a, agg_n a)) (find (\<lambda>a. agg_wallet_id a = w) agg)
     else window_view w s' e' d)"
  using assms
proof (induction agg arbitrary: d)
  case Nil
  then show ?case by simp
next
  case (Cons a agg)
  then obtain d1 where d1: "upsert_window s e now d a = Ok d1" "try_fold (upsert_window s e now) d1 agg = Ok d'"
    by (auto simp: outcome_simps)
  show ?case
    using Cons.IH[OF d1(2)] Cons.prems(2) upsert_window_view[OF d1(1), of w s' e'] by auto
qed

lemma windows_ok_upsert:
  assumes "upsert_window s e now d a = Ok d'" and "windows_ok d" and "f64_valid (agg_w a)"
  shows "windows_ok d'"
proof -
  let ?P = "is_window (agg_wallet_id a) s e" and ?t = "window_t d"
  let ?k = "\<lambda>r. (sw_wallet_id r, sw_daa_start r, sw_daa_end r)"
  let ?g = "\<lambda>r. if ?P r then refresh_window now a r else r"
  have chk: "window_check (window_of_agg s e now a 0)" using assms(1) by (auto simp: upsert_window_def split: if_splits)
  consider (upd) "d' = d\<lparr> window_t := skip_id (update_where ?P (refresh_window now a) ?t) \<rparr>"
    | (ins) "\<not> exists_where ?P ?t" "d' = d\<lparr> window_t := insert_row (window_of_agg s e now a) ?t \<rparr>"
    using assms(1) by (auto simp: upsert_window_def split: if_splits)
  then show ?thesis
  proof cases
    case upd
    have "?k \<circ> ?g = ?k" by (auto simp: fun_eq_iff refresh_window_def)
    moreover have "window_check (refresh_window now a r)" "f64_valid (sw_total_weight (refresh_window now a r))"
      if "?P r" for r
      using that assms(3) chk by (auto simp: refresh_window_def window_check_def window_of_agg_def is_window_def)
    ultimately show ?thesis
      using assms(2) upd by (auto simp: windows_ok_def tbl_simps list_all_iff map_map simp del: f64_valid.simps)
  next
    case ins
    then have "?k (window_of_agg s e now a i) \<notin> ?k ` set (rows ?t)" for i
      by (auto simp: exists_where_def list_ex_iff is_window_def window_of_agg_def)
    then show ?thesis
      using assms(2,3) chk ins
      by (auto simp: windows_ok_def tbl_simps list_all_iff window_check_def window_of_agg_def simp del: f64_valid.simps)
  qed
qed

lemma agg_row_valid:
  assumes "agg_row sh w = Ok a" and "list_all (\<lambda>x. f64_valid (sh_difficulty x)) sh"
  shows "f64_valid (agg_w a)"
proof -
  let ?ds = "map sh_difficulty (filter (\<lambda>s. sh_wallet_id s = w) sh)"
  obtain tot where tot: "pg_sum ?ds = Ok tot" "agg_w a = (case tot of Some t \<Rightarrow> t | None \<Rightarrow> Fin 0)"
    using assms(1) by (auto simp: agg_row_def Let_def outcome_simps)
  have "list_all f64_valid ?ds" using assms(2) by (auto simp: list_all_iff)
  then show ?thesis using tot pg_sum_valid by (cases tot) auto
qed

lemma windows_ok_close_window_tx:
  assumes "close_window_tx s e now d = Ok (c, d')" and "windows_ok d" and "shares_ok d"
  shows "windows_ok d'"
proof -
  obtain agg where agg: "aggregate s e d = Ok agg" "try_fold (upsert_window s e now) d agg = Ok d'"
    using assms(1) by (auto simp: close_window_tx_def outcome_simps Let_def)
  have "list_all (\<lambda>x. f64_valid (sh_difficulty x)) (window_shares s e d)"
    using assms(3) by (auto simp: shares_ok_def list_all_iff window_shares_def select_where_def)
  then have "f64_valid (agg_w a)" if "a \<in> set agg" for a
    using agg_row_valid[OF aggregate_row[OF agg(1) that]] by simp
  then show ?thesis using agg(2) assms(2) by (auto elim!: try_fold_invariant intro: windows_ok_upsert)
qed

lemma windows_ok_close_window:
  assumes "close_window s e now d = (m, d')" and "windows_ok d" and "shares_ok d"
  shows "windows_ok d'"
  using assms windows_ok_close_window_tx
  by (fastforce simp: close_window_def split: if_splits outcome.splits prod.splits)

section \<open>Properties\<close>

text \<open>C20.  When \<open>close_window\<close> succeeds, every wallet with a share in the
  half-open range has exactly the rollup of its own shares: the float sum of
  their difficulties and their number.  Every other rollup, of another wallet
  or another range, is untouched, no other table changes, and the outcome
  counts the contributing wallets.\<close>

theorem close_window_rolls_up:
  assumes "close_window daa_start daa_end now d = (Ok c, d')"
    and "s = u64_as_i64 daa_start" and "e = u64_as_i64 daa_end"
  shows "(\<exists>t. d' = d\<lparr> window_t := t \<rparr>) \<and>
    co_wallets c = int (length (remdups (map sh_wallet_id (window_shares s e d)))) \<and>
    (\<forall>w. (\<exists>x. x \<in> set (window_shares s e d) \<and> sh_wallet_id x = w) \<longrightarrow>
       (\<exists>tot. pg_sum (map sh_difficulty (filter (\<lambda>x. sh_wallet_id x = w) (window_shares s e d))) = Ok (Some tot) \<and>
          window_view w s e d' =
            Some (tot, int (length (filter (\<lambda>x. sh_wallet_id x = w) (window_shares s e d)))))) \<and>
    (\<forall>w s' e'. (s', e') \<noteq> (s, e) \<or> w \<notin> sh_wallet_id ` set (window_shares s e d) \<longrightarrow>
       window_view w s' e' d' = window_view w s' e' d)"
proof -
  have tx: "close_window_tx s e now d = Ok (c, d')"
    using assms by (auto simp: close_window_def split: if_splits outcome.splits)
  then obtain agg where agg: "aggregate s e d = Ok agg" "try_fold (upsert_window s e now) d agg = Ok d'"
    and c: "co_wallets c = int (length agg)"
    by (auto simp: close_window_tx_def outcome_simps Let_def)
  let ?sh = "window_shares s e d"
  note ids = aggregate_wallets[OF agg(1)]
  have set_ids: "agg_wallet_id ` set agg = sh_wallet_id ` set ?sh"
    using arg_cong[OF ids, of set] by simp
  have dist: "distinct (map agg_wallet_id agg)" using ids by simp
  note view = try_fold_upsert_view[OF agg(2) dist]
  have own: "\<exists>tot. pg_sum (map sh_difficulty (filter (\<lambda>x. sh_wallet_id x = w) ?sh)) = Ok (Some tot) \<and>
      window_view w s e d' = Some (tot, int (length (filter (\<lambda>x. sh_wallet_id x = w) ?sh)))"
    if "\<exists>x. x \<in> set ?sh \<and> sh_wallet_id x = w" for w
  proof -
    from that obtain x where x: "x \<in> set ?sh" "sh_wallet_id x = w" by blast
    then have "w \<in> agg_wallet_id ` set agg" using set_ids by auto
    then obtain a where a: "find (\<lambda>a. agg_wallet_id a = w) agg = Some a"
      by (metis (mono_tags, lifting) find_None_iff imageE option.exhaust)
    then have a': "a \<in> set agg" "agg_wallet_id a = w" by (auto simp: find_Some_iff)
    have row: "agg_row ?sh w = Ok a" using aggregate_row[OF agg(1) a'(1)] a'(2) by simp
    have "map sh_difficulty (filter (\<lambda>x. sh_wallet_id x = w) ?sh) \<noteq> []"
      using x by (auto simp: filter_empty_conv)
    then obtain tot where "pg_sum (map sh_difficulty (filter (\<lambda>x. sh_wallet_id x = w) ?sh)) = Ok (Some tot)"
      using row by (cases "map sh_difficulty (filter (\<lambda>x. sh_wallet_id x = w) ?sh)")
        (auto simp: agg_row_def Let_def outcome_simps simp del: map_eq_Cons_conv)
    moreover from this have "agg_w a = tot" "agg_n a = int (length (filter (\<lambda>x. sh_wallet_id x = w) ?sh))"
      using row by (auto simp: agg_row_def Let_def)
    ultimately show ?thesis using view[of w s e] a a' \<open>w \<in> agg_wallet_id ` set agg\<close> by auto
  qed
  have "length agg = length (remdups (map sh_wallet_id ?sh))" using arg_cong[OF ids, of length] by simp
  then have "co_wallets c = int (length (remdups (map sh_wallet_id ?sh)))" using c by simp
  moreover have "window_view w s' e' d' = window_view w s' e' d"
    if "(s', e') \<noteq> (s, e) \<or> w \<notin> sh_wallet_id ` set ?sh" for w s' e'
    unfolding view set_ids using that by (intro if_not_P) blast
  ultimately show ?thesis
    using own close_window_tx_frame[OF tx] by blast
qed

lemma demo_close:
  "fst (close_window 100 150 9 (demo_db None)) = Ok \<lparr> co_wallets = 2, co_shares = 3, co_total_weight = Fin 4 \<rparr>"
  by code_simp

theorem close_window_rolls_up_witness:
  "\<exists>c d'. close_window 100 150 9 (demo_db None) = (Ok c, d') \<and> co_wallets c = 2 \<and>
     window_view 1 100 150 d' = Some (Fin 3, 2) \<and> window_view 2 100 150 d' = Some (Fin 1, 1) \<and>
     window_view 1 0 100 d' = None"
proof -
  obtain c d' where eq: "close_window 100 150 9 (demo_db None) = (Ok c, d')"
    using demo_close by (cases "close_window 100 150 9 (demo_db None)") auto
  have shares: "window_shares 100 150 (demo_db None) = [demo_share 1 1 2 100, demo_share 2 2 1 101, demo_share 3 1 1 102]"
    by (simp add: window_shares_def select_where_def demo_db_def in_window_def demo_share_def)
  have mine: "filter (\<lambda>x. sh_wallet_id x = 1) (window_shares 100 150 (demo_db None)) = [demo_share 1 1 2 100, demo_share 3 1 1 102]"
    "filter (\<lambda>x. sh_wallet_id x = 2) (window_shares 100 150 (demo_db None)) = [demo_share 2 2 1 101]"
    by (simp_all add: shares demo_share_def)
  have sums: "pg_sum (map sh_difficulty [demo_share 1 1 2 100, demo_share 3 1 1 102]) = Ok (Some (Fin 3))"
    "pg_sum (map sh_difficulty [demo_share 2 2 1 101]) = Ok (Some (Fin 1))" by code_simp+
  have has: "\<exists>x. x \<in> set (window_shares 100 150 (demo_db None)) \<and> sh_wallet_id x = 1"
    "\<exists>x. x \<in> set (window_shares 100 150 (demo_db None)) \<and> sh_wallet_id x = 2"
    unfolding shares
    by (rule exI[of _ "demo_share 1 1 2 100"], simp add: demo_share_def)
      (rule exI[of _ "demo_share 2 2 1 101"], simp add: demo_share_def)
  have none: "window_view 1 0 100 (demo_db None) = None"
    by (simp add: window_view_def find_where_def demo_db_def empty_db_def empty_tbl_def)
  have "(100 :: int) = u64_as_i64 100" "(150 :: int) = u64_as_i64 150" by (simp_all add: u64_as_i64_id)
  note th = close_window_rolls_up[OF eq this]
  note wallets = th[THEN conjunct2, THEN conjunct1]
  note own = th[THEN conjunct2, THEN conjunct2, THEN conjunct1, rule_format]
  note other = th[THEN conjunct2, THEN conjunct2, THEN conjunct2, rule_format, of 0 100 1]
  have "window_view 1 100 150 d' = Some (Fin 3, 2)"
    using own[OF has(1)] unfolding mine sums by simp
  moreover have "window_view 2 100 150 d' = Some (Fin 1, 1)"
    using own[OF has(2)] unfolding mine sums by simp
  moreover have "window_view 1 0 100 d' = None" using other none by simp
  moreover have "co_wallets c = 2" using wallets by (simp add: shares demo_share_def)
  ultimately show ?thesis using eq by blast
qed

end
