(* ===== verification/RepoPayout.thy ===== *)
theory RepoPayout
  imports Window
begin

text \<open>
  The payout repository, \<open>src/crates/katpool-db/src/repo/payout.rs\<close>: cycles,
  payouts and KRC-20 transfers, one definition per function, and the queries
  that select the wallets to pay.
\<close>

section \<open>Cycles\<close>

definition kind_prefix :: "PayoutKind \<Rightarrow> string" where
  "kind_prefix kind = (case kind of Kas \<Rightarrow> ''kas'' | Krc20Nacho \<Rightarrow> ''krc20'')"

definition idempotency_key :: "PayoutKind \<Rightarrow> int \<Rightarrow> int \<Rightarrow> string" where
  "idempotency_key kind daa_start daa_end =
     kind_prefix kind @ ''-'' @ show_nat (nat daa_start) @ ''-'' @ show_nat (nat daa_end)"

definition new_cycle :: "timestamp \<Rightarrow> PayoutKind \<Rightarrow> int \<Rightarrow> int \<Rightarrow> int \<Rightarrow> PayoutCycle" where
  "new_cycle now kind daa_start daa_end i =
     \<lparr> cy_id = i, cy_kind = kind, cy_status = CyclePlanned,
       cy_daa_start = u64_as_i64 daa_start, cy_daa_end = u64_as_i64 daa_end,
       cy_planned_at = now, cy_broadcast_at = None, cy_settled_at = None,
       cy_total_sompi = 0, cy_total_recipients = 0,
       cy_idempotency_key = idempotency_key kind daa_start daa_end \<rparr>"

definition find_cycle_by_idempotency_key :: "string \<Rightarrow> db \<Rightarrow> PayoutCycle option" where
  "find_cycle_by_idempotency_key k d = find_where (\<lambda>c. cy_idempotency_key c = k) (cycle_t d)"

definition create_cycle :: "timestamp \<Rightarrow> PayoutKind \<Rightarrow> int \<Rightarrow> int \<Rightarrow> db \<Rightarrow> PayoutCycle db_result" where
  "create_cycle now kind daa_start daa_end d =
     (let mk = new_cycle now kind daa_start daa_end in
      if \<not> cycle_check (mk 0) then Err check_violation else
      case find_cycle_by_idempotency_key (idempotency_key kind daa_start daa_end) d of
        Some c \<Rightarrow> Ok (c, d\<lparr> cycle_t := skip_id (cycle_t d) \<rparr>)
      | None \<Rightarrow> Ok (mk (nextval (cycle_t d)), d\<lparr> cycle_t := insert_row mk (cycle_t d) \<rparr>))"

definition get_cycle :: "int \<Rightarrow> db \<Rightarrow> (DbError, PayoutCycle) outcome" where
  "get_cycle cycle_id d = ok_or NotFound (find_where (\<lambda>c. cy_id c = cycle_id) (cycle_t d))"

definition cycle_update :: "(PayoutCycle \<Rightarrow> bool) \<Rightarrow> (PayoutCycle \<Rightarrow> PayoutCycle) \<Rightarrow> db \<Rightarrow> unit db_result" where
  "cycle_update P f d =
     and_then (checked_update cycle_check P f (cycle_t d)) (\<lambda>t. Ok ((), d\<lparr> cycle_t := t \<rparr>))"

definition mark_cycle_broadcasting :: "timestamp \<Rightarrow> int \<Rightarrow> db \<Rightarrow> unit db_result" where
  "mark_cycle_broadcasting now cycle_id =
     cycle_update (\<lambda>c. cy_id c = cycle_id \<and> cy_status c \<in> {CyclePlanned, Broadcasting})
       (\<lambda>c. c\<lparr> cy_status := Broadcasting, cy_broadcast_at := coalesce (cy_broadcast_at c) now \<rparr>)"

definition mark_cycle_partially_settled :: "int \<Rightarrow> db \<Rightarrow> unit db_result" where
  "mark_cycle_partially_settled cycle_id =
     cycle_update (\<lambda>c. cy_id c = cycle_id \<and> cy_status c \<in> {Broadcasting, PartiallySettled})
       (\<lambda>c. c\<lparr> cy_status := PartiallySettled \<rparr>)"

definition mark_cycle_settled :: "timestamp \<Rightarrow> int \<Rightarrow> db \<Rightarrow> unit db_result" where
  "mark_cycle_settled now cycle_id =
     cycle_update (\<lambda>c. cy_id c = cycle_id \<and> cy_status c \<in> {Broadcasting, PartiallySettled, Settled})
       (\<lambda>c. c\<lparr> cy_status := Settled, cy_settled_at := coalesce (cy_settled_at c) now \<rparr>)"

definition mark_cycle_failed :: "int \<Rightarrow> db \<Rightarrow> unit db_result" where
  "mark_cycle_failed cycle_id =
     cycle_update (\<lambda>c. cy_id c = cycle_id \<and> cy_status c \<noteq> Settled) (\<lambda>c. c\<lparr> cy_status := CycleFailed \<rparr>)"

definition set_cycle_totals :: "int \<Rightarrow> int \<Rightarrow> int \<Rightarrow> db \<Rightarrow> unit db_result" where
  "set_cycle_totals cycle_id total_sompi total_recipients =
     cycle_update (\<lambda>c. cy_id c = cycle_id)
       (\<lambda>c. c\<lparr> cy_total_sompi := total_sompi, cy_total_recipients := total_recipients \<rparr>)"

section \<open>Eligible wallets\<close>

definition sum_bigint :: "int list \<Rightarrow> (DbError, int) outcome" where
  "sum_bigint xs = and_then (pg_sum_bigint xs) (\<lambda>s. Ok (case s of Some v \<Rightarrow> v | None \<Rightarrow> 0))"

definition sub_bigint :: "int \<Rightarrow> int \<Rightarrow> (DbError, int) outcome" where
  "sub_bigint a b = (if in_i64 (a - b) then Ok (a - b) else Err numeric_out_of_range)"

definition wallet_allocations :: "int \<Rightarrow> db \<Rightarrow> ShareAllocation list" where
  "wallet_allocations wallet_id d = select_where (\<lambda>a. na_wallet_id (sa_new a) = wallet_id) (allocation_t d)"

text \<open>The payouts of a wallet whose cycle satisfies a condition; a payout
  belongs to at most one cycle.\<close>

definition cycle_payouts :: "(PayoutCycle \<Rightarrow> bool) \<Rightarrow> (Payout \<Rightarrow> bool) \<Rightarrow> int \<Rightarrow> db \<Rightarrow> Payout list" where
  "cycle_payouts Q P wallet_id d =
     select_where (\<lambda>p. po_wallet_id p = wallet_id \<and> P p \<and>
        exists_where (\<lambda>c. cy_id c = po_cycle_id p \<and> Q c) (cycle_t d)) (payout_t d)"

definition legacy_key :: "string \<Rightarrow> bool" where
  "legacy_key k \<longleftrightarrow> strip_prefix ''kas-legacy-'' k \<noteq> None"

definition confirmed_kas :: "int \<Rightarrow> db \<Rightarrow> Payout list" where
  "confirmed_kas =
     cycle_payouts (\<lambda>c. cy_kind c = Kas \<and> \<not> legacy_key (cy_idempotency_key c)) (\<lambda>p. po_status p = Confirmed)"

record KasEligibleWallet =
  ke_wallet_id :: int
  ke_address :: string
  ke_network :: string
  ke_allocated_sompi :: int
  ke_confirmed_paid_sompi :: int
  ke_payable_sompi :: int

definition kas_row :: "db \<Rightarrow> Wallet \<Rightarrow> (DbError, KasEligibleWallet) outcome" where
  "kas_row d w =
     and_then (sum_bigint (map (na_net_payout_sompi \<circ> sa_new) (wallet_allocations (wal_id w) d))) (\<lambda>allocated.
     and_then (sum_bigint (map po_amount_sompi (confirmed_kas (wal_id w) d))) (\<lambda>confirmed_paid.
     and_then (sub_bigint allocated confirmed_paid) (\<lambda>payable.
     Ok \<lparr> ke_wallet_id = wal_id w, ke_address = wal_address w, ke_network = wal_network w,
          ke_allocated_sompi = allocated, ke_confirmed_paid_sompi = confirmed_paid,
          ke_payable_sompi = payable \<rparr>)))"

definition list_kas_eligible_wallets :: "int \<Rightarrow> db \<Rightarrow> (DbError, KasEligibleWallet list) outcome" where
  "list_kas_eligible_wallets threshold_sompi d =
     and_then (traverse (kas_row d) (select_where (\<lambda>w. wallet_allocations (wal_id w) d \<noteq> []) (wallet_t d))) (\<lambda>ks.
     Ok (sort_key (\<lambda>k. - ke_payable_sompi k) (sort_key ke_wallet_id
           (filter (\<lambda>k. threshold_sompi \<le> ke_payable_sompi k) ks))))"

record Krc20EligibleWallet =
  kw_wallet_id :: int
  kw_address :: string
  kw_network :: string
  kw_pending_sompi :: int

definition open_krc20 :: "int \<Rightarrow> db \<Rightarrow> Payout list" where
  "open_krc20 =
     cycle_payouts (\<lambda>c. cy_kind c = Krc20Nacho) (\<lambda>p. po_status p \<notin> {PayoutFailed, Confirmed})"

definition krc20_row :: "db \<Rightarrow> NachoRebate \<times> Wallet \<Rightarrow> (DbError, Krc20EligibleWallet) outcome" where
  "krc20_row d = (\<lambda>(r, w).
     and_then (sum_bigint (map po_amount_sompi (open_krc20 (nr_wallet_id r) d))) (\<lambda>open_sompi.
     and_then (sub_bigint (nr_accrued_sompi r) (nr_paid_sompi r)) (\<lambda>unpaid.
     and_then (sub_bigint unpaid open_sompi) (\<lambda>pending.
     Ok \<lparr> kw_wallet_id = nr_wallet_id r, kw_address = wal_address w, kw_network = wal_network w,
          kw_pending_sompi = pending \<rparr>))))"

definition rebates_with_wallets :: "db \<Rightarrow> (NachoRebate \<times> Wallet) list" where
  "rebates_with_wallets d =
     List.map_filter (\<lambda>r. map_option (Pair r) (find_where (\<lambda>w. wal_id w = nr_wallet_id r) (wallet_t d)))
       (rows (rebate_t d))"

definition list_krc20_eligible_wallets :: "int \<Rightarrow> int \<Rightarrow> db \<Rightarrow> (DbError, Krc20EligibleWallet list) outcome" where
  "list_krc20_eligible_wallets min_pending_sompi limit d =
     and_then (traverse (krc20_row d) (rebates_with_wallets d)) (\<lambda>ks.
     Ok (take (nat limit) (sort_key (\<lambda>k. - kw_pending_sompi k) (sort_key kw_wallet_id
           (filter (\<lambda>k. min_pending_sompi \<le> kw_pending_sompi k) ks)))))"

section \<open>Payouts\<close>

definition new_payout :: "timestamp \<Rightarrow> int \<Rightarrow> int \<Rightarrow> int \<Rightarrow> int \<Rightarrow> Payout" where
  "new_payout now cycle_id wallet_id amount_sompi i =
     \<lparr> po_id = i, po_cycle_id = cycle_id, po_wallet_id = wallet_id, po_amount_sompi = amount_sompi,
       po_status = Planned, po_tx_hash = None, po_krc20_commit_hash = None, po_krc20_reveal_hash = None,
       po_planned_at = now, po_submitted_at = None, po_confirmed_at = None, po_failure_reason = None,
       po_accepted_daa_score = None \<rparr>"

definition payout_fk_ok :: "int \<Rightarrow> int \<Rightarrow> db \<Rightarrow> bool" where
  "payout_fk_ok cycle_id wallet_id d \<longleftrightarrow>
     exists_where (\<lambda>c. cy_id c = cycle_id) (cycle_t d) \<and> exists_where (\<lambda>w. wal_id w = wallet_id) (wallet_t d)"

definition insert_payout :: "timestamp \<Rightarrow> int \<Rightarrow> int \<Rightarrow> int \<Rightarrow> db \<Rightarrow> Payout db_result" where
  "insert_payout now cycle_id wallet_id amount_sompi d =
     (let mk = new_payout now cycle_id wallet_id amount_sompi in
      if \<not> payout_check (mk 0) then Err check_violation
      else if exists_where (\<lambda>p. po_cycle_id p = cycle_id \<and> po_wallet_id p = wallet_id) (payout_t d)
      then Err unique_violation
      else if \<not> payout_fk_ok cycle_id wallet_id d then Err foreign_key_violation
      else Ok (mk (nextval (payout_t d)), d\<lparr> payout_t := insert_row mk (payout_t d) \<rparr>))"

definition ensure_payout :: "timestamp \<Rightarrow> int \<Rightarrow> int \<Rightarrow> int \<Rightarrow> db \<Rightarrow> Payout db_result" where
  "ensure_payout now cycle_id wallet_id amount_sompi d =
     (let mk = new_payout now cycle_id wallet_id amount_sompi in
      if \<not> payout_check (mk 0) then Err check_violation else
      case find_where (\<lambda>p. po_cycle_id p = cycle_id \<and> po_wallet_id p = wallet_id) (payout_t d) of
        Some p \<Rightarrow> Ok (p, d\<lparr> payout_t := skip_id (payout_t d) \<rparr>)
      | None \<Rightarrow>
          if \<not> payout_fk_ok cycle_id wallet_id d then Err foreign_key_violation
          else Ok (mk (nextval (payout_t d)), d\<lparr> payout_t := insert_row mk (payout_t d) \<rparr>))"

definition get_payout :: "int \<Rightarrow> db \<Rightarrow> (DbError, Payout) outcome" where
  "get_payout payout_id d = ok_or NotFound (find_where (\<lambda>p. po_id p = payout_id) (payout_t d))"

record WalletKasBalance =
  wb_allocated_sompi :: int
  wb_confirmed_paid_sompi :: int
  wb_payable_sompi :: int

definition kas_payable_for_wallet :: "int \<Rightarrow> db \<Rightarrow> (DbError, WalletKasBalance) outcome" where
  "kas_payable_for_wallet wallet_id d =
     and_then (sum_bigint (map (na_net_payout_sompi \<circ> sa_new) (wallet_allocations wallet_id d))) (\<lambda>a.
     and_then (sum_bigint (map po_amount_sompi (confirmed_kas wallet_id d))) (\<lambda>c.
     and_then (trapping i64_min i64_max (a - c)) (\<lambda>p.
     Ok \<lparr> wb_allocated_sompi = a, wb_confirmed_paid_sompi = c, wb_payable_sompi = p \<rparr>)))"

record PoolPayoutTotals =
  pt_kas_confirmed_sompi :: int
  pt_nacho_confirmed_base_units :: int
  pt_confirmed_payouts :: int

definition pool_payout_totals :: "db \<Rightarrow> (DbError, PoolPayoutTotals) outcome" where
  "pool_payout_totals d =
     and_then (sum_bigint (map po_amount_sompi (select_where (\<lambda>p. po_status p = Confirmed \<and>
        exists_where (\<lambda>c. cy_id c = po_cycle_id p \<and> cy_kind c = Kas) (cycle_t d)) (payout_t d)))) (\<lambda>kas.
     and_then (sum_bigint (map kp_nacho_amount (select_where (\<lambda>k. kp_status k = Completed \<and>
        exists_where (\<lambda>p. po_id p = kp_payout_id k \<and> po_status p = Confirmed) (payout_t d)) (krc20_t d)))) (\<lambda>nacho.
     Ok \<lparr> pt_kas_confirmed_sompi = kas, pt_nacho_confirmed_base_units = nacho,
          pt_confirmed_payouts = int (length (select_where (\<lambda>p. po_status p = Confirmed) (payout_t d))) \<rparr>))"

definition list_recent_cycles :: "int \<Rightarrow> int option \<Rightarrow> db \<Rightarrow> PayoutCycle list" where
  "list_recent_cycles limit before_id d =
     take (nat limit) (sort_key (\<lambda>c. - cy_id c)
       (select_where (\<lambda>c. pred_option (\<lambda>i. cy_id c < i) before_id) (cycle_t d)))"

definition list_for_cycle :: "int \<Rightarrow> db \<Rightarrow> Payout list" where
  "list_for_cycle cycle_id d =
     sort_key (\<lambda>p. - po_amount_sompi p) (sort_key po_id (select_where (\<lambda>p. po_cycle_id p = cycle_id) (payout_t d)))"

definition payout_list_for_wallet :: "int \<Rightarrow> int \<Rightarrow> db \<Rightarrow> Payout list" where
  "payout_list_for_wallet wallet_id limit d =
     take (nat limit) (sort_key (\<lambda>p. - po_planned_at p) (select_where (\<lambda>p. po_wallet_id p = wallet_id) (payout_t d)))"

definition spend_hashes :: "Payout \<Rightarrow> hash_bytes list" where
  "spend_hashes p = List.map_filter id [po_tx_hash p, po_krc20_commit_hash p, po_krc20_reveal_hash p]"

definition in_flight_spend_tx_hashes :: "db \<Rightarrow> hash_bytes list" where
  "in_flight_spend_tx_hashes d =
     concat (map spend_hashes (select_where (\<lambda>p. po_status p \<notin> {Confirmed, PayoutFailed}) (payout_t d)))"

definition payout_update :: "(Payout \<Rightarrow> bool) \<Rightarrow> (Payout \<Rightarrow> Payout) \<Rightarrow> db \<Rightarrow> unit db_result" where
  "payout_update P f d =
     and_then (checked_update payout_check P f (payout_t d)) (\<lambda>t. Ok ((), d\<lparr> payout_t := t \<rparr>))"

definition mark_payout_submitted :: "timestamp \<Rightarrow> int \<Rightarrow> hash_bytes \<Rightarrow> db \<Rightarrow> unit db_result" where
  "mark_payout_submitted now payout_id tx_hash =
     payout_update (\<lambda>p. po_id p = payout_id \<and> po_status p \<in> {Planned, Submitted})
       (\<lambda>p. p\<lparr> po_status := Submitted, po_tx_hash := Some tx_hash,
                po_submitted_at := coalesce (po_submitted_at p) now \<rparr>)"

definition mark_payout_accepted :: "int \<Rightarrow> int \<Rightarrow> db \<Rightarrow> unit db_result" where
  "mark_payout_accepted payout_id accepted_daa_score =
     payout_update (\<lambda>p. po_id p = payout_id \<and> po_status p \<in> {Submitted, Accepted})
       (\<lambda>p. p\<lparr> po_status := Accepted, po_accepted_daa_score := coalesce (po_accepted_daa_score p) accepted_daa_score \<rparr>)"

definition mark_payout_confirmed :: "timestamp \<Rightarrow> int \<Rightarrow> db \<Rightarrow> unit db_result" where
  "mark_payout_confirmed now payout_id =
     payout_update (\<lambda>p. po_id p = payout_id \<and> po_status p \<in> {Submitted, Accepted, Confirmed})
       (\<lambda>p. p\<lparr> po_status := Confirmed, po_confirmed_at := coalesce (po_confirmed_at p) now \<rparr>)"

definition confirm_krc20_payout_once :: "timestamp \<Rightarrow> int \<Rightarrow> db \<Rightarrow> bool db_result" where
  "confirm_krc20_payout_once now payout_id d =
     and_then (payout_update (\<lambda>p. po_id p = payout_id \<and> po_status p \<noteq> Confirmed)
       (\<lambda>p. p\<lparr> po_status := Confirmed, po_submitted_at := coalesce (po_submitted_at p) now,
                po_confirmed_at := coalesce (po_confirmed_at p) now \<rparr>) d) (\<lambda>(_, d').
     Ok (length (select_where (\<lambda>p. po_id p = payout_id \<and> po_status p \<noteq> Confirmed) (payout_t d)) = 1, d'))"

definition mark_payout_failed :: "int \<Rightarrow> string \<Rightarrow> db \<Rightarrow> unit db_result" where
  "mark_payout_failed payout_id reason =
     payout_update (\<lambda>p. po_id p = payout_id \<and> po_status p \<noteq> Confirmed)
       (\<lambda>p. p\<lparr> po_status := PayoutFailed, po_failure_reason := Some reason \<rparr>)"

definition record_krc20_commit_hash :: "int \<Rightarrow> hash_bytes \<Rightarrow> db \<Rightarrow> unit db_result" where
  "record_krc20_commit_hash payout_id commit_hash =
     payout_update (\<lambda>p. po_id p = payout_id) (\<lambda>p. p\<lparr> po_krc20_commit_hash := Some commit_hash \<rparr>)"

definition record_krc20_reveal_hash :: "int \<Rightarrow> hash_bytes \<Rightarrow> db \<Rightarrow> unit db_result" where
  "record_krc20_reveal_hash payout_id reveal_hash =
     payout_update (\<lambda>p. po_id p = payout_id) (\<lambda>p. p\<lparr> po_krc20_reveal_hash := Some reveal_hash \<rparr>)"

section \<open>KRC-20 transfers\<close>

definition new_krc20 :: "timestamp \<Rightarrow> int \<Rightarrow> int \<Rightarrow> int \<Rightarrow> string \<Rightarrow> int \<Rightarrow> Krc20PendingTransfer" where
  "new_krc20 now payout_id sompi_to_miner nacho_amount p2sh_address i =
     \<lparr> kp_id = i, kp_payout_id = payout_id, kp_sompi_to_miner = sompi_to_miner,
       kp_nacho_amount = nacho_amount, kp_p2sh_address = p2sh_address, kp_status = Pending,
       kp_commit_fee_sompi = None, kp_reveal_fee_sompi = None, kp_created_at = now, kp_updated_at = now \<rparr>"

definition insert_krc20_pending ::
  "timestamp \<Rightarrow> int \<Rightarrow> int \<Rightarrow> int \<Rightarrow> string \<Rightarrow> db \<Rightarrow> Krc20PendingTransfer db_result" where
  "insert_krc20_pending now payout_id sompi_to_miner nacho_amount p2sh_address d =
     (let mk = new_krc20 now payout_id sompi_to_miner nacho_amount p2sh_address in
      if \<not> krc20_check (mk 0) then Err check_violation
      else if exists_where (\<lambda>k. kp_payout_id k = payout_id) (krc20_t d) then Err unique_violation
      else if \<not> exists_where (\<lambda>p. po_id p = payout_id) (payout_t d) then Err foreign_key_violation
      else Ok (mk (nextval (krc20_t d)), d\<lparr> krc20_t := insert_row mk (krc20_t d) \<rparr>))"

definition refresh_krc20 :: "timestamp \<Rightarrow> int \<Rightarrow> int \<Rightarrow> string \<Rightarrow> Krc20PendingTransfer \<Rightarrow> Krc20PendingTransfer" where
  "refresh_krc20 now sompi_to_miner nacho_amount p2sh_address k =
     k\<lparr> kp_sompi_to_miner := sompi_to_miner, kp_nacho_amount := nacho_amount,
        kp_p2sh_address := p2sh_address, kp_updated_at := now \<rparr>"

definition ensure_krc20_pending ::
  "timestamp \<Rightarrow> int \<Rightarrow> int \<Rightarrow> int \<Rightarrow> string \<Rightarrow> db \<Rightarrow> Krc20PendingTransfer db_result" where
  "ensure_krc20_pending now payout_id sompi_to_miner nacho_amount p2sh_address d =
     (let mk = new_krc20 now payout_id sompi_to_miner nacho_amount p2sh_address;
          upd = refresh_krc20 now sompi_to_miner nacho_amount p2sh_address in
      if \<not> krc20_check (mk 0) then Err check_violation else
      case find_where (\<lambda>k. kp_payout_id k = payout_id) (krc20_t d) of
        Some k \<Rightarrow> Ok (upd k, d\<lparr> krc20_t := skip_id (update_where (\<lambda>k. kp_payout_id k = payout_id) upd (krc20_t d)) \<rparr>)
      | None \<Rightarrow>
          if \<not> exists_where (\<lambda>p. po_id p = payout_id) (payout_t d) then Err foreign_key_violation
          else Ok (mk (nextval (krc20_t d)), d\<lparr> krc20_t := insert_row mk (krc20_t d) \<rparr>))"

definition krc20_update ::
  "(Krc20PendingTransfer \<Rightarrow> bool) \<Rightarrow> (Krc20PendingTransfer \<Rightarrow> Krc20PendingTransfer) \<Rightarrow> db \<Rightarrow> unit db_result" where
  "krc20_update P f d =
     and_then (checked_update krc20_check P f (krc20_t d)) (\<lambda>t. Ok ((), d\<lparr> krc20_t := t \<rparr>))"

definition record_krc20_fees :: "timestamp \<Rightarrow> int \<Rightarrow> int \<Rightarrow> int \<Rightarrow> db \<Rightarrow> unit db_result" where
  "record_krc20_fees now payout_id commit_fee_sompi reveal_fee_sompi =
     krc20_update (\<lambda>k. kp_payout_id k = payout_id \<and> kp_commit_fee_sompi k = None \<and> kp_reveal_fee_sompi k = None)
       (\<lambda>k. k\<lparr> kp_commit_fee_sompi := Some commit_fee_sompi, kp_reveal_fee_sompi := Some reveal_fee_sompi,
                kp_updated_at := now \<rparr>)"

definition krc20_advance ::
  "timestamp \<Rightarrow> Krc20TransferStatus list \<Rightarrow> Krc20TransferStatus \<Rightarrow> int \<Rightarrow> db \<Rightarrow> unit db_result" where
  "krc20_advance now allowed target payout_id =
     krc20_update (\<lambda>k. kp_payout_id k = payout_id \<and> kp_status k \<in> set allowed)
       (\<lambda>k. k\<lparr> kp_status := target, kp_updated_at := now \<rparr>)"

definition mark_krc20_commit_submitted :: "timestamp \<Rightarrow> int \<Rightarrow> db \<Rightarrow> unit db_result" where
  "mark_krc20_commit_submitted now = krc20_advance now [Pending, CommitSubmitted] CommitSubmitted"

definition mark_krc20_reveal_submitted :: "timestamp \<Rightarrow> int \<Rightarrow> db \<Rightarrow> unit db_result" where
  "mark_krc20_reveal_submitted now = krc20_advance now [CommitSubmitted, RevealSubmitted] RevealSubmitted"

definition mark_krc20_completed :: "timestamp \<Rightarrow> int \<Rightarrow> db \<Rightarrow> unit db_result" where
  "mark_krc20_completed now = krc20_advance now [RevealSubmitted, Completed] Completed"

definition mark_krc20_failed :: "timestamp \<Rightarrow> int \<Rightarrow> db \<Rightarrow> unit db_result" where
  "mark_krc20_failed now =
     krc20_advance now [Pending, CommitSubmitted, RevealSubmitted, TransferFailed] TransferFailed"

definition list_krc20_by_status :: "Krc20TransferStatus list \<Rightarrow> int \<Rightarrow> db \<Rightarrow> Krc20PendingTransfer list" where
  "list_krc20_by_status statuses limit d =
     take (nat limit) (sort_key kp_created_at (select_where (\<lambda>k. kp_status k \<in> set statuses) (krc20_t d)))"

definition list_krc20_for_cycle :: "int \<Rightarrow> db \<Rightarrow> Krc20PendingTransfer list" where
  "list_krc20_for_cycle cycle_id d =
     sort_key kp_created_at (sort_key kp_id
       (select_where (\<lambda>k. exists_where (\<lambda>p. po_id p = kp_payout_id k \<and> po_cycle_id p = cycle_id) (payout_t d)) (krc20_t d)))"

section \<open>Lifecycles\<close>

text \<open>What a table promises about a status column: rows are never removed, their
  identifying columns never change, and the status only moves along the edges
  of its machine.\<close>

definition advanced :: "('s \<Rightarrow> 's \<Rightarrow> bool) \<Rightarrow> ('r \<Rightarrow> 's) \<Rightarrow> ('r \<Rightarrow> 'k) \<Rightarrow> 'r tbl \<Rightarrow> 'r tbl \<Rightarrow> bool" where
  "advanced edge status key t t' \<longleftrightarrow>
     length (rows t) \<le> length (rows t') \<and>
     (\<forall>i < length (rows t). key (rows t' ! i) = key (rows t ! i) \<and>
        edge\<^sup>*\<^sup>* (status (rows t ! i)) (status (rows t' ! i)))"

locale lifecycle =
  fixes edge :: "'s \<Rightarrow> 's \<Rightarrow> bool" and rank :: "'s \<Rightarrow> nat"
  assumes edge_up: "edge a b \<Longrightarrow> rank a < rank b"
begin

lemma steps_up: "edge\<^sup>*\<^sup>* a b \<Longrightarrow> a = b \<or> rank a < rank b"
  by (induction rule: rtranclp_induct) (auto dest: edge_up)

lemma no_return: "edge\<^sup>*\<^sup>* a b \<Longrightarrow> edge\<^sup>*\<^sup>* b a \<Longrightarrow> a = b"
  using steps_up[of a b] steps_up[of b a] by auto

lemma terminal: "edge\<^sup>*\<^sup>* a b \<Longrightarrow> (\<And>c. \<not> edge a c) \<Longrightarrow> b = a"
  by (erule converse_rtranclpE) auto

lemma advanced_refl: "advanced edge status key t t"
  by (simp add: advanced_def)

lemma advanced_trans:
  "advanced edge status key t t' \<Longrightarrow> advanced edge status key t' t'' \<Longrightarrow> advanced edge status key t t''"
  unfolding advanced_def by (metis le_trans less_le_trans rtranclp_trans)

lemma advanced_skip: "advanced edge status key t (skip_id t)"
  by (simp add: advanced_def skip_id_def)

lemma advanced_insert: "advanced edge status key t (insert_row mk t)"
  by (simp add: advanced_def insert_row_def nth_append)

lemma advanced_update:
  assumes "\<And>r. P r \<Longrightarrow> key (f r) = key r \<and> (status (f r) = status r \<or> edge (status r) (status (f r)))"
  shows "advanced edge status key t (update_where P f t)"
proof -
  have "edge\<^sup>*\<^sup>* (status r) (status (f r))" if "P r" for r
    using assms[OF that] by (elim conjE disjE) (simp_all add: r_into_rtranclp)
  then show ?thesis using assms by (simp add: advanced_def update_where_def)
qed

lemma advanced_checked:
  assumes "checked_update chk P f t = Ok t'"
    and "\<And>r. P r \<Longrightarrow> key (f r) = key r \<and> (status (f r) = status r \<or> edge (status r) (status (f r)))"
  shows "advanced edge status key t t'"
  using assms(1) advanced_update[of P key f status t, OF assms(2)] by (simp add: checked_update_Ok_iff)

end

fun payout_edge :: "PayoutStatus \<Rightarrow> PayoutStatus \<Rightarrow> bool" where
  "payout_edge Planned s = (s \<noteq> Planned \<and> s \<noteq> Accepted)"
| "payout_edge Submitted s = (s \<in> {Accepted, Confirmed, PayoutFailed})"
| "payout_edge Accepted s = (s \<in> {Confirmed, PayoutFailed})"
| "payout_edge PayoutFailed s = (s = Confirmed)"
| "payout_edge Confirmed s = False"

fun payout_rank :: "PayoutStatus \<Rightarrow> nat" where
  "payout_rank Planned = 0"
| "payout_rank Submitted = 1"
| "payout_rank Accepted = 2"
| "payout_rank PayoutFailed = 3"
| "payout_rank Confirmed = 4"

interpretation payout_life: lifecycle payout_edge payout_rank
proof unfold_locales
  show "payout_rank a < payout_rank b" if "payout_edge a b" for a b
    using that by (cases a; cases b) auto
qed

fun cycle_edge :: "CycleStatus \<Rightarrow> CycleStatus \<Rightarrow> bool" where
  "cycle_edge CyclePlanned s = (s \<in> {Broadcasting, CycleFailed})"
| "cycle_edge Broadcasting s = (s \<in> {PartiallySettled, Settled, CycleFailed})"
| "cycle_edge PartiallySettled s = (s \<in> {Settled, CycleFailed})"
| "cycle_edge Settled s = False"
| "cycle_edge CycleFailed s = False"

fun cycle_rank :: "CycleStatus \<Rightarrow> nat" where
  "cycle_rank CyclePlanned = 0"
| "cycle_rank Broadcasting = 1"
| "cycle_rank PartiallySettled = 2"
| "cycle_rank Settled = 3"
| "cycle_rank CycleFailed = 3"

interpretation cycle_life: lifecycle cycle_edge cycle_rank
proof unfold_locales
  show "cycle_rank a < cycle_rank b" if "cycle_edge a b" for a b
    using that by (cases a; cases b) auto
qed

fun krc20_edge :: "Krc20TransferStatus \<Rightarrow> Krc20TransferStatus \<Rightarrow> bool" where
  "krc20_edge Pending s = (s \<in> {CommitSubmitted, TransferFailed})"
| "krc20_edge CommitSubmitted s = (s \<in> {RevealSubmitted, TransferFailed})"
| "krc20_edge RevealSubmitted s = (s \<in> {Completed, TransferFailed})"
| "krc20_edge Completed s = False"
| "krc20_edge TransferFailed s = False"

fun krc20_rank :: "Krc20TransferStatus \<Rightarrow> nat" where
  "krc20_rank Pending = 0"
| "krc20_rank CommitSubmitted = 1"
| "krc20_rank RevealSubmitted = 2"
| "krc20_rank Completed = 3"
| "krc20_rank TransferFailed = 3"

interpretation krc20_life: lifecycle krc20_edge krc20_rank
proof unfold_locales
  show "krc20_rank a < krc20_rank b" if "krc20_edge a b" for a b
    using that by (cases a; cases b) auto
qed

fun block_edge :: "BlockStatus \<Rightarrow> BlockStatus \<Rightarrow> bool" where
  "block_edge Found s = (s \<in> {SubmittedToNode, Orphaned})"
| "block_edge SubmittedToNode s = (s \<in> {ConfirmedBlue, Orphaned})"
| "block_edge ConfirmedBlue s = (s \<in> {Matured, Orphaned})"
| "block_edge Matured s = False"
| "block_edge Orphaned s = False"

fun block_rank :: "BlockStatus \<Rightarrow> nat" where
  "block_rank Found = 0"
| "block_rank SubmittedToNode = 1"
| "block_rank ConfirmedBlue = 2"
| "block_rank Matured = 3"
| "block_rank Orphaned = 3"

interpretation block_life: lifecycle block_edge block_rank
proof unfold_locales
  show "block_rank a < block_rank b" if "block_edge a b" for a b
    using that by (cases a; cases b) auto
qed

section \<open>The repository as a transition system\<close>

text \<open>One rule per function that writes a payout table.\<close>

inductive repo_step :: "db \<Rightarrow> db \<Rightarrow> bool" where
  "create_cycle now kind s e d = Ok (r, d') \<Longrightarrow> repo_step d d'"
| "mark_cycle_broadcasting now i d = Ok (u, d') \<Longrightarrow> repo_step d d'"
| "mark_cycle_partially_settled i d = Ok (u, d') \<Longrightarrow> repo_step d d'"
| "mark_cycle_settled now i d = Ok (u, d') \<Longrightarrow> repo_step d d'"
| "mark_cycle_failed i d = Ok (u, d') \<Longrightarrow> repo_step d d'"
| "set_cycle_totals i sompi n d = Ok (u, d') \<Longrightarrow> repo_step d d'"
| "insert_payout now c w amount d = Ok (p, d') \<Longrightarrow> repo_step d d'"
| "ensure_payout now c w amount d = Ok (p, d') \<Longrightarrow> repo_step d d'"
| "mark_payout_submitted now i h d = Ok (u, d') \<Longrightarrow> repo_step d d'"
| "mark_payout_accepted i score d = Ok (u, d') \<Longrightarrow> repo_step d d'"
| "mark_payout_confirmed now i d = Ok (u, d') \<Longrightarrow> repo_step d d'"
| "confirm_krc20_payout_once now i d = Ok (b, d') \<Longrightarrow> repo_step d d'"
| "mark_payout_failed i reason d = Ok (u, d') \<Longrightarrow> repo_step d d'"
| "record_krc20_commit_hash i h d = Ok (u, d') \<Longrightarrow> repo_step d d'"
| "record_krc20_reveal_hash i h d = Ok (u, d') \<Longrightarrow> repo_step d d'"
| "insert_krc20_pending now i sompi nacho addr d = Ok (k, d') \<Longrightarrow> repo_step d d'"
| "ensure_krc20_pending now i sompi nacho addr d = Ok (k, d') \<Longrightarrow> repo_step d d'"
| "record_krc20_fees now i cf rf d = Ok (u, d') \<Longrightarrow> repo_step d d'"
| "mark_krc20_commit_submitted now i d = Ok (u, d') \<Longrightarrow> repo_step d d'"
| "mark_krc20_reveal_submitted now i d = Ok (u, d') \<Longrightarrow> repo_step d d'"
| "mark_krc20_completed now i d = Ok (u, d') \<Longrightarrow> repo_step d d'"
| "mark_krc20_failed now i d = Ok (u, d') \<Longrightarrow> repo_step d d'"

named_theorems repo_defs

lemmas [repo_defs] = create_cycle_def mark_cycle_broadcasting_def mark_cycle_partially_settled_def
  mark_cycle_settled_def mark_cycle_failed_def set_cycle_totals_def insert_payout_def ensure_payout_def
  mark_payout_submitted_def mark_payout_accepted_def mark_payout_confirmed_def confirm_krc20_payout_once_def
  mark_payout_failed_def record_krc20_commit_hash_def record_krc20_reveal_hash_def insert_krc20_pending_def
  ensure_krc20_pending_def record_krc20_fees_def mark_krc20_commit_submitted_def mark_krc20_reveal_submitted_def
  mark_krc20_completed_def mark_krc20_failed_def krc20_advance_def

lemma table_update_Ok [repo_defs]:
  "payout_update P f d = Ok (u, d') \<longleftrightarrow>
     (\<forall>r \<in> set (rows (payout_t d)). P r \<longrightarrow> payout_check (f r)) \<and> d' = d\<lparr> payout_t := update_where P f (payout_t d) \<rparr>"
  "cycle_update P' f' d = Ok (u, d') \<longleftrightarrow>
     (\<forall>r \<in> set (rows (cycle_t d)). P' r \<longrightarrow> cycle_check (f' r)) \<and> d' = d\<lparr> cycle_t := update_where P' f' (cycle_t d) \<rparr>"
  "krc20_update P'' f'' d = Ok (u, d') \<longleftrightarrow>
     (\<forall>r \<in> set (rows (krc20_t d)). P'' r \<longrightarrow> krc20_check (f'' r)) \<and> d' = d\<lparr> krc20_t := update_where P'' f'' (krc20_t d) \<rparr>"
  by (auto simp: payout_update_def cycle_update_def krc20_update_def outcome_simps checked_update_Ok_iff)

abbreviation payout_row_key :: "Payout \<Rightarrow> int \<times> int \<times> int \<times> int" where
  "payout_row_key p \<equiv> (po_id p, po_cycle_id p, po_wallet_id p, po_amount_sompi p)"

abbreviation cycle_row_key :: "PayoutCycle \<Rightarrow> int \<times> PayoutKind \<times> string" where
  "cycle_row_key c \<equiv> (cy_id c, cy_kind c, cy_idempotency_key c)"

abbreviation krc20_row_key :: "Krc20PendingTransfer \<Rightarrow> int \<times> int" where
  "krc20_row_key k \<equiv> (kp_id k, kp_payout_id k)"

definition forward :: "db \<Rightarrow> db \<Rightarrow> bool" where
  "forward d d' \<longleftrightarrow>
     advanced payout_edge po_status payout_row_key (payout_t d) (payout_t d') \<and>
     advanced cycle_edge cy_status cycle_row_key (cycle_t d) (cycle_t d') \<and>
     advanced krc20_edge kp_status krc20_row_key (krc20_t d) (krc20_t d')"

lemma forward_refl: "forward d d"
  by (simp add: forward_def advanced_def)

lemma forward_trans: "forward d d' \<Longrightarrow> forward d' d'' \<Longrightarrow> forward d d''"
  unfolding forward_def
  using payout_life.advanced_trans cycle_life.advanced_trans krc20_life.advanced_trans by blast

lemma forwardI:
  "advanced payout_edge po_status payout_row_key (payout_t d) t \<Longrightarrow> forward d (d\<lparr> payout_t := t \<rparr>)"
  "advanced cycle_edge cy_status cycle_row_key (cycle_t d) t' \<Longrightarrow> forward d (d\<lparr> cycle_t := t' \<rparr>)"
  "advanced krc20_edge kp_status krc20_row_key (krc20_t d) t'' \<Longrightarrow> forward d (d\<lparr> krc20_t := t'' \<rparr>)"
  by (simp_all add: forward_def payout_life.advanced_refl cycle_life.advanced_refl krc20_life.advanced_refl)

lemma krc20_refresh_forward:
  "advanced krc20_edge kp_status krc20_row_key t
     (skip_id (update_where P (refresh_krc20 now sompi nacho addr) t))"
proof -
  have "advanced krc20_edge kp_status krc20_row_key t (update_where P (refresh_krc20 now sompi nacho addr) t)"
    by (rule krc20_life.advanced_update) (simp add: refresh_krc20_def)
  then show ?thesis using krc20_life.advanced_skip krc20_life.advanced_trans by blast
qed

lemma edge_to_end:
  "cycle_edge c CycleFailed \<longleftrightarrow> c \<noteq> Settled \<and> c \<noteq> CycleFailed"
  "payout_edge p Confirmed \<longleftrightarrow> p \<noteq> Confirmed"
  "payout_edge p PayoutFailed \<longleftrightarrow> p \<noteq> Confirmed \<and> p \<noteq> PayoutFailed"
  by (cases c; simp) (cases p; simp)+

lemma repo_step_forward: "repo_step d d' \<Longrightarrow> forward d d'"
proof (induction rule: repo_step.induct)
qed (auto simp: repo_defs Let_def outcome_simps edge_to_end split: if_splits option.splits prod.splits
    intro!: forwardI payout_life.advanced_update cycle_life.advanced_update krc20_life.advanced_update
      payout_life.advanced_insert cycle_life.advanced_insert krc20_life.advanced_insert
      payout_life.advanced_skip cycle_life.advanced_skip krc20_refresh_forward forward_refl)

lemma repo_steps_forward: "repo_step\<^sup>*\<^sup>* d d' \<Longrightarrow> forward d d'"
  by (induction rule: rtranclp_induct) (auto intro: forward_refl forward_trans repo_step_forward)

section \<open>The invariant of the payout tables\<close>

text \<open>Ids come from the sequences, the unique keys are unique, every row
  satisfies its CHECKs and every foreign key resolves.\<close>

definition payouts_inv :: "db \<Rightarrow> bool" where
  "payouts_inv d \<longleftrightarrow>
     keyed po_id (payout_t d) \<and> distinct (map (\<lambda>p. (po_cycle_id p, po_wallet_id p)) (rows (payout_t d))) \<and>
     list_all payout_check (rows (payout_t d))"

definition cycles_inv :: "db \<Rightarrow> bool" where
  "cycles_inv d \<longleftrightarrow>
     keyed cy_id (cycle_t d) \<and> distinct (map cy_idempotency_key (rows (cycle_t d))) \<and>
     list_all cycle_check (rows (cycle_t d))"

definition krc20s_inv :: "db \<Rightarrow> bool" where
  "krc20s_inv d \<longleftrightarrow>
     keyed kp_id (krc20_t d) \<and> distinct (map kp_payout_id (rows (krc20_t d))) \<and>
     list_all krc20_check (rows (krc20_t d))"

definition links_inv :: "db \<Rightarrow> bool" where
  "links_inv d \<longleftrightarrow>
     set (map po_cycle_id (rows (payout_t d))) \<subseteq> set (map cy_id (rows (cycle_t d))) \<and>
     set (map kp_payout_id (rows (krc20_t d))) \<subseteq> set (map po_id (rows (payout_t d)))"

definition repo_inv :: "db \<Rightarrow> bool" where
  "repo_inv d \<longleftrightarrow> payouts_inv d \<and> cycles_inv d \<and> krc20s_inv d \<and> links_inv d"

lemma map_update_where:
  assumes "\<And>r. g (f r) = g r"
  shows "map g (rows (update_where P f t)) = map g (rows t)"
proof -
  have "g \<circ> (\<lambda>r. if P r then f r else r) = g" using assms by (auto simp: fun_eq_iff)
  then show ?thesis by (simp add: update_where_def)
qed

lemma list_all_update_where:
  "list_all chk (rows t) \<Longrightarrow> \<forall>r \<in> set (rows t). P r \<longrightarrow> chk (f r) \<Longrightarrow> list_all chk (rows (update_where P f t))"
  by (auto simp: list_all_iff update_where_def)

text \<open>A checked update that keeps the identifying columns keeps the
  invariant of its table.\<close>

lemma update_inv:
  assumes "repo_inv d"
  shows "(\<forall>r \<in> set (rows (payout_t d)). P r \<longrightarrow> payout_check (f r)) \<Longrightarrow> (\<And>r. payout_row_key (f r) = payout_row_key r) \<Longrightarrow>
      repo_inv (d\<lparr> payout_t := update_where P f (payout_t d) \<rparr>)"
    and "(\<forall>r \<in> set (rows (cycle_t d)). P' r \<longrightarrow> cycle_check (f' r)) \<Longrightarrow> (\<And>r. cycle_row_key (f' r) = cycle_row_key r) \<Longrightarrow>
      repo_inv (d\<lparr> cycle_t := update_where P' f' (cycle_t d) \<rparr>)"
    and "(\<forall>r \<in> set (rows (krc20_t d)). P'' r \<longrightarrow> krc20_check (f'' r)) \<Longrightarrow> (\<And>r. krc20_row_key (f'' r) = krc20_row_key r) \<Longrightarrow>
      repo_inv (d\<lparr> krc20_t := update_where P'' f'' (krc20_t d) \<rparr>)"
  using assms
  by (simp_all add: repo_inv_def payouts_inv_def cycles_inv_def krc20s_inv_def links_inv_def
      map_update_where list_all_update_where keyed_update_where)

lemma krc20_refresh_inv:
  assumes "repo_inv d" and "0 < sompi" "0 < nacho"
  shows "repo_inv (d\<lparr> krc20_t := skip_id (update_where P (refresh_krc20 now sompi nacho addr) (krc20_t d)) \<rparr>)"
proof -
  have "\<forall>k \<in> set (rows (krc20_t d)). krc20_check (refresh_krc20 now sompi nacho addr k)"
    using assms by (auto simp: repo_inv_def krc20s_inv_def list_all_iff krc20_check_def refresh_krc20_def)
  then have "repo_inv (d\<lparr> krc20_t := update_where P (refresh_krc20 now sompi nacho addr) (krc20_t d) \<rparr>)"
    by (intro update_inv(3)[OF assms(1)]) (auto simp: refresh_krc20_def)
  then show ?thesis
    by (simp add: repo_inv_def payouts_inv_def cycles_inv_def krc20s_inv_def links_inv_def keyed_skip_id rows_skip_id)
qed

lemma skip_inv:
  "repo_inv d \<Longrightarrow> repo_inv (d\<lparr> payout_t := skip_id (payout_t d) \<rparr>)"
  "repo_inv d \<Longrightarrow> repo_inv (d\<lparr> cycle_t := skip_id (cycle_t d) \<rparr>)"
  by (simp_all add: repo_inv_def payouts_inv_def cycles_inv_def krc20s_inv_def links_inv_def keyed_skip_id rows_skip_id)

lemma insert_cycle_inv:
  assumes "repo_inv d" and "cycle_check (new_cycle now kind s e 0)"
    and "find_cycle_by_idempotency_key (idempotency_key kind s e) d = None"
  shows "repo_inv (d\<lparr> cycle_t := insert_row (new_cycle now kind s e) (cycle_t d) \<rparr>)"
proof -
  have "cycle_check (new_cycle now kind s e i)" for i using assms(2) by (simp add: cycle_check_def new_cycle_def)
  moreover have "idempotency_key kind s e \<notin> cy_idempotency_key ` set (rows (cycle_t d))"
    using assms(3) by (auto simp: find_cycle_by_idempotency_key_def find_where_None)
  ultimately show ?thesis using assms(1) keyed_insert_row[of cy_id "cycle_t d" "new_cycle now kind s e"]
    by (auto simp: repo_inv_def payouts_inv_def cycles_inv_def krc20s_inv_def links_inv_def rows_insert_row new_cycle_def)
qed

lemma insert_payout_inv:
  assumes "repo_inv d" and "payout_check (new_payout now c w amount 0)" and "payout_fk_ok c w d"
    and "\<forall>p \<in> set (rows (payout_t d)). \<not> (po_cycle_id p = c \<and> po_wallet_id p = w)"
  shows "repo_inv (d\<lparr> payout_t := insert_row (new_payout now c w amount) (payout_t d) \<rparr>)"
proof -
  have "payout_check (new_payout now c w amount i)" for i using assms(2) by (simp add: payout_check_def new_payout_def)
  moreover have "c \<in> cy_id ` set (rows (cycle_t d))"
    using assms(3) by (auto simp: payout_fk_ok_def exists_where_def list_ex_iff)
  moreover have "(c, w) \<notin> (\<lambda>p. (po_cycle_id p, po_wallet_id p)) ` set (rows (payout_t d))"
    using assms(4) by auto
  ultimately show ?thesis using assms(1) keyed_insert_row[of po_id "payout_t d" "new_payout now c w amount"]
    by (auto simp: repo_inv_def payouts_inv_def cycles_inv_def krc20s_inv_def links_inv_def rows_insert_row new_payout_def)
qed

lemma insert_krc20_inv:
  assumes "repo_inv d" and "krc20_check (new_krc20 now i sompi nacho addr 0)"
    and "exists_where (\<lambda>p. po_id p = i) (payout_t d)" and "\<forall>k \<in> set (rows (krc20_t d)). kp_payout_id k \<noteq> i"
  shows "repo_inv (d\<lparr> krc20_t := insert_row (new_krc20 now i sompi nacho addr) (krc20_t d) \<rparr>)"
proof -
  have "krc20_check (new_krc20 now i sompi nacho addr j)" for j using assms(2) by (simp add: krc20_check_def new_krc20_def)
  moreover have "i \<in> po_id ` set (rows (payout_t d))" using assms(3) by (auto simp: exists_where_def list_ex_iff)
  moreover have "i \<notin> kp_payout_id ` set (rows (krc20_t d))" using assms(4) by auto
  ultimately show ?thesis using assms(1) keyed_insert_row[of kp_id "krc20_t d" "new_krc20 now i sompi nacho addr"]
    by (auto simp: repo_inv_def payouts_inv_def cycles_inv_def krc20s_inv_def links_inv_def rows_insert_row new_krc20_def)
qed

lemma repo_step_inv: "repo_step d d' \<Longrightarrow> repo_inv d \<Longrightarrow> repo_inv d'"
proof (induction rule: repo_step.induct)
qed (auto simp: repo_defs Let_def outcome_simps find_where_None exists_where_def list_ex_iff
    split: if_splits option.splits prod.splits
    intro!: update_inv insert_cycle_inv insert_payout_inv insert_krc20_inv skip_inv krc20_refresh_inv
    simp: krc20_check_def new_krc20_def)

section \<open>Idempotent inserts\<close>

interpretation cycle_upsert: idempotent_insert
  "\<lambda>(now, kind, s, e) d. id_result cy_id (create_cycle now kind s e d)"
  "\<lambda>k d. map_option cy_id (find_cycle_by_idempotency_key k d)"
  "\<lambda>(now, kind, s, e). idempotency_key kind s e"
  by unfold_locales
    (auto simp: id_result_def create_cycle_def find_cycle_by_idempotency_key_def find_tbl outcome_simps Let_def
      new_cycle_def split: if_splits option.splits prod.splits dest: find_where_Some)

interpretation payout_upsert: idempotent_insert
  "\<lambda>(now, c, w, amount) d. id_result po_id (ensure_payout now c w amount d)"
  "\<lambda>(c, w) d. map_option po_id (find_where (\<lambda>p. po_cycle_id p = c \<and> po_wallet_id p = w) (payout_t d))"
  "\<lambda>(now, c, w, amount). (c, w)"
  by unfold_locales
    (auto simp: id_result_def ensure_payout_def find_tbl outcome_simps Let_def
      new_payout_def split: if_splits option.splits prod.splits dest: find_where_Some)

section \<open>Keys\<close>

lemma no_dash: "CHR ''-'' \<notin> set (show_nat n)"
  using show_nat_digits[of "CHR ''-''" n] by (auto simp: is_ascii_digit_def)

lemma split_at_first:
  "c \<notin> set xs \<Longrightarrow> c \<notin> set ys \<Longrightarrow> xs @ c # us = ys @ c # vs \<longleftrightarrow> xs = ys \<and> us = vs"
proof (induction xs arbitrary: ys)
  case Nil
  then show ?case by (cases ys) auto
next
  case (Cons x xs)
  then show ?case by (cases ys) auto
qed

lemma kind_prefix_no_dash: "CHR ''-'' \<notin> set (kind_prefix k)"
  by (cases k) (auto simp: kind_prefix_def)

lemma kind_prefix_inj: "kind_prefix k = kind_prefix l \<longleftrightarrow> k = l"
  by (cases k; cases l) (auto simp: kind_prefix_def)

lemma legacy_key_dash: "legacy_key (''kas-'' @ c # cs) \<Longrightarrow> c = CHR ''l''"
  by (auto simp: legacy_key_def strip_prefix_def split: if_splits)

section \<open>Properties\<close>

text \<open>C34.  The idempotency key of a cycle identifies it: two cycles share a key
  only when their kind and DAA range are the same, so the unique column never
  merges different cycles, and no live cycle has the key of an imported legacy
  one, which the balance queries skip.\<close>

theorem idempotency_key_identifies:
  "(idempotency_key k (int a) (int b) = idempotency_key l (int a') (int b') \<longleftrightarrow> k = l \<and> a = a' \<and> b = b') \<and>
   \<not> legacy_key (idempotency_key k (int a) (int b))"
proof
  show "idempotency_key k (int a) (int b) = idempotency_key l (int a') (int b') \<longleftrightarrow> k = l \<and> a = a' \<and> b = b'"
    unfolding idempotency_key_def
    by (auto simp: split_at_first[OF kind_prefix_no_dash kind_prefix_no_dash, simplified]
        split_at_first[OF no_dash no_dash] kind_prefix_inj dest: show_nat_inj)
  obtain n cs where n: "n < 10" "show_nat a = digit_char n # cs" using show_nat_Cons by blast
  show "\<not> legacy_key (idempotency_key k (int a) (int b))"
  proof (cases k)
    case Kas
    have "digit_char n \<noteq> CHR ''l''" using n show_nat_digits[of "digit_char n" a] by (auto simp: is_ascii_digit_def)
    then show ?thesis using n legacy_key_dash[of "digit_char n" "cs @ ''-'' @ show_nat b"] Kas
      by (auto simp: idempotency_key_def kind_prefix_def)
  next
    case Krc20Nacho
    then show ?thesis by (auto simp: idempotency_key_def kind_prefix_def legacy_key_def strip_prefix_def)
  qed
qed



section \<open>A concrete run\<close>

definition demo_cycle_db :: db where
  "demo_cycle_db = (demo_db None)\<lparr>
     cycle_t := insert_row (new_cycle 5 Kas 100 200) empty_tbl,
     payout_t := insert_row (new_payout 6 1 1 5000) empty_tbl \<rparr>"

definition demo_submitted :: db where
  "demo_submitted = demo_cycle_db\<lparr> payout_t := \<lparr> rows = [(new_payout 6 1 1 5000 1)\<lparr>
     po_status := Submitted, po_tx_hash := Some (replicate 32 7), po_submitted_at := Some 8 \<rparr>], nextval = 2 \<rparr> \<rparr>"

lemma demo_submit: "mark_payout_submitted 8 1 (replicate 32 7) demo_cycle_db = Ok ((), demo_submitted)"
  by (simp add: repo_defs demo_submitted_def demo_cycle_db_def insert_row_def update_where_def empty_tbl_def
      new_payout_def payout_check_def coalesce_def)

lemma demo_steps: "repo_step\<^sup>*\<^sup>* demo_cycle_db demo_submitted"
  using demo_submit by (intro r_into_rtranclp) (rule repo_step.intros)


lemma demo_cycle_inv: "repo_inv demo_cycle_db"
  by (simp add: repo_inv_def payouts_inv_def cycles_inv_def krc20s_inv_def links_inv_def demo_cycle_db_def demo_db_def
      empty_db_def empty_tbl_def insert_row_def keyed_def new_payout_def new_cycle_def payout_check_def cycle_check_def
      u64_as_i64_id)


end
