(* ===== verification/PayoutKas.thy ===== *)
theory PayoutKas
  imports Consolidation RepoPayout
begin

text \<open>
  The KAS payout executor, \<open>src/payout-kas/src\<close>: the confirmation policy, the
  cycle window, the signer, planning, the cycle state machine, broadcasting and
  confirming.

  A client holds the node's answers during one phase of a tick.  The Kaspa
  libraries enter as the record \<open>kaspa_lib\<close>.  The world is the database with the
  log of what left the process: every commit and every transaction handed to
  the node, in order.  A process that stops, or a statement that fails, leaves
  the world at a prefix of that log, since every error ends the tick.
\<close>

section \<open>The node and the libraries\<close>

datatype KasRpcError = Rpc string

record TreasuryUtxoSnapshot =
  tus_outpoint :: TransactionOutpoint
  tus_entry :: UtxoEntry

definition into_treasury_utxo :: "TreasuryUtxoSnapshot \<Rightarrow> TreasuryUtxo" where
  "into_treasury_utxo s = \<lparr> tu_outpoint = tus_outpoint s, tu_entry = tus_entry s \<rparr>"

text \<open>The mempool probe is asked once per payout row, so its answer has the row
  as an argument.\<close>

record KasClient =
  virtual_daa_score :: "(KasRpcError, int) outcome"
  treasury_utxos :: "string \<Rightarrow> (KasRpcError, TreasuryUtxoSnapshot list) outcome"
  submit_transaction :: "Transaction \<Rightarrow> bool \<Rightarrow> (KasRpcError, hash_bytes) outcome"
  fee_estimate_sompi_per_gram :: "(KasRpcError, f64) outcome"
  transaction_in_mempool :: "int \<Rightarrow> hash_bytes \<Rightarrow> (KasRpcError, bool) outcome"

text \<open>Address parsing, scripts, the key, Schnorr signing, transaction ids and the
  script engine.\<close>

record kaspa_lib =
  kl_consensus :: consensus
  kl_parse_address :: "string \<Rightarrow> string option"
  kl_pay_to_address_script :: "string \<Rightarrow> ScriptPublicKey"
  kl_tx_version :: int
  kl_native_subnetwork :: "8 word list"
  kl_key_ok :: bool
  kl_sign :: "Transaction \<Rightarrow> UtxoEntry list \<Rightarrow> Transaction"
  kl_tx_id :: "Transaction \<Rightarrow> hash_bytes"
  kl_script_ok :: "Transaction \<Rightarrow> UtxoEntry list \<Rightarrow> nat \<Rightarrow> bool"

section \<open>The world\<close>

datatype effect = Committed db | Sent "int list" Transaction

record world =
  wd_db :: db
  wd_log :: "effect list"

definition commit :: "db \<Rightarrow> world \<Rightarrow> world" where
  "commit d w = w\<lparr> wd_db := d, wd_log := wd_log w @ [Committed d] \<rparr>"

text \<open>The rows a transaction pays are kept with it.\<close>

definition send :: "int list \<Rightarrow> Transaction \<Rightarrow> world \<Rightarrow> world" where
  "send ids tx w = w\<lparr> wd_log := wd_log w @ [Sent ids tx] \<rparr>"

definition w_tx :: "(db \<Rightarrow> ('e, 'a \<times> db) outcome) \<Rightarrow> world \<Rightarrow> ('e, 'a) outcome \<times> world" where
  "w_tx f w =
     (case f (wd_db w) of
        Ok (a, d) \<Rightarrow> (Ok a, commit d w)
      | Err e \<Rightarrow> (Err e, w)
      | Panic \<Rightarrow> (Panic, w))"

definition lift :: "('e, 'a) outcome \<Rightarrow> 's \<Rightarrow> ('e, 'a) outcome \<times> 's" where
  "lift m w = (m, w)"

section \<open>Confirmation policy\<close>

definition KAS_PAYOUT_CONFIRMATION_DAA :: int where "KAS_PAYOUT_CONFIRMATION_DAA = 100"
definition NON_COINBASE_MATURITY_DAA :: int where "NON_COINBASE_MATURITY_DAA = 10"
definition COINBASE_MATURITY_DAA :: int where "COINBASE_MATURITY_DAA = 1000"

datatype ConfirmationState = TxPending | TxAccepted | TxConfirmed | TxUnknown

record ConfirmationInputs =
  ci_virtual_daa_score :: int
  ci_in_mempool :: bool
  ci_change_block_daa_score :: "int option"
  ci_recorded_accept_daa :: "int option"

definition classify_confirmation :: "ConfirmationInputs \<Rightarrow> ConfirmationState" where
  "classify_confirmation inputs =
     (case (case ci_recorded_accept_daa inputs of Some daa \<Rightarrow> Some daa | None \<Rightarrow> ci_change_block_daa_score inputs) of
        Some daa \<Rightarrow>
          if saturating 0 u64_max (daa + KAS_PAYOUT_CONFIRMATION_DAA) \<le> ci_virtual_daa_score inputs
          then TxConfirmed else TxAccepted
      | None \<Rightarrow> if ci_in_mempool inputs then TxPending else TxUnknown)"

definition is_spendable :: "int \<Rightarrow> bool \<Rightarrow> int \<Rightarrow> bool" where
  "is_spendable block_daa_score is_coinbase virtual_daa \<longleftrightarrow>
     saturating 0 u64_max (block_daa_score + (if is_coinbase then COINBASE_MATURITY_DAA else NON_COINBASE_MATURITY_DAA))
       \<le> virtual_daa"

section \<open>The cycle window\<close>

definition cycle_window :: "int \<Rightarrow> int \<Rightarrow> int \<times> int" where
  "cycle_window virtual_daa span0 =
     (let span = max span0 1;
          bucket = virtual_daa div span;
          start = saturating 0 u64_max (bucket * span)
      in (start, saturating 0 u64_max (start + span)))"

section \<open>Signing\<close>

datatype SignError = VirtualInput | EmptyInputs | SignKey | Verify nat

record SignedBatch =
  sb_tx :: Transaction
  sb_entries :: "UtxoEntry list"

definition build_unsigned ::
  "kaspa_lib \<Rightarrow> PlannedBatch \<Rightarrow> ScriptPublicKey \<Rightarrow> (SignError, Transaction \<times> UtxoEntry list) outcome" where
  "build_unsigned lib batch treasury_script =
     (if pb_inputs batch = [] then Err EmptyInputs
      else if list_ex is_planning_virtual (pb_inputs batch) then Err VirtualInput
      else Ok (\<lparr> tx_version = kl_tx_version lib,
                 tx_inputs = map (\<lambda>u. \<lparr> ti_previous_outpoint = tu_outpoint u, ti_signature_script = [],
                                         ti_sequence = 0, ti_sig_op_count = 1 \<rparr>) (pb_inputs batch),
                 tx_outputs = map (\<lambda>p. \<lparr> to_value = pr_amount_sompi p, to_script_public_key = pr_script_public_key p \<rparr>)
                                (pb_payouts batch) @
                              (if 0 < pb_change_amount_sompi batch
                               then [\<lparr> to_value = pb_change_amount_sompi batch, to_script_public_key = treasury_script \<rparr>]
                               else []),
                 tx_lock_time = 0, tx_subnetwork_id = kl_native_subnetwork lib, tx_gas = 0, tx_payload = [] \<rparr>,
               map tu_entry (pb_inputs batch)))"

definition batch_txid :: "kaspa_lib \<Rightarrow> PlannedBatch \<Rightarrow> ScriptPublicKey \<Rightarrow> (SignError, hash_bytes) outcome" where
  "batch_txid lib batch treasury_script =
     and_then (build_unsigned lib batch treasury_script) (\<lambda>(tx, entries). Ok (kl_tx_id lib tx))"

definition verify_signed :: "kaspa_lib \<Rightarrow> SignedBatch \<Rightarrow> (SignError, unit) outcome" where
  "verify_signed lib sb =
     (case find (\<lambda>i. \<not> kl_script_ok lib (sb_tx sb) (sb_entries sb) i) [0..<length (tx_inputs (sb_tx sb))] of
        Some i \<Rightarrow> Err (Verify i)
      | None \<Rightarrow> Ok ())"

definition sign_batch :: "kaspa_lib \<Rightarrow> PlannedBatch \<Rightarrow> ScriptPublicKey \<Rightarrow> (SignError, SignedBatch) outcome" where
  "sign_batch lib batch treasury_script =
     and_then (build_unsigned lib batch treasury_script) (\<lambda>(unsigned, entries).
     if \<not> kl_key_ok lib then Err SignKey else
     let sb = \<lparr> sb_tx = kl_sign lib unsigned entries, sb_entries = entries \<rparr> in
     and_then (verify_signed lib sb) (\<lambda>_. Ok sb))"

section \<open>Planning a cycle\<close>

datatype PayoutKasError = KasDb DbError

record PlanKasCycleParams =
  pk_daa_start :: int
  pk_daa_end :: int
  pk_threshold_sompi :: int

record CycleState =
  cs_cycle :: PayoutCycle
  cs_payouts :: "Payout list"

definition plan_wallet ::
  "timestamp \<Rightarrow> int \<Rightarrow> db \<times> int \<times> int \<Rightarrow> KasEligibleWallet \<Rightarrow> (DbError, db \<times> int \<times> int) outcome" where
  "plan_wallet now cycle_id st k =
     (case st of (d, total_sompi, total_recipients) \<Rightarrow>
      and_then (ensure_payout now cycle_id (ke_wallet_id k) (ke_payable_sompi k) d) (\<lambda>(_, d).
      Ok (d, saturating i64_min i64_max (total_sompi + ke_payable_sompi k), saturating i32_min i32_max (total_recipients + 1))))"

definition plan_tx :: "timestamp \<Rightarrow> PlanKasCycleParams \<Rightarrow> db \<Rightarrow> int db_result" where
  "plan_tx now params d =
     and_then (create_cycle now Kas (pk_daa_start params) (pk_daa_end params) d) (\<lambda>(cycle, d).
     and_then (list_kas_eligible_wallets (pk_threshold_sompi params) d) (\<lambda>eligible.
     and_then (try_fold (plan_wallet now (cy_id cycle)) (d, 0, 0) eligible) (\<lambda>(d, total_sompi, total_recipients).
     and_then (set_cycle_totals (cy_id cycle) total_sompi total_recipients d) (\<lambda>(_, d).
     Ok (cy_id cycle, d)))))"

definition load_cycle :: "int \<Rightarrow> db \<Rightarrow> (DbError, CycleState) outcome" where
  "load_cycle cycle_id d =
     and_then (get_cycle cycle_id d) (\<lambda>cycle.
     Ok \<lparr> cs_cycle = cycle, cs_payouts = list_for_cycle cycle_id d \<rparr>)"

definition plan_kas_cycle ::
  "timestamp \<Rightarrow> PlanKasCycleParams \<Rightarrow> world \<Rightarrow> (PayoutKasError, CycleState) outcome \<times> world" where
  "plan_kas_cycle now params w =
     st_map_err KasDb (st_bind (w_tx (plan_tx now params) w) (\<lambda>cycle_id w.
       lift (load_cycle cycle_id (wd_db w)) w))"

section \<open>The cycle state machine\<close>

definition AUDIT_ACTOR :: string where "AUDIT_ACTOR = ''payout-kas''"

record PayoutStatusCounts =
  pc_total :: nat
  pc_pending :: nat
  pc_in_flight :: nat
  pc_confirmed :: nat
  pc_failed :: nat

definition count_status :: "PayoutStatusCounts \<Rightarrow> Payout \<Rightarrow> PayoutStatusCounts" where
  "count_status counts p =
     (case po_status p of
        Planned \<Rightarrow> counts\<lparr> pc_pending := pc_pending counts + 1 \<rparr>
      | Submitted \<Rightarrow> counts\<lparr> pc_in_flight := pc_in_flight counts + 1 \<rparr>
      | Accepted \<Rightarrow> counts\<lparr> pc_in_flight := pc_in_flight counts + 1 \<rparr>
      | Confirmed \<Rightarrow> counts\<lparr> pc_confirmed := pc_confirmed counts + 1 \<rparr>
      | PayoutFailed \<Rightarrow> counts\<lparr> pc_failed := pc_failed counts + 1 \<rparr>)"

definition from_payouts :: "Payout list \<Rightarrow> PayoutStatusCounts" where
  "from_payouts payouts =
     foldl count_status
       \<lparr> pc_total = length payouts, pc_pending = 0, pc_in_flight = 0, pc_confirmed = 0, pc_failed = 0 \<rparr> payouts"

definition derive_cycle_status :: "PayoutStatusCounts \<Rightarrow> CycleStatus" where
  "derive_cycle_status counts =
     (if pc_total counts = 0 then CyclePlanned
      else if pc_confirmed counts = pc_total counts then Settled
      else if pc_confirmed counts + pc_failed counts = pc_total counts
      then if 0 < pc_confirmed counts then PartiallySettled else CycleFailed
      else if 0 < pc_confirmed counts then PartiallySettled
      else if 0 < pc_in_flight counts \<or> 0 < pc_failed counts then Broadcasting
      else CyclePlanned)"

definition pending :: "CycleState \<Rightarrow> Payout list" where
  "pending cs = filter (\<lambda>p. po_status p = Planned) (cs_payouts cs)"

definition counts_of :: "CycleState \<Rightarrow> PayoutStatusCounts" where
  "counts_of cs = from_payouts (cs_payouts cs)"

definition derived_status :: "CycleState \<Rightarrow> CycleStatus" where
  "derived_status cs = derive_cycle_status (counts_of cs)"

text \<open>The \<open>Debug\<close> names of the statuses.\<close>

definition status_debug :: "CycleStatus \<Rightarrow> string" where
  "status_debug s =
     (case s of CyclePlanned \<Rightarrow> ''Planned'' | Broadcasting \<Rightarrow> ''Broadcasting'' | PartiallySettled \<Rightarrow> ''PartiallySettled''
      | Settled \<Rightarrow> ''Settled'' | CycleFailed \<Rightarrow> ''Failed'')"

definition cycle_entry :: "string \<Rightarrow> int \<Rightarrow> (string \<times> json_value) list \<Rightarrow> NewEntry" where
  "cycle_entry action cycle_id payload =
     (NewEntry_subject ''payout_cycle'' cycle_id (NewEntry_new AUDIT_ACTOR action))\<lparr> ne_payload := payload \<rparr>"

definition resume_or_plan_kas_cycle ::
  "timestamp \<Rightarrow> PlanKasCycleParams \<Rightarrow> world \<Rightarrow> (PayoutKasError, CycleState) outcome \<times> world" where
  "resume_or_plan_kas_cycle now params w =
     (case find_cycle_by_idempotency_key (idempotency_key Kas (pk_daa_start params) (pk_daa_end params)) (wd_db w) of
        Some cycle \<Rightarrow>
          let payouts = list_for_cycle (cy_id cycle) (wd_db w) in
          st_map_err KasDb (st_bind (w_tx (audit_append now (cycle_entry ''cycle.resume'' (cy_id cycle)
              [(''idempotency_key'', JStr (cy_idempotency_key cycle)), (''status'', JStr (status_debug (cy_status cycle))),
               (''recipients'', JInt (int (length payouts)))])) w) (\<lambda>_ w.
            (Ok \<lparr> cs_cycle = cycle, cs_payouts = payouts \<rparr>, w)))
      | None \<Rightarrow>
          st_bind (plan_kas_cycle now params w) (\<lambda>planned w.
            st_map_err KasDb (st_bind (w_tx (audit_append now (cycle_entry ''cycle.plan'' (cy_id (cs_cycle planned))
              [(''idempotency_key'', JStr (cy_idempotency_key (cs_cycle planned))),
               (''recipients'', JInt (int (length (cs_payouts planned)))),
               (''total_sompi'', JInt (cy_total_sompi (cs_cycle planned)))])) w) (\<lambda>_ w.
            (Ok planned, w)))))"

definition persist_status :: "timestamp \<Rightarrow> int \<Rightarrow> CycleStatus \<Rightarrow> db \<Rightarrow> unit db_result" where
  "persist_status now cycle_id derived d =
     (case derived of
        CyclePlanned \<Rightarrow> Ok ((), d)
      | Broadcasting \<Rightarrow> mark_cycle_broadcasting now cycle_id d
      | PartiallySettled \<Rightarrow>
          and_then (mark_cycle_broadcasting now cycle_id d) (\<lambda>(_, d). mark_cycle_partially_settled cycle_id d)
      | Settled \<Rightarrow> and_then (mark_cycle_broadcasting now cycle_id d) (\<lambda>(_, d). mark_cycle_settled now cycle_id d)
      | CycleFailed \<Rightarrow> mark_cycle_failed cycle_id d)"

definition reconcile_cycle_status ::
  "timestamp \<Rightarrow> int \<Rightarrow> world \<Rightarrow> (PayoutKasError, CycleStatus) outcome \<times> world" where
  "reconcile_cycle_status now cycle_id w =
     (let counts = from_payouts (list_for_cycle cycle_id (wd_db w));
          derived = derive_cycle_status counts in
      st_map_err KasDb (st_bind (w_tx (\<lambda>d.
          and_then (persist_status now cycle_id derived d) (\<lambda>(_, d).
          audit_append now (cycle_entry ''cycle.reconcile'' cycle_id
            [(''total'', JInt (int (pc_total counts))), (''pending'', JInt (int (pc_pending counts))),
             (''in_flight'', JInt (int (pc_in_flight counts))), (''confirmed'', JInt (int (pc_confirmed counts))),
             (''failed'', JInt (int (pc_failed counts))), (''derived'', JStr (status_debug derived))]) d)) w) (\<lambda>_ w.
        (Ok derived, w))))"

section \<open>Broadcasting\<close>

datatype ExecuteError =
    ExDb DbError
  | ExKaspad KasRpcError
  | ExSign SignError
  | ExMass MassEvaluationError
  | RecipientAddress int
  | Amount int int
  | UnknownRecipient string

datatype ExecutionMode = Live | DryRun

definition is_dry_run :: "ExecutionMode \<Rightarrow> bool" where
  "is_dry_run mode \<longleftrightarrow> mode = DryRun"

record ExecutionReport =
  er_planned_batches :: nat
  er_spendable_utxos :: nat
  er_submitted_txids :: "hash_bytes list"
  er_submitted_payouts :: nat
  er_deferred_below_floor :: nat
  er_unpaid :: nat
  er_submit_errors :: "(hash_bytes \<times> KasRpcError) list"

definition ExecutionReport_default :: ExecutionReport where
  "ExecutionReport_default =
     \<lparr> er_planned_batches = 0, er_spendable_utxos = 0, er_submitted_txids = [], er_submitted_payouts = 0,
       er_deferred_below_floor = 0, er_unpaid = 0, er_submit_errors = [] \<rparr>"

definition sign_batch_with_exact_fee ::
  "kaspa_lib \<Rightarrow> PlannedBatch \<Rightarrow> ScriptPublicKey \<Rightarrow> FeeRate \<Rightarrow> MassEvaluator \<Rightarrow> (ExecuteError, SignedBatch) outcome" where
  "sign_batch_with_exact_fee lib batch treasury_script fee_rate ev =
     and_then (map_err ExSign (sign_batch lib batch treasury_script)) (\<lambda>provisional.
     if \<not> reserves_fee fee_rate then Ok provisional else
     and_then (map_err ExMass (evaluate_populated ev (sb_tx provisional) (sb_entries provisional))) (\<lambda>mass.
     let fee = fee_for fee_rate mass in
     and_then (sum_u64 (map tu_amount (pb_inputs batch))) (\<lambda>input_sum.
     and_then (sum_u64 (map pr_amount_sompi (pb_payouts batch))) (\<lambda>payout_sum.
     case Option.bind (checked 0 u64_max (input_sum - payout_sum)) (\<lambda>rem. checked 0 u64_max (rem - fee)) of
       None \<Rightarrow> Ok provisional
     | Some change0 \<Rightarrow>
         let change = (if change0 \<noteq> 0 \<and> is_change_dust (me_calculator ev) change0 treasury_script then 0 else change0) in
         if change = pb_change_amount_sompi batch then Ok provisional
         else map_err ExSign (sign_batch lib (batch\<lparr> pb_change_amount_sompi := change \<rparr>) treasury_script)))))"

definition recipient_of :: "kaspa_lib \<Rightarrow> db \<Rightarrow> Payout \<Rightarrow> (ExecuteError, PayoutRecipient) outcome" where
  "recipient_of lib d p =
     and_then (if po_amount_sompi p < 0 then Err (Amount (po_id p) (po_amount_sompi p)) else Ok (po_amount_sompi p)) (\<lambda>amount.
     and_then (map_err ExDb (wallet_get_by_id (po_wallet_id p) d)) (\<lambda>w.
     and_then (ok_or (RecipientAddress (po_wallet_id p)) (kl_parse_address lib (wal_address w))) (\<lambda>address.
     Ok \<lparr> pr_id = show_int (po_id p), pr_amount_sompi = amount,
          pr_script_public_key = kl_pay_to_address_script lib address \<rparr>)))"

definition rows_by_id :: "Payout list \<Rightarrow> string \<Rightarrow> Payout option" where
  "rows_by_id ps = foldl (\<lambda>m p. m(show_int (po_id p) \<mapsto> p)) (\<lambda>_. None) ps"

definition protected_hashes :: "db \<Rightarrow> hash_bytes list" where
  "protected_hashes d = filter (\<lambda>h. length h = 32) (in_flight_spend_tx_hashes d)"

definition spendable_coins :: "int \<Rightarrow> hash_bytes list \<Rightarrow> TreasuryUtxoSnapshot list \<Rightarrow> TreasuryUtxo list" where
  "spendable_coins virtual_daa prot snapshots =
     map into_treasury_utxo
       (filter (\<lambda>s. op_transaction_id (tus_outpoint s) \<notin> set prot)
         (filter (\<lambda>s. is_spendable (ue_block_daa_score (tus_entry s)) (ue_is_coinbase (tus_entry s)) virtual_daa) snapshots))"

definition live_fee_rate :: "KasClient \<Rightarrow> FeeRate" where
  "live_fee_rate client =
     (case fee_estimate_sompi_per_gram client of Ok feerate \<Rightarrow> from_feerate feerate | _ \<Rightarrow> from_feerate (Fin 0))"

definition record_intent :: "timestamp \<Rightarrow> int list \<Rightarrow> hash_bytes \<Rightarrow> db \<Rightarrow> unit db_result" where
  "record_intent now ids tx_hash d =
     and_then (try_fold (\<lambda>d i. and_then (mark_payout_submitted now i tx_hash d) (\<lambda>(_, d). Ok d)) d ids) (\<lambda>d. Ok ((), d))"

definition resolve_rows :: "(string \<Rightarrow> Payout option) \<Rightarrow> PayoutRecipient list \<Rightarrow> (ExecuteError, int list) outcome" where
  "resolve_rows by_id = traverse (\<lambda>r. ok_or (UnknownRecipient (pr_id r)) (map_option po_id (by_id (pr_id r))))"

definition send_batch ::
  "kaspa_lib \<Rightarrow> KasClient \<Rightarrow> timestamp \<Rightarrow> ExecutionMode \<Rightarrow> ScriptPublicKey \<Rightarrow> FeeRate \<Rightarrow> (string \<Rightarrow> Payout option) \<Rightarrow>
     PlannedBatch \<Rightarrow> ExecutionReport \<Rightarrow> world \<Rightarrow> (ExecuteError, ExecutionReport) outcome \<times> world" where
  "send_batch lib client now mode treasury_script fee_rate by_id batch report w =
     st_bind (lift (resolve_rows by_id (pb_payouts batch)) w) (\<lambda>ids w.
     st_bind (lift (sign_batch_with_exact_fee lib batch treasury_script fee_rate (mainnet (kl_consensus lib))) w) (\<lambda>sb w.
     let txid = kl_tx_id lib (sb_tx sb) in
     if is_dry_run mode
     then (Ok (report\<lparr> er_submitted_txids := er_submitted_txids report @ [txid] \<rparr>), w)
     else
       st_bind (st_map_err ExDb (w_tx (record_intent now ids txid) w)) (\<lambda>_ w.
       let report = report\<lparr> er_submitted_payouts := er_submitted_payouts report + length ids \<rparr>;
           w = send ids (sb_tx sb) w in
       case submit_transaction client (sb_tx sb) False of
         Ok _ \<Rightarrow> (Ok (report\<lparr> er_submitted_txids := er_submitted_txids report @ [txid] \<rparr>), w)
       | Err e \<Rightarrow> (Ok (report\<lparr> er_submit_errors := er_submit_errors report @ [(txid, e)] \<rparr>), w)
       | Panic \<Rightarrow> (Panic, w))))"

fun send_batches ::
  "(PlannedBatch \<Rightarrow> ExecutionReport \<Rightarrow> world \<Rightarrow> (ExecuteError, ExecutionReport) outcome \<times> world) \<Rightarrow>
     PlannedBatch list \<Rightarrow> ExecutionReport \<Rightarrow> world \<Rightarrow> (ExecuteError, ExecutionReport) outcome \<times> world" where
  "send_batches f [] report w = (Ok report, w)"
| "send_batches f (b # bs) report w = st_bind (f b report w) (\<lambda>report w. send_batches f bs report w)"

text \<open>\<open>plan_batches\<close> has no error of its own.\<close>

definition broadcast_cycle ::
  "kaspa_lib \<Rightarrow> KasClient \<Rightarrow> timestamp \<Rightarrow> string \<Rightarrow> CycleState \<Rightarrow> ExecutionMode \<Rightarrow> world \<Rightarrow>
     (ExecuteError, ExecutionReport) outcome \<times> world" where
  "broadcast_cycle lib client now treasury_address cycle mode w =
     (let ps = pending cycle; report = ExecutionReport_default in
      if ps = [] then (Ok report, w) else
      let treasury_script = kl_pay_to_address_script lib treasury_address in
      st_bind (lift (traverse (recipient_of lib (wd_db w)) ps) w) (\<lambda>recipients w.
      st_bind (lift (map_err ExKaspad (virtual_daa_score client)) w) (\<lambda>virtual_daa w.
      let prot = protected_hashes (wd_db w) in
      st_bind (lift (map_err ExKaspad (treasury_utxos client treasury_address)) w) (\<lambda>snapshots w.
      let utxos = spendable_coins virtual_daa prot snapshots;
          fee_rate = live_fee_rate client in
      st_bind (lift (map_err (\<lambda>_. UnknownRecipient []) (plan_batches (mainnet (kl_consensus lib)) utxos recipients treasury_script fee_rate)) w) (\<lambda>plan w.
      let report = report\<lparr> er_spendable_utxos := length utxos, er_planned_batches := length (pr_batches plan),
            er_deferred_below_floor := length (pr_deferred_below_floor plan), er_unpaid := length (pr_unpaid plan) \<rparr> in
      st_bind (if mode = Live \<and> pr_batches plan \<noteq> []
               then st_map_err ExDb (w_tx (mark_cycle_broadcasting now (cy_id (cs_cycle cycle))) w)
               else (Ok (), w)) (\<lambda>_ w.
      send_batches (send_batch lib client now mode treasury_script fee_rate (rows_by_id ps)) (pr_batches plan) report w))))))"

section \<open>Confirming\<close>

record ConfirmReport =
  cf_accepted :: nat
  cf_confirmed :: nat
  cf_pending :: nat
  cf_unknown :: nat

definition ConfirmReport_default :: ConfirmReport where
  "ConfirmReport_default = \<lparr> cf_accepted = 0, cf_confirmed = 0, cf_pending = 0, cf_unknown = 0 \<rparr>"

definition in_flight :: "CycleState \<Rightarrow> Payout list" where
  "in_flight cs = filter (\<lambda>p. po_status p \<in> {Submitted, Accepted} \<and> po_tx_hash p \<noteq> None) (cs_payouts cs)"

definition change_heights :: "TreasuryUtxoSnapshot list \<Rightarrow> hash_bytes \<Rightarrow> int option" where
  "change_heights snapshots =
     foldl (\<lambda>m s. m(op_transaction_id (tus_outpoint s) \<mapsto> ue_block_daa_score (tus_entry s))) (\<lambda>_. None) snapshots"

definition recorded_height :: "Payout \<Rightarrow> int option" where
  "recorded_height p = Option.bind (po_accepted_daa_score p) (checked 0 u64_max)"

definition confirm_payout ::
  "KasClient \<Rightarrow> timestamp \<Rightarrow> int \<Rightarrow> (hash_bytes \<Rightarrow> int option) \<Rightarrow> Payout \<Rightarrow> ConfirmReport \<Rightarrow> world \<Rightarrow>
     (ExecuteError, ConfirmReport) outcome \<times> world" where
  "confirm_payout client now virtual_daa heights p report w =
     (case po_tx_hash p of
        None \<Rightarrow> (Ok report, w)
      | Some txid \<Rightarrow>
          if length txid \<noteq> 32 then (Ok report, w) else
          let on_chain = heights txid; recorded = recorded_height p in
          st_bind (lift (if on_chain \<noteq> None \<or> recorded \<noteq> None then Ok False
                         else map_err ExKaspad (transaction_in_mempool client (po_id p) txid)) w) (\<lambda>in_mempool w.
          case classify_confirmation \<lparr> ci_virtual_daa_score = virtual_daa, ci_in_mempool = in_mempool,
                 ci_change_block_daa_score = on_chain, ci_recorded_accept_daa = recorded \<rparr> of
            TxAccepted \<Rightarrow>
              let accept_daa = (case Option.bind (case on_chain of Some h \<Rightarrow> Some h | None \<Rightarrow> recorded) (checked i64_min i64_max) of
                                  Some v \<Rightarrow> v | None \<Rightarrow> 0) in
              st_bind (st_map_err ExDb (w_tx (mark_payout_accepted (po_id p) accept_daa) w)) (\<lambda>_ w.
              (Ok (report\<lparr> cf_accepted := cf_accepted report + 1 \<rparr>), w))
          | TxConfirmed \<Rightarrow>
              st_bind (st_map_err ExDb (w_tx (mark_payout_confirmed now (po_id p)) w)) (\<lambda>_ w.
              (Ok (report\<lparr> cf_confirmed := cf_confirmed report + 1 \<rparr>), w))
          | TxPending \<Rightarrow> (Ok (report\<lparr> cf_pending := cf_pending report + 1 \<rparr>), w)
          | TxUnknown \<Rightarrow> (Ok (report\<lparr> cf_unknown := cf_unknown report + 1 \<rparr>), w)))"

fun confirm_payouts ::
  "(Payout \<Rightarrow> ConfirmReport \<Rightarrow> world \<Rightarrow> (ExecuteError, ConfirmReport) outcome \<times> world) \<Rightarrow> Payout list \<Rightarrow>
     ConfirmReport \<Rightarrow> world \<Rightarrow> (ExecuteError, ConfirmReport) outcome \<times> world" where
  "confirm_payouts f [] report w = (Ok report, w)"
| "confirm_payouts f (p # ps) report w = st_bind (f p report w) (\<lambda>report w. confirm_payouts f ps report w)"

definition confirm_cycle ::
  "KasClient \<Rightarrow> timestamp \<Rightarrow> string \<Rightarrow> CycleState \<Rightarrow> world \<Rightarrow> (ExecuteError, ConfirmReport) outcome \<times> world" where
  "confirm_cycle client now treasury_address cycle w =
     (let ps = in_flight cycle in
      if ps = [] then (Ok ConfirmReport_default, w) else
      st_bind (lift (map_err ExKaspad (virtual_daa_score client)) w) (\<lambda>virtual_daa w.
      st_bind (lift (map_err ExKaspad (treasury_utxos client treasury_address)) w) (\<lambda>snapshots w.
      confirm_payouts (confirm_payout client now virtual_daa (change_heights snapshots)) ps ConfirmReport_default w)))"

section \<open>The engine\<close>

definition over_spend_cap :: "int \<Rightarrow> int option \<Rightarrow> bool" where
  "over_spend_cap total_sompi cap = (case cap of Some c \<Rightarrow> c < total_sompi | None \<Rightarrow> False)"

datatype KasEngineError =
    EngineDb DbError
  | EnginePayout PayoutKasError
  | EngineExecute ExecuteError
  | EngineKaspad KasRpcError
  | SpanTooSmall int int
  | SpendCapExceeded int int

record PayoutEngineConfig =
  pe_instance_id :: string
  pe_poll_interval :: int
  pe_cycle_span_daa :: int
  pe_threshold_sompi :: int
  pe_max_payout_sompi_per_cycle :: "int option"
  pe_mode :: ExecutionMode
  pe_lock_namespace :: string

record PayoutEngine =
  en_lib :: kaspa_lib
  en_treasury_address :: string
  en_config :: PayoutEngineConfig

definition PayoutEngine_new ::
  "kaspa_lib \<Rightarrow> string \<Rightarrow> PayoutEngineConfig \<Rightarrow> (KasEngineError, PayoutEngine) outcome" where
  "PayoutEngine_new lib treasury_address config =
     (if pe_cycle_span_daa config \<le> KAS_PAYOUT_CONFIRMATION_DAA
      then Err (SpanTooSmall (pe_cycle_span_daa config) KAS_PAYOUT_CONFIRMATION_DAA)
      else Ok \<lparr> en_lib = lib, en_treasury_address = treasury_address, en_config = config \<rparr>)"

record TickReport =
  tr_cycle_id :: int
  tr_virtual_daa :: int
  tr_daa_start :: int
  tr_daa_end :: int
  tr_broadcast :: ExecutionReport
  tr_confirm :: ConfirmReport
  tr_status :: CycleStatus

definition outbound_sompi :: "Payout list \<Rightarrow> int" where
  "outbound_sompi ps =
     foldl (\<lambda>acc x. saturating i64_min i64_max (acc + x)) 0
       (map po_amount_sompi (filter (\<lambda>p. po_status p \<noteq> PayoutFailed) ps))"

text \<open>The node's answers at the start of the tick, while broadcasting and while
  confirming.\<close>

definition run_locked ::
  "PayoutEngine \<Rightarrow> KasClient \<times> KasClient \<times> KasClient \<Rightarrow> timestamp \<Rightarrow> world \<Rightarrow>
     (KasEngineError, TickReport) outcome \<times> world" where
  "run_locked en clients now w =
     (case clients of (client0, client1, client2) \<Rightarrow>
      st_bind (lift (map_err EngineKaspad (virtual_daa_score client0)) w) (\<lambda>virtual_daa w.
      let (daa_start, daa_end) = cycle_window virtual_daa (pe_cycle_span_daa (en_config en)) in
      st_bind (st_map_err EnginePayout (resume_or_plan_kas_cycle now
          \<lparr> pk_daa_start = daa_start, pk_daa_end = daa_end, pk_threshold_sompi = pe_threshold_sompi (en_config en) \<rparr> w)) (\<lambda>state w.
      let cycle_id = cy_id (cs_cycle state); outbound = outbound_sompi (cs_payouts state) in
      if over_spend_cap outbound (pe_max_payout_sompi_per_cycle (en_config en))
      then (Err (SpendCapExceeded outbound (case pe_max_payout_sompi_per_cycle (en_config en) of Some c \<Rightarrow> c | None \<Rightarrow> 0)), w)
      else
      st_bind (st_map_err EngineExecute
        (broadcast_cycle (en_lib en) client1 now (en_treasury_address en) state (pe_mode (en_config en)) w)) (\<lambda>broadcast w.
      st_bind (lift (map_err EngineDb (load_cycle cycle_id (wd_db w))) w) (\<lambda>reloaded w.
      st_bind (st_map_err EngineExecute (confirm_cycle client2 now (en_treasury_address en) reloaded w)) (\<lambda>confirm w.
      st_bind (st_map_err EnginePayout (reconcile_cycle_status now cycle_id w)) (\<lambda>status w.
      (Ok \<lparr> tr_cycle_id = cycle_id, tr_virtual_daa = virtual_daa, tr_daa_start = daa_start, tr_daa_end = daa_end,
            tr_broadcast = broadcast, tr_confirm = confirm, tr_status = status \<rparr>, w))))))))"

end
