(* ===== verification/PayoutSafety.thy ===== *)
theory PayoutSafety
  imports PayoutKas
begin

text \<open>
  What leaves the process.  The log of a tick is read effect by effect: a commit
  moves the payout tables forward, and a transaction handed to the node pays rows
  whose intent is already committed and which no earlier transaction paid.
\<close>

section \<open>Logs\<close>

fun db_after :: "db \<Rightarrow> effect list \<Rightarrow> db" where
  "db_after d [] = d"
| "db_after d (Committed d' # es) = db_after d' es"
| "db_after d (Sent ids tx # es) = db_after d es"

fun sent_rows :: "effect list \<Rightarrow> int list" where
  "sent_rows [] = []"
| "sent_rows (Committed d # es) = sent_rows es"
| "sent_rows (Sent ids tx # es) = ids @ sent_rows es"

definition row_of :: "db \<Rightarrow> int \<Rightarrow> Payout option" where
  "row_of d i = find_where (\<lambda>p. po_id p = i) (payout_t d)"

text \<open>An output pays a row: the row is submitted under the transaction's id, and
  the output carries its amount to the script of its wallet's address.\<close>

definition pays_row :: "kaspa_lib \<Rightarrow> db \<Rightarrow> hash_bytes \<Rightarrow> int \<Rightarrow> TransactionOutput \<Rightarrow> bool" where
  "pays_row lib d txid i out \<longleftrightarrow>
     (\<exists>p w a. row_of d i = Some p \<and> po_status p = Submitted \<and> po_tx_hash p = Some txid \<and>
        to_value out = po_amount_sompi p \<and> wallet_get_by_id (po_wallet_id p) d = Ok w \<and>
        kl_parse_address lib (wal_address w) = Some a \<and>
        to_script_public_key out = kl_pay_to_address_script lib a)"

text \<open>A transaction is intended: besides the rows it pays there is at most a
  change output, to the treasury.\<close>

definition intended :: "kaspa_lib \<Rightarrow> ScriptPublicKey \<Rightarrow> db \<Rightarrow> int list \<Rightarrow> Transaction \<Rightarrow> bool" where
  "intended lib script d ids tx \<longleftrightarrow>
     (\<exists>outs change. tx_outputs tx = outs @ change \<and> list_all2 (pays_row lib d (kl_tx_id lib tx)) ids outs \<and>
        length change \<le> 1 \<and> list_all (\<lambda>x. to_script_public_key x = script \<and> 0 < to_value x) change)"

fun safe :: "kaspa_lib \<Rightarrow> ScriptPublicKey \<Rightarrow> db \<Rightarrow> int set \<Rightarrow> effect list \<Rightarrow> bool" where
  "safe lib script d P [] = True"
| "safe lib script d P (Committed d' # es) = (repo_inv d' \<and> forward d d' \<and> safe lib script d' P es)"
| "safe lib script d P (Sent ids tx # es) =
     (intended lib script d ids tx \<and> distinct ids \<and> set ids \<inter> P = {} \<and> safe lib script d (P \<union> set ids) es)"

lemma db_after_append: "db_after d (es @ fs) = db_after (db_after d es) fs"
  by (induction es arbitrary: d rule: sent_rows.induct) simp_all

lemma sent_rows_append: "sent_rows (es @ fs) = sent_rows es @ sent_rows fs"
  by (induction es rule: sent_rows.induct) simp_all

lemma safe_append:
  "safe lib script d P (es @ fs) \<longleftrightarrow>
     safe lib script d P es \<and> safe lib script (db_after d es) (P \<union> set (sent_rows es)) fs"
proof (induction es arbitrary: d P rule: sent_rows.induct)
  case (3 ids tx es)
  then show ?case by (simp add: Un_assoc)
qed auto

lemma safe_take: "safe lib script d P es \<Longrightarrow> safe lib script d P (take n es)"
  by (metis append_take_drop_id safe_append)

lemma safe_distinct: "safe lib script d P es \<Longrightarrow> distinct (sent_rows es) \<and> set (sent_rows es) \<inter> P = {}"
proof (induction lib script d P es rule: safe.induct)
  case (3 lib script d P ids tx es)
  then have "distinct (sent_rows es)" "set (sent_rows es) \<inter> (P \<union> set ids) = {}" "distinct ids" "set ids \<inter> P = {}" by auto
  then show ?case by (auto simp: disjoint_iff)
qed auto

lemma safe_db: "safe lib script d P es \<Longrightarrow> repo_inv d \<Longrightarrow> repo_inv (db_after d es) \<and> forward d (db_after d es)"
proof (induction lib script d P es rule: safe.induct)
  case (2 lib script d P d' es)
  then show ?case by (auto intro: forward_trans)
qed (auto simp: forward_refl)

section \<open>Rows over time\<close>

lemma row_of_known: "keyed po_id (payout_t d) \<Longrightarrow> p \<in> set (rows (payout_t d)) \<Longrightarrow> row_of d (po_id p) = Some p"
  unfolding row_of_def by (rule find_where_key)

lemma row_of_Some: "row_of d i = Some p \<Longrightarrow> p \<in> set (rows (payout_t d)) \<and> po_id p = i"
  unfolding row_of_def by (rule find_where_Some)

lemma repo_inv_keyed: "repo_inv d \<Longrightarrow> keyed po_id (payout_t d)"
  by (simp add: repo_inv_def payouts_inv_def)

lemma row_forward:
  assumes "forward d d'" and "repo_inv d'" and "row_of d i = Some p"
  shows "\<exists>p'. row_of d' i = Some p' \<and> payout_row_key p' = payout_row_key p \<and> payout_edge\<^sup>*\<^sup>* (po_status p) (po_status p')"
proof -
  obtain j where j: "j < length (rows (payout_t d))" "rows (payout_t d) ! j = p"
    using row_of_Some[OF assms(3)] by (auto simp: in_set_conv_nth)
  let ?p = "rows (payout_t d') ! j"
  have adv: "advanced payout_edge po_status payout_row_key (payout_t d) (payout_t d')"
    using assms(1) by (simp add: forward_def)
  then have len: "j < length (rows (payout_t d'))" and k: "payout_row_key ?p = payout_row_key p"
    and e: "payout_edge\<^sup>*\<^sup>* (po_status p) (po_status ?p)"
    using j unfolding advanced_def by auto
  have "row_of d' (po_id ?p) = Some ?p" using row_of_known[OF repo_inv_keyed[OF assms(2)] nth_mem[OF len]] .
  moreover have "po_id ?p = i" using k row_of_Some[OF assms(3)] by simp
  ultimately show ?thesis using k e by auto
qed

definition past_planned :: "db \<Rightarrow> int \<Rightarrow> bool" where
  "past_planned d i \<longleftrightarrow> (\<exists>p. row_of d i = Some p \<and> po_status p \<noteq> Planned)"

lemma no_way_back: "payout_edge\<^sup>*\<^sup>* s Planned \<Longrightarrow> s = Planned"
  using payout_life.steps_up[of s Planned] by (cases s) auto

lemma past_planned_forward: "forward d d' \<Longrightarrow> repo_inv d' \<Longrightarrow> past_planned d i \<Longrightarrow> past_planned d' i"
  unfolding past_planned_def using row_forward no_way_back by metis

section \<open>Ticks as extensions of the log\<close>

definition guarded :: "kaspa_lib \<Rightarrow> ScriptPublicKey \<Rightarrow> int set \<Rightarrow> world \<Rightarrow> world \<Rightarrow> bool" where
  "guarded lib script P w w' \<longleftrightarrow>
     (\<exists>es. wd_log w' = wd_log w @ es \<and> wd_db w' = db_after (wd_db w) es \<and> safe lib script (wd_db w) P es)"

text \<open>Commits only.\<close>

definition settle1 :: "world \<Rightarrow> world \<Rightarrow> bool" where
  "settle1 w w' \<longleftrightarrow> (\<exists>d. w' = commit d w \<and> repo_inv d \<and> forward (wd_db w) d)"

abbreviation settles :: "world \<Rightarrow> world \<Rightarrow> bool" where "settles \<equiv> settle1\<^sup>*\<^sup>*"

lemma guarded_refl: "guarded lib script P w w"
  unfolding guarded_def by (rule exI[of _ "[]"]) simp

lemma settle1_guarded: "settle1 w w1 \<Longrightarrow> guarded lib script P w1 w2 \<Longrightarrow> guarded lib script P w w2"
proof -
  assume "settle1 w w1" "guarded lib script P w1 w2"
  then obtain d es where d: "w1 = commit d w" "repo_inv d" "forward (wd_db w) d"
    and es: "wd_log w2 = wd_log w1 @ es" "wd_db w2 = db_after (wd_db w1) es" "safe lib script (wd_db w1) P es"
    unfolding settle1_def guarded_def by blast
  show ?thesis unfolding guarded_def by (rule exI[of _ "Committed d # es"]) (use d es in \<open>simp add: commit_def\<close>)
qed

lemma settles_guarded: "settles w w1 \<Longrightarrow> guarded lib script P w1 w2 \<Longrightarrow> guarded lib script P w w2"
  by (induction rule: converse_rtranclp_induct) (auto intro: settle1_guarded)

lemma guarded_settle1: "guarded lib script P w w1 \<Longrightarrow> settle1 w1 w2 \<Longrightarrow> guarded lib script P w w2"
proof -
  assume "guarded lib script P w w1" "settle1 w1 w2"
  then obtain d es where d: "w2 = commit d w1" "repo_inv d" "forward (wd_db w1) d"
    and es: "wd_log w1 = wd_log w @ es" "wd_db w1 = db_after (wd_db w) es" "safe lib script (wd_db w) P es"
    unfolding settle1_def guarded_def by blast
  show ?thesis unfolding guarded_def
    by (rule exI[of _ "es @ [Committed d]"]) (use d es in \<open>simp add: commit_def safe_append db_after_append\<close>)
qed

lemma guarded_settles: "settles w1 w2 \<Longrightarrow> guarded lib script P w w1 \<Longrightarrow> guarded lib script P w w2"
  by (induction rule: rtranclp_induct) (auto intro: guarded_settle1)

lemma settles_db: "settles w w' \<Longrightarrow> repo_inv (wd_db w) \<Longrightarrow> repo_inv (wd_db w') \<and> forward (wd_db w) (wd_db w')"
proof (induction rule: rtranclp_induct)
  case (step w1 w2)
  then show ?case by (auto simp: settle1_def commit_def intro: forward_trans)
qed (simp add: forward_refl)

text \<open>A transaction of the repository.\<close>

definition repo_tx :: "(db \<Rightarrow> ('e, 'a \<times> db) outcome) \<Rightarrow> db \<Rightarrow> bool" where
  "repo_tx f d \<longleftrightarrow> (\<forall>a d'. f d = Ok (a, d') \<longrightarrow> repo_inv d' \<and> forward d d')"

lemma w_tx_settles: "repo_tx f (wd_db w) \<Longrightarrow> w_tx f w = (m, w') \<Longrightarrow> settles w w'"
proof (cases "f (wd_db w)")
  case (Ok p)
  assume t: "repo_tx f (wd_db w)" and r: "w_tx f w = (m, w')"
  obtain a d where p: "p = (a, d)" by (cases p)
  have "w' = commit d w" using r Ok p by (simp add: w_tx_def)
  moreover have "repo_inv d \<and> forward (wd_db w) d" using t Ok p by (simp add: repo_tx_def)
  ultimately have "settle1 w w'" unfolding settle1_def by blast
  then show ?thesis by (rule r_into_rtranclp)
qed (auto simp: w_tx_def)

lemma st_bindE:
  assumes "st_bind m k = (r, w')"
  obtains (ok) a w1 where "m = (Ok a, w1)" "k a w1 = (r, w')"
  | (stop) x where "m = (x, w')" "\<not> is_ok x" "\<not> is_ok r"
proof -
  obtain x w1 where m: "m = (x, w1)" by (cases m)
  show thesis using assms ok stop unfolding m by (cases x) auto
qed

lemma st_map_errE:
  assumes "st_map_err g m = (r, w')"
  obtains x where "m = (x, w')" "r = map_err g x"
  using assms by (cases m) auto

lemma st_map_err_OkE: assumes "st_map_err g m = (Ok a, w')" obtains "m = (Ok a, w')"
  using assms by (cases m; cases "fst m") auto

lemma st_bind_OkE:
  assumes "st_bind m k = (Ok b, w')"
  obtains a w1 where "m = (Ok a, w1)" "k a w1 = (Ok b, w')"
  using assms by (cases m; cases "fst m") auto

lemma liftE: assumes "lift m w = (r, w')" obtains "r = m" "w' = w"
  using assms by (simp add: lift_def)

lemma repo_steps_tx: "repo_step\<^sup>*\<^sup>* d d' \<Longrightarrow> repo_inv d \<Longrightarrow> repo_inv d' \<and> forward d d'"
proof (induction rule: rtranclp_induct)
  case (step d1 d2)
  then show ?case using repo_step_inv repo_step_forward forward_trans by blast
qed (simp add: forward_refl)

lemma audit_same: "audit_append now e d = Ok (a, d') \<Longrightarrow> payout_t d' = payout_t d \<and> cycle_t d' = cycle_t d \<and> krc20_t d' = krc20_t d"
  by (auto simp: audit_append_def)

lemma same_tables:
  assumes "payout_t d' = payout_t d \<and> cycle_t d' = cycle_t d \<and> krc20_t d' = krc20_t d"
  shows "repo_inv d \<Longrightarrow> repo_inv d'" and "forward d d'"
  using assms by (simp_all add: repo_inv_def payouts_inv_def cycles_inv_def krc20s_inv_def links_inv_def forward_def
      payout_life.advanced_refl cycle_life.advanced_refl krc20_life.advanced_refl)

lemma audit_tx: "repo_inv d \<Longrightarrow> repo_tx (audit_append now e) d"
  unfolding repo_tx_def using same_tables[OF audit_same] by blast

section \<open>Recording the intent\<close>

lemma row_of_update:
  assumes "\<And>p. po_id (f p) = po_id p"
  shows "row_of (d\<lparr> payout_t := update_where P f (payout_t d) \<rparr>) i = map_option (\<lambda>p. if P p then f p else p) (row_of d i)"
proof -
  have "(\<lambda>p. po_id p = i) \<circ> (\<lambda>p. if P p then f p else p) = (\<lambda>p. po_id p = i)" using assms by (auto simp: fun_eq_iff)
  then have "find (\<lambda>p. po_id p = i) (map (\<lambda>p. if P p then f p else p) xs) =
      map_option (\<lambda>p. if P p then f p else p) (find (\<lambda>p. po_id p = i) xs)" for xs
    using assms by (induction xs) auto
  then show ?thesis by (simp add: row_of_def find_where_def update_where_def)
qed

definition submitted_as :: "hash_bytes \<Rightarrow> Payout \<Rightarrow> Payout \<Rightarrow> bool" where
  "submitted_as h p p' \<longleftrightarrow> payout_row_key p' = payout_row_key p \<and> po_status p' = Submitted \<and> po_tx_hash p' = Some h"

lemma mark_submitted_row:
  assumes "mark_payout_submitted now i h d = Ok (u, d')"
  shows "j \<noteq> i \<Longrightarrow> row_of d' j = row_of d j"
    and "row_of d i = Some p \<Longrightarrow> po_status p \<in> {Planned, Submitted} \<Longrightarrow> \<exists>p'. row_of d' i = Some p' \<and> submitted_as h p p'"
    and "wallet_t d' = wallet_t d"
proof -
  let ?P = "\<lambda>p. po_id p = i \<and> po_status p \<in> {Planned, Submitted}"
  let ?f = "\<lambda>p. p\<lparr> po_status := Submitted, po_tx_hash := Some h, po_submitted_at := coalesce (po_submitted_at p) now \<rparr>"
  have d': "d' = d\<lparr> payout_t := update_where ?P ?f (payout_t d) \<rparr>"
    using assms by (auto simp: mark_payout_submitted_def table_update_Ok)
  have r: "row_of d' k = map_option (\<lambda>p. if ?P p then ?f p else p) (row_of d k)" for k
    unfolding d' by (rule row_of_update) simp
  show "wallet_t d' = wallet_t d" by (simp add: d')
  show "row_of d' j = row_of d j" if "j \<noteq> i"
    using that row_of_Some[of d j] by (cases "row_of d j") (auto simp: r)
  show "\<exists>p'. row_of d' i = Some p' \<and> submitted_as h p p'" if "row_of d i = Some p" "po_status p \<in> {Planned, Submitted}"
    using that row_of_Some[OF that(1)] by (simp add: r submitted_as_def)
qed

lemma record_intent_steps:
  assumes "try_fold (\<lambda>d i. and_then (mark_payout_submitted now i h d) (\<lambda>(_, d). Ok d)) d ids = Ok d'"
  shows "repo_step\<^sup>*\<^sup>* d d' \<and> wallet_t d' = wallet_t d \<and> (\<forall>j. j \<notin> set ids \<longrightarrow> row_of d' j = row_of d j) \<and>
    (\<forall>j p. j \<in> set ids \<and> row_of d j = Some p \<and> po_status p \<in> {Planned, Submitted} \<longrightarrow>
       (\<exists>p'. row_of d' j = Some p' \<and> submitted_as h p p'))"
  using assms
proof (induction ids arbitrary: d)
  case (Cons i ids)
  obtain d1 where m: "mark_payout_submitted now i h d = Ok ((), d1)"
    and rest: "try_fold (\<lambda>d i. and_then (mark_payout_submitted now i h d) (\<lambda>(_, d). Ok d)) d1 ids = Ok d'"
    using Cons.prems by (auto simp: outcome_simps)
  note M = mark_submitted_row[OF m]
  note IH = Cons.IH[OF rest]
  have "repo_step d d1" using m by (rule repo_step.intros)
  then have steps: "repo_step\<^sup>*\<^sup>* d d'" using IH by (metis converse_rtranclp_into_rtranclp)
  have frame: "row_of d' j = row_of d j" if "j \<notin> set (i # ids)" for j using that IH M(1)[of j] by simp
  have hit: "\<exists>p'. row_of d' j = Some p' \<and> submitted_as h p p'"
    if hyp: "j \<in> set (i # ids)" "row_of d j = Some p" "po_status p \<in> {Planned, Submitted}" for j p
  proof (cases "j = i")
    case True
    obtain p1 where p1: "row_of d1 i = Some p1" "submitted_as h p p1" using M(2) hyp True by blast
    show ?thesis
    proof (cases "i \<in> set ids")
      case True
      have "po_status p1 \<in> {Planned, Submitted}" using p1(2) by (simp add: submitted_as_def)
      with True p1(1) IH obtain p' where "row_of d' i = Some p'" "submitted_as h p1 p'" by blast
      then show ?thesis using p1(2) \<open>j = i\<close> by (auto simp: submitted_as_def)
    next
      case False
      then show ?thesis using IH p1 \<open>j = i\<close> by auto
    qed
  next
    case False
    then have "row_of d1 j = Some p" using M(1) hyp(2) by simp
    then show ?thesis using IH hyp False by auto
  qed
  show ?case using steps frame hit IH M(3) by auto
qed simp

lemma record_intent_ok:
  assumes "record_intent now ids h d = Ok (u, d')"
  shows "repo_step\<^sup>*\<^sup>* d d'" and "wallet_t d' = wallet_t d" and "j \<notin> set ids \<Longrightarrow> row_of d' j = row_of d j"
    and "j \<in> set ids \<Longrightarrow> row_of d j = Some p \<Longrightarrow> po_status p = Planned \<Longrightarrow> \<exists>p'. row_of d' j = Some p' \<and> submitted_as h p p'"
proof -
  have t: "try_fold (\<lambda>d i. and_then (mark_payout_submitted now i h d) (\<lambda>(_, d). Ok d)) d ids = Ok d'"
    using assms by (auto simp: record_intent_def outcome_simps)
  note R = record_intent_steps[OF t]
  show "repo_step\<^sup>*\<^sup>* d d'" and "wallet_t d' = wallet_t d" using R by simp_all
  show "row_of d' j = row_of d j" if "j \<notin> set ids" using R that by simp
  show "\<exists>p'. row_of d' j = Some p' \<and> submitted_as h p p'" if "j \<in> set ids" "row_of d j = Some p" "po_status p = Planned"
    using R that by simp
qed

section \<open>What is signed\<close>

text \<open>Signing fills in signature scripts: the outputs and the coins stay.\<close>

definition signs_only :: "kaspa_lib \<Rightarrow> bool" where
  "signs_only lib \<longleftrightarrow>
     (\<forall>tx es. tx_outputs (kl_sign lib tx es) = tx_outputs tx \<and>
        map ti_previous_outpoint (tx_inputs (kl_sign lib tx es)) = map ti_previous_outpoint (tx_inputs tx))"

definition payout_outputs :: "PayoutRecipient list \<Rightarrow> TransactionOutput list" where
  "payout_outputs = map (\<lambda>p. \<lparr> to_value = pr_amount_sompi p, to_script_public_key = pr_script_public_key p \<rparr>)"

definition change_outputs :: "ScriptPublicKey \<Rightarrow> int \<Rightarrow> TransactionOutput list" where
  "change_outputs script change = (if 0 < change then [\<lparr> to_value = change, to_script_public_key = script \<rparr>] else [])"

lemma sign_batch_tx:
  assumes "sign_batch lib b script = Ok s" and "signs_only lib"
  shows "tx_outputs (sb_tx s) = payout_outputs (pb_payouts b) @ change_outputs script (pb_change_amount_sompi b)"
    and "map ti_previous_outpoint (tx_inputs (sb_tx s)) = map tu_outpoint (pb_inputs b)"
    and "pb_inputs b \<noteq> []" and "\<not> list_ex is_planning_virtual (pb_inputs b)" and "sb_entries s = map tu_entry (pb_inputs b)"
proof -
  obtain tx es where u: "build_unsigned lib b script = Ok (tx, es)" and s: "s = \<lparr> sb_tx = kl_sign lib tx es, sb_entries = es \<rparr>"
    using assms(1) by (auto simp: sign_batch_def Let_def outcome_simps split: if_split_asm)
  have b: "pb_inputs b \<noteq> []" "\<not> list_ex is_planning_virtual (pb_inputs b)"
    using u by (auto simp: build_unsigned_def split: if_split_asm)
  then have tx: "tx_outputs tx = payout_outputs (pb_payouts b) @ change_outputs script (pb_change_amount_sompi b)"
    "map ti_previous_outpoint (tx_inputs tx) = map tu_outpoint (pb_inputs b)" "es = map tu_entry (pb_inputs b)"
    using u by (auto simp: build_unsigned_def payout_outputs_def change_outputs_def comp_def)
  show "tx_outputs (sb_tx s) = payout_outputs (pb_payouts b) @ change_outputs script (pb_change_amount_sompi b)"
    and "map ti_previous_outpoint (tx_inputs (sb_tx s)) = map tu_outpoint (pb_inputs b)"
    using assms(2) tx unfolding signs_only_def s by simp_all
  show "pb_inputs b \<noteq> []" and "\<not> list_ex is_planning_virtual (pb_inputs b)" by (rule b)+
  show "sb_entries s = map tu_entry (pb_inputs b)" using s tx(3) by simp
qed

lemma exact_fee_cases:
  assumes "sign_batch_with_exact_fee lib b script fr ev = Ok s"
  obtains change where "sign_batch lib (b\<lparr> pb_change_amount_sompi := change \<rparr>) script = Ok s"
    "change = pb_change_amount_sompi b \<or>
      (reserves_fee fr \<and> (\<exists>p t. sign_batch lib b script = Ok p \<and> evaluate_populated ev (sb_tx p) (sb_entries p) = Ok t \<and>
         0 \<le> change \<and> total_paid (pb_payouts b) + change + fee_for fr t \<le> total_in (pb_inputs b)))"
proof -
  obtain p where p: "sign_batch lib b script = Ok p"
    using assms by (auto simp: sign_batch_with_exact_fee_def outcome_simps)
  have same: "b\<lparr> pb_change_amount_sompi := pb_change_amount_sompi b \<rparr> = b" by simp
  show thesis
  proof (cases "s = p")
    case True
    then show ?thesis using that[of "pb_change_amount_sompi b"] p by simp
  next
    case False
    then have rf: "reserves_fee fr" using assms p by (auto simp: sign_batch_with_exact_fee_def split: if_split_asm)
    obtain t where t: "evaluate_populated ev (sb_tx p) (sb_entries p) = Ok t"
      using assms p rf by (auto simp: sign_batch_with_exact_fee_def outcome_simps)
    obtain i where i: "(sum_u64 (map tu_amount (pb_inputs b)) :: (ExecuteError, int) outcome) = Ok i"
      using assms p rf t by (auto simp: sign_batch_with_exact_fee_def Let_def outcome_simps)
    obtain q where q: "(sum_u64 (map pr_amount_sompi (pb_payouts b)) :: (ExecuteError, int) outcome) = Ok q"
      using assms p rf t i by (auto simp: sign_batch_with_exact_fee_def Let_def outcome_simps)
    have iq: "i = total_in (pb_inputs b)" "q = total_paid (pb_payouts b)" using i q sum_from_Ok by fastforce+
    show ?thesis
    proof (cases "Option.bind (checked 0 u64_max (i - q)) (\<lambda>rem. checked 0 u64_max (rem - fee_for fr t))")
      case None
      then show ?thesis using assms p rf t i q False by (simp add: sign_batch_with_exact_fee_def Let_def)
    next
      case (Some c)
      then have c: "0 \<le> c" "q + c + fee_for fr t = i"
        by (auto simp: bind_eq_Some_conv checked_def in_range_def split: if_split_asm)
      define change where "change = (if c \<noteq> 0 \<and> is_change_dust (me_calculator ev) c script then 0 else c)"
      have "sign_batch lib (b\<lparr> pb_change_amount_sompi := change \<rparr>) script = Ok s"
        using assms p rf t i q Some False unfolding sign_batch_with_exact_fee_def Let_def change_def
        by (auto simp: map_err_iff split: if_split_asm)
      moreover have "0 \<le> change" "change \<le> c" using c(1) by (simp_all add: change_def)
      ultimately show ?thesis using that[of change] p t rf c(2) iq by auto
    qed
  qed
qed

section \<open>One batch\<close>

lemma show_int_inj: "show_int i = show_int j \<Longrightarrow> i = j"
proof -
  assume eq: "show_int i = show_int j"
  have nodash: "show_nat n \<noteq> CHR ''-'' # xs" for n xs using no_dash[of n] by auto
  show ?thesis using eq nodash nodash[symmetric]
    by (auto simp: show_int_def split: if_split_asm dest!: show_nat_inj)
qed

lemma rows_by_id_Some:
  assumes "distinct (map po_id ps)" and "p \<in> set ps"
  shows "rows_by_id ps (show_int (po_id p)) = Some p"
proof -
  have "foldl (\<lambda>m p. m(show_int (po_id p) \<mapsto> p)) m qs (show_int (po_id p)) =
      (if p \<in> set qs then Some p else m (show_int (po_id p)))"
    if "set qs \<subseteq> set ps" for qs m
    using that
  proof (induction qs rule: rev_induct)
    case (snoc q qs)
    have "q = p" if "show_int (po_id q) = show_int (po_id p)"
      using show_int_inj[OF that] assms snoc.prems by (auto simp: distinct_map inj_on_def)
    then show ?case using snoc by auto
  qed simp
  from this[of ps "\<lambda>_. None"] show ?thesis using assms(2) by (simp add: rows_by_id_def)
qed

lemma recipient_of_Ok:
  assumes "recipient_of lib d p = Ok r"
  shows "pr_id r = show_int (po_id p)" and "pr_amount_sompi r = po_amount_sompi p" and "0 \<le> po_amount_sompi p"
    and "\<exists>w a. wallet_get_by_id (po_wallet_id p) d = Ok w \<and> kl_parse_address lib (wal_address w) = Some a \<and>
      pr_script_public_key r = kl_pay_to_address_script lib a"
  using assms by (auto simp: recipient_of_def outcome_simps split: if_split_asm)

text \<open>A recipient stands for a planned row of the database.\<close>

definition stands_for :: "kaspa_lib \<Rightarrow> db \<Rightarrow> Payout list \<Rightarrow> db \<Rightarrow> PayoutRecipient \<Rightarrow> bool" where
  "stands_for lib d0 ps d r \<longleftrightarrow>
     (\<exists>p \<in> set ps. recipient_of lib d0 p = Ok r \<and> row_of d (po_id p) = Some p \<and> po_status p = Planned)"

lemma resolve_ids:
  assumes "resolve_rows (rows_by_id ps) rs = Ok ids" and "distinct (map po_id ps)" and "list_all (stands_for lib d0 ps d) rs"
  shows "list_all2 (\<lambda>r i. \<exists>p \<in> set ps. po_id p = i \<and> recipient_of lib d0 p = Ok r \<and> row_of d i = Some p \<and> po_status p = Planned) rs ids"
    and "map show_int ids = map pr_id rs"
proof -
  have l2: "list_all2 (\<lambda>r i. ok_or (UnknownRecipient (pr_id r)) (map_option po_id (rows_by_id ps (pr_id r))) = Ok i) rs ids"
    using assms(1) unfolding resolve_rows_def traverse_Ok_iff .
  have one: "\<exists>p \<in> set ps. po_id p = i \<and> recipient_of lib d0 p = Ok r \<and> row_of d i = Some p \<and> po_status p = Planned"
    if r: "r \<in> set rs" and i: "ok_or (UnknownRecipient (pr_id r)) (map_option po_id (rows_by_id ps (pr_id r))) = Ok i" for r i
  proof -
    obtain p where p: "p \<in> set ps" "recipient_of lib d0 p = Ok r" "row_of d (po_id p) = Some p" "po_status p = Planned"
      using assms(3) r by (auto simp: list_all_iff stands_for_def)
    have "po_id p = i" using i rows_by_id_Some[OF assms(2) p(1)] recipient_of_Ok(1)[OF p(2)] by simp
    then show ?thesis using p by blast
  qed
  show l: "list_all2 (\<lambda>r i. \<exists>p \<in> set ps. po_id p = i \<and> recipient_of lib d0 p = Ok r \<and> row_of d i = Some p \<and> po_status p = Planned) rs ids"
    using l2 one unfolding list_all2_conv_all_nth by simp
  show "map show_int ids = map pr_id rs"
    using l by (induction rule: list_all2_induct) (auto dest: recipient_of_Ok(1))
qed

lemma send_batch_cases:
  assumes "send_batch lib client now mode script fr by_id b report w = (m, w')"
  obtains (nothing) "w' = w"
  | (sent) ids sb d' u where "mode = Live" "resolve_rows by_id (pb_payouts b) = Ok ids"
      "sign_batch_with_exact_fee lib b script fr (mainnet (kl_consensus lib)) = Ok sb"
      "record_intent now ids (kl_tx_id lib (sb_tx sb)) (wd_db w) = Ok (u, d')"
      "w' = send ids (sb_tx sb) (commit d' w)"
proof -
  note D = send_batch_def lift_def is_dry_run_def w_tx_def Let_def
  consider (fail) "w' = w" | (go) ids sb u d' where "mode = Live" "resolve_rows by_id (pb_payouts b) = Ok ids"
      "sign_batch_with_exact_fee lib b script fr (mainnet (kl_consensus lib)) = Ok sb"
      "record_intent now ids (kl_tx_id lib (sb_tx sb)) (wd_db w) = Ok (u, d')"
  proof -
    assume f: "w' = w \<Longrightarrow> thesis" and g: "\<And>ids sb u d'. mode = Live \<Longrightarrow> resolve_rows by_id (pb_payouts b) = Ok ids \<Longrightarrow>
      sign_batch_with_exact_fee lib b script fr (mainnet (kl_consensus lib)) = Ok sb \<Longrightarrow>
      record_intent now ids (kl_tx_id lib (sb_tx sb)) (wd_db w) = Ok (u, d') \<Longrightarrow> thesis"
    show thesis
    proof (cases "resolve_rows by_id (pb_payouts b)")
      case (Ok ids)
      note ids = Ok
      show thesis
      proof (cases "sign_batch_with_exact_fee lib b script fr (mainnet (kl_consensus lib))")
        case (Ok sb)
        note sb = Ok
        show thesis
        proof (cases mode)
          case Live
          show thesis
          proof (cases "record_intent now ids (kl_tx_id lib (sb_tx sb)) (wd_db w)")
            case (Ok r)
            then show thesis using g[OF Live ids sb] by (cases r) simp
          qed (rule f, use assms ids sb Live in \<open>simp add: D\<close>)+
        qed (rule f, use assms ids sb in \<open>simp add: D\<close>)
      qed (rule f, use assms ids in \<open>simp add: D\<close>)+
    qed (rule f, use assms in \<open>simp add: D\<close>)+
  qed
  then show thesis
  proof cases
    case (go ids sb u d')
    have "w' = send ids (sb_tx sb) (commit d' w)"
      using assms go by (cases "submit_transaction client (sb_tx sb) False") (simp_all add: D)
    then show thesis using sent[OF go] by blast
  qed (rule nothing)
qed

lemma wallet_get_cong: "wallet_t d' = wallet_t d \<Longrightarrow> wallet_get_by_id i d' = wallet_get_by_id i d"
  by (simp add: wallet_get_by_id_def)

lemma exact_fee_outputs:
  assumes "sign_batch_with_exact_fee lib b script fr ev = Ok sb" and "signs_only lib"
  shows "\<exists>change. tx_outputs (sb_tx sb) = payout_outputs (pb_payouts b) @ change_outputs script change"
proof -
  obtain change where "sign_batch lib (b\<lparr> pb_change_amount_sompi := change \<rparr>) script = Ok sb"
    using exact_fee_cases[OF assms(1)] by blast
  from sign_batch_tx(1)[OF this assms(2)] show ?thesis by auto
qed

text \<open>The intent of a batch, once committed.\<close>

lemma intent_committed:
  assumes ids: "resolve_rows (rows_by_id ps) (pb_payouts b) = Ok ids" and "distinct (map po_id ps)"
    and sf: "list_all (stands_for lib d0 ps d) (pb_payouts b)" and "distinct (map pr_id (pb_payouts b))"
    and sb: "sign_batch_with_exact_fee lib b script fr ev = Ok sb" and lib: "signs_only lib"
    and rec: "record_intent now ids (kl_tx_id lib (sb_tx sb)) d = Ok (u, d')" and wal: "wallet_t d = wallet_t d0"
    and P: "\<forall>i \<in> P. past_planned d i"
  shows "intended lib script d' ids (sb_tx sb)" and "distinct ids" and "set ids \<inter> P = {}"
    and "set ids \<subseteq> po_id ` set ps" and "\<forall>i \<in> set ids. past_planned d' i"
    and "set (map show_int ids) \<subseteq> pr_id ` set (pb_payouts b)"
proof -
  let ?h = "kl_tx_id lib (sb_tx sb)"
  note R = resolve_ids[OF ids assms(2) sf]
  note I = record_intent_ok[OF rec]
  obtain change where out: "tx_outputs (sb_tx sb) = payout_outputs (pb_payouts b) @ change_outputs script change"
    using exact_fee_outputs[OF sb lib] by blast
  have len: "length ids = length (pb_payouts b)" using list_all2_lengthD[OF R(1)] by simp
  have planned: "\<exists>p \<in> set ps. po_id p = ids ! k \<and> recipient_of lib d0 p = Ok (pb_payouts b ! k) \<and>
      row_of d (ids ! k) = Some p \<and> po_status p = Planned" if "k < length ids" for k
    using R(1) that len by (simp add: list_all2_conv_all_nth)
  have row: "\<exists>p. row_of d i = Some p \<and> po_status p = Planned \<and> i \<in> po_id ` set ps" if i: "i \<in> set ids" for i
  proof -
    obtain k where k: "k < length ids" "ids ! k = i" using i by (auto simp: in_set_conv_nth)
    from planned[OF k(1)] show ?thesis unfolding k(2) by blast
  qed
  have "pays_row lib d' ?h (ids ! k) (payout_outputs (pb_payouts b) ! k)" if k: "k < length ids" for k
  proof -
    obtain p where p: "po_id p = ids ! k" "recipient_of lib d0 p = Ok (pb_payouts b ! k)"
      "row_of d (ids ! k) = Some p" "po_status p = Planned" using planned[OF k] by blast
    obtain p' where p': "row_of d' (ids ! k) = Some p'" "submitted_as ?h p p'"
      using I(4)[OF nth_mem[OF k] p(3,4)] by blast
    obtain w a where "wallet_get_by_id (po_wallet_id p) d0 = Ok w" "kl_parse_address lib (wal_address w) = Some a"
      "pr_script_public_key (pb_payouts b ! k) = kl_pay_to_address_script lib a"
      using recipient_of_Ok(4)[OF p(2)] by blast
    moreover have "wallet_get_by_id (po_wallet_id p) d' = wallet_get_by_id (po_wallet_id p) d0"
      by (rule wallet_get_cong) (simp add: I(2) wal)
    ultimately show ?thesis
      using p'(2) k len by (auto simp: pays_row_def p'(1) submitted_as_def payout_outputs_def recipient_of_Ok(2)[OF p(2)])
  qed
  then have l2: "list_all2 (pays_row lib d' ?h) ids (payout_outputs (pb_payouts b))"
    using len by (simp add: list_all2_conv_all_nth payout_outputs_def)
  show "intended lib script d' ids (sb_tx sb)"
    unfolding intended_def out
    by (rule exI[of _ "payout_outputs (pb_payouts b)"], rule exI[of _ "change_outputs script change"]) (simp add: l2 change_outputs_def)
  have "distinct (map show_int ids)" using assms(4) R(2) by simp
  then show "distinct ids" by (simp add: distinct_map)
  show "set ids \<inter> P = {}" using row P by (fastforce simp: past_planned_def)
  show "set ids \<subseteq> po_id ` set ps" using row by blast
  show "\<forall>i \<in> set ids. past_planned d' i"
  proof
    fix i assume i: "i \<in> set ids"
    then obtain p where "row_of d i = Some p" "po_status p = Planned" using row by blast
    from I(4)[OF i this] show "past_planned d' i" by (auto simp: past_planned_def submitted_as_def)
  qed
  show "set (map show_int ids) \<subseteq> pr_id ` set (pb_payouts b)" unfolding R(2) by simp
qed

text \<open>An extension of the log that is safe, with what it has paid.\<close>

definition extends ::
  "kaspa_lib \<Rightarrow> ScriptPublicKey \<Rightarrow> int set \<Rightarrow> world \<Rightarrow> world \<Rightarrow> effect list \<Rightarrow> bool" where
  "extends lib script P w w' es \<longleftrightarrow>
     wd_log w' = wd_log w @ es \<and> wd_db w' = db_after (wd_db w) es \<and> safe lib script (wd_db w) P es \<and>
     repo_inv (wd_db w') \<and> (\<forall>i \<in> P \<union> set (sent_rows es). past_planned (wd_db w') i)"

lemma extends_trans:
  assumes "extends lib script P w w1 es" and "extends lib script (P \<union> set (sent_rows es)) w1 w2 fs"
  shows "extends lib script P w w2 (es @ fs)"
  using assms by (auto simp: extends_def safe_append db_after_append sent_rows_append)

lemma extends_refl: "repo_inv (wd_db w) \<Longrightarrow> \<forall>i \<in> P. past_planned (wd_db w) i \<Longrightarrow> extends lib script P w w []"
  by (simp add: extends_def)

lemma send_batch_ok:
  assumes r: "send_batch lib client now mode script fr (rows_by_id ps) b report w = (m, w')"
    and inv: "repo_inv (wd_db w)" and lib: "signs_only lib" and ps: "distinct (map po_id ps)" and wal: "wallet_t (wd_db w) = wallet_t d0"
    and sf: "list_all (stands_for lib d0 ps (wd_db w)) (pb_payouts b)" and dist: "distinct (map pr_id (pb_payouts b))"
    and P: "\<forall>i \<in> P. past_planned (wd_db w) i"
  shows "\<exists>es. extends lib script P w w' es \<and> wallet_t (wd_db w') = wallet_t d0 \<and> set (sent_rows es) \<subseteq> po_id ` set ps \<and>
    (\<forall>i. show_int i \<notin> pr_id ` set (pb_payouts b) \<longrightarrow> row_of (wd_db w') i = row_of (wd_db w) i)"
  using r
proof (cases rule: send_batch_cases)
  case nothing
  then show ?thesis using extends_refl[OF inv P] wal by (intro exI[of _ "[]"]) simp
next
  case (sent ids sb d' u)
  note C = intent_committed[OF sent(2) ps sf dist sent(3) lib sent(4) wal P]
  note I = record_intent_ok[OF sent(4)]
  have d': "repo_inv d'" "forward (wd_db w) d'" using repo_steps_tx[OF I(1) inv] by simp_all
  have "\<forall>i \<in> P. past_planned d' i" using P past_planned_forward[OF d'(2,1)] by blast
  then have "extends lib script P w w' [Committed d', Sent ids (sb_tx sb)]"
    using d' C(1,2,3,5) by (auto simp: extends_def sent(5) send_def commit_def)
  moreover have "row_of (wd_db w') i = row_of (wd_db w) i" if "show_int i \<notin> pr_id ` set (pb_payouts b)" for i
  proof -
    have "i \<notin> set ids" using that C(6) by auto
    then show ?thesis using I(3) by (simp add: sent(5) send_def commit_def)
  qed
  moreover have "wallet_t (wd_db w') = wallet_t d0" using I(2) wal by (simp add: sent(5) send_def commit_def)
  ultimately show ?thesis using C(4) by (intro exI[of _ "[Committed d', Sent ids (sb_tx sb)]"]) simp
qed

lemma stands_for_same:
  assumes "stands_for lib d0 ps d r" and "\<And>i. show_int i = pr_id r \<Longrightarrow> row_of d' i = row_of d i"
  shows "stands_for lib d0 ps d' r"
proof -
  obtain p where p: "p \<in> set ps" "recipient_of lib d0 p = Ok r" "row_of d (po_id p) = Some p" "po_status p = Planned"
    using assms(1) unfolding stands_for_def by blast
  have "row_of d' (po_id p) = Some p" using assms(2) recipient_of_Ok(1)[OF p(2)] p(3) by simp
  then show ?thesis using p unfolding stands_for_def by blast
qed

lemma send_batches_ok:
  assumes lib: "signs_only lib" and ps: "distinct (map po_id ps)"
  shows "send_batches (send_batch lib client now mode script fr (rows_by_id ps)) bs report w = (m, w') \<Longrightarrow>
    repo_inv (wd_db w) \<Longrightarrow> wallet_t (wd_db w) = wallet_t d0 \<Longrightarrow>
    list_all (stands_for lib d0 ps (wd_db w)) (concat (map pb_payouts bs)) \<Longrightarrow>
    distinct (map pr_id (concat (map pb_payouts bs))) \<Longrightarrow> \<forall>i \<in> P. past_planned (wd_db w) i \<Longrightarrow>
    \<exists>es. extends lib script P w w' es \<and> set (sent_rows es) \<subseteq> po_id ` set ps"
proof (induction bs arbitrary: report w P)
  case Nil
  then show ?case using extends_refl[of w P] by (intro exI[of _ "[]"]) simp
next
  case (Cons b bs)
  let ?f = "send_batch lib client now mode script fr (rows_by_id ps)"
  obtain m1 w1 where f: "?f b report w = (m1, w1)" by (cases "?f b report w")
  have sf: "list_all (stands_for lib d0 ps (wd_db w)) (pb_payouts b)"
    "list_all (stands_for lib d0 ps (wd_db w)) (concat (map pb_payouts bs))" using Cons.prems(4) by simp_all
  have dist: "distinct (map pr_id (pb_payouts b))" "distinct (map pr_id (concat (map pb_payouts bs)))"
    "pr_id ` set (pb_payouts b) \<inter> pr_id ` set (concat (map pb_payouts bs)) = {}"
    using Cons.prems(5) by (auto simp: distinct_append)
  obtain es where E: "extends lib script P w w1 es" "wallet_t (wd_db w1) = wallet_t d0" "set (sent_rows es) \<subseteq> po_id ` set ps"
    and row: "\<And>i. show_int i \<notin> pr_id ` set (pb_payouts b) \<Longrightarrow> row_of (wd_db w1) i = row_of (wd_db w) i"
    using send_batch_ok[OF f Cons.prems(2) lib ps Cons.prems(3) sf(1) dist(1) Cons.prems(6)] by blast
  show ?case
  proof (cases m1)
    case (Ok report1)
    have "stands_for lib d0 ps (wd_db w1) r" if r: "r \<in> set (concat (map pb_payouts bs))" for r
    proof (rule stands_for_same)
      show "stands_for lib d0 ps (wd_db w) r" using sf(2) r unfolding list_all_iff by blast
      show "row_of (wd_db w1) i = row_of (wd_db w) i" if "show_int i = pr_id r" for i
        by (rule row) (use that r dist(3) in force)
    qed
    then have sf1: "list_all (stands_for lib d0 ps (wd_db w1)) (concat (map pb_payouts bs))" unfolding list_all_iff by blast
    have "send_batches ?f bs report1 w1 = (m, w')" using Cons.prems(1) f Ok by simp
    from Cons.IH[OF this _ E(2) sf1 dist(2), of "P \<union> set (sent_rows es)"] E(1)
    obtain fs where "extends lib script (P \<union> set (sent_rows es)) w1 w' fs" "set (sent_rows fs) \<subseteq> po_id ` set ps"
      unfolding extends_def by blast
    then show ?thesis using extends_trans[OF E(1)] E(3)
      by (intro exI[of _ "es @ fs"]) (simp add: sent_rows_append)
  qed (use Cons.prems(1) f E in auto)
qed

section \<open>A whole tick\<close>

lemma settles_extends:
  assumes "settles w w'" and "repo_inv (wd_db w)" and "\<forall>i \<in> P. past_planned (wd_db w) i"
  shows "\<exists>es. extends lib script P w w' es \<and> sent_rows es = []"
  using assms(1)
proof (induction rule: rtranclp_induct)
  case base
  show ?case using extends_refl[OF assms(2,3)] by (intro exI[of _ "[]"]) simp
next
  case (step w1 w2)
  then obtain es where es: "extends lib script P w w1 es" "sent_rows es = []" by blast
  obtain d where d: "w2 = commit d w1" "repo_inv d" "forward (wd_db w1) d" using step.hyps(2) unfolding settle1_def by blast
  have "extends lib script (P \<union> set (sent_rows es)) w1 w2 [Committed d]"
    using es d past_planned_forward[OF d(3,2)] by (auto simp: extends_def commit_def)
  from extends_trans[OF es(1) this] es(2) show ?case by (intro exI[of _ "es @ [Committed d]"]) (simp add: sent_rows_append)
qed

lemma extends_settles:
  assumes "extends lib script P w w1 es" and "settles w1 w2"
  shows "\<exists>fs. extends lib script P w w2 fs \<and> sent_rows fs = sent_rows es"
proof -
  have "repo_inv (wd_db w1)" "\<forall>i \<in> P \<union> set (sent_rows es). past_planned (wd_db w1) i"
    using assms(1) unfolding extends_def by blast+
  from settles_extends[OF assms(2) this] obtain fs where "extends lib script (P \<union> set (sent_rows es)) w1 w2 fs" "sent_rows fs = []" by blast
  with extends_trans[OF assms(1)] show ?thesis by (intro exI[of _ "es @ fs"]) (simp add: sent_rows_append)
qed

lemma settles_then_extends:
  assumes "settles w w1" and "repo_inv (wd_db w)" and "\<forall>i \<in> P. past_planned (wd_db w) i" and "extends lib script P w1 w2 es"
  shows "\<exists>fs. extends lib script P w w2 fs \<and> sent_rows fs = sent_rows es"
proof -
  obtain fs where fs: "extends lib script P w w1 fs" "sent_rows fs = []" using settles_extends[OF assms(1-3)] by blast
  have "extends lib script P w w2 (fs @ es)" using extends_trans[OF fs(1)] assms(4) fs(2) by simp
  then show ?thesis using fs(2) by (intro exI[of _ "fs @ es"]) (simp add: sent_rows_append)
qed

text \<open>The transactions of the other phases.\<close>

lemma plan_wallet_step: "plan_wallet now c (d, a, b) k = Ok (d1, a1, b1) \<Longrightarrow> repo_step d d1"
  by (auto simp: plan_wallet_def outcome_simps intro: repo_step.intros)

lemma plan_wallets_steps: "try_fold (plan_wallet now c) (d, a, b) ks = Ok (d', a', b') \<Longrightarrow> repo_step\<^sup>*\<^sup>* d d'"
proof (induction ks arbitrary: d a b)
  case (Cons k ks)
  obtain st where st: "plan_wallet now c (d, a, b) k = Ok st" and t: "try_fold (plan_wallet now c) st ks = Ok (d', a', b')"
    using Cons.prems by (auto elim: and_then_OkE)
  obtain d1 a1 b1 where s: "st = (d1, a1, b1)" by (cases st)
  show ?case using plan_wallet_step[OF st[unfolded s]] Cons.IH[OF t[unfolded s]] by (rule converse_rtranclp_into_rtranclp)
qed simp

lemma plan_tx_steps: "plan_tx now params d = Ok (i, d') \<Longrightarrow> repo_step\<^sup>*\<^sup>* d d'"
proof -
  assume "plan_tx now params d = Ok (i, d')"
  then obtain c d1 ks d2 a b where c: "create_cycle now Kas (pk_daa_start params) (pk_daa_end params) d = Ok (c, d1)"
    and f: "try_fold (plan_wallet now (cy_id c)) (d1, 0, 0) ks = Ok (d2, a, b)"
    and t: "set_cycle_totals (cy_id c) a b d2 = Ok ((), d')"
    by (auto simp: plan_tx_def outcome_simps)
  have "repo_step d d1" using c by (rule repo_step.intros)
  moreover have "repo_step d2 d'" using t by (rule repo_step.intros)
  ultimately show ?thesis using plan_wallets_steps[OF f] by (meson converse_rtranclp_into_rtranclp rtranclp.rtrancl_into_rtrancl)
qed

lemma steps_tx: "repo_inv d \<Longrightarrow> (\<And>a d'. f d = Ok (a, d') \<Longrightarrow> repo_step\<^sup>*\<^sup>* d d') \<Longrightarrow> repo_tx f d"
  unfolding repo_tx_def using repo_steps_tx by blast

lemma step_tx: "repo_inv d \<Longrightarrow> (\<And>a d'. f d = Ok (a, d') \<Longrightarrow> repo_step d d') \<Longrightarrow> repo_tx f d"
  by (rule steps_tx) auto

lemma persist_steps: "persist_status now i st d = Ok (u, d') \<Longrightarrow> repo_step\<^sup>*\<^sup>* d d'"
proof (cases st)
  case PartiallySettled
  assume "persist_status now i st d = Ok (u, d')"
  then obtain d1 where "mark_cycle_broadcasting now i d = Ok ((), d1)" "mark_cycle_partially_settled i d1 = Ok (u, d')"
    using PartiallySettled by (auto simp: persist_status_def outcome_simps)
  then have "repo_step d d1" "repo_step d1 d'" by (auto intro: repo_step.intros)
  then show ?thesis by (meson converse_rtranclp_into_rtranclp r_into_rtranclp)
next
  case Settled
  assume "persist_status now i st d = Ok (u, d')"
  then obtain d1 where "mark_cycle_broadcasting now i d = Ok ((), d1)" "mark_cycle_settled now i d1 = Ok (u, d')"
    using Settled by (auto simp: persist_status_def outcome_simps)
  then have "repo_step d d1" "repo_step d1 d'" by (auto intro: repo_step.intros)
  then show ?thesis by (meson converse_rtranclp_into_rtranclp r_into_rtranclp)
qed (auto simp: persist_status_def intro: repo_step.intros)

lemma reconcile_settles:
  assumes "reconcile_cycle_status now i w = (m, w')" and "repo_inv (wd_db w)"
  shows "settles w w'"
proof -
  let ?st = "derive_cycle_status (from_payouts (list_for_cycle i (wd_db w)))"
  obtain e where r: "st_map_err KasDb (st_bind (w_tx (\<lambda>d. and_then (persist_status now i ?st d) (\<lambda>(_, d). audit_append now e d)) w)
      (\<lambda>_ w. (Ok ?st, w))) = (m, w')"
    using assms(1) unfolding reconcile_cycle_status_def Let_def by blast
  have "repo_tx (\<lambda>d. and_then (persist_status now i ?st d) (\<lambda>(_, d). audit_append now e d)) (wd_db w)"
    unfolding repo_tx_def
  proof (intro allI impI)
    fix a d' assume "and_then (persist_status now i ?st (wd_db w)) (\<lambda>(_, d). audit_append now e d) = Ok (a, d')"
    then obtain d1 where p: "persist_status now i ?st (wd_db w) = Ok ((), d1)" and au: "audit_append now e d1 = Ok (a, d')"
      by (auto simp: outcome_simps)
    have "repo_inv d1 \<and> forward (wd_db w) d1" using repo_steps_tx[OF persist_steps[OF p] assms(2)] .
    then show "repo_inv d' \<and> forward (wd_db w) d'"
      using same_tables[OF audit_same[OF au]] forward_trans by blast
  qed
  from w_tx_settles[OF this] r show ?thesis
    by (elim st_map_errE st_bindE) simp_all
qed

lemma resume_settles:
  assumes "resume_or_plan_kas_cycle now params w = (m, w')" and "repo_inv (wd_db w)"
  shows "settles w w'"
proof (cases "find_cycle_by_idempotency_key (idempotency_key Kas (pk_daa_start params) (pk_daa_end params)) (wd_db w)")
  case (Some c)
  then show ?thesis using assms(1) w_tx_settles[OF audit_tx[OF assms(2)]]
    unfolding resume_or_plan_kas_cycle_def Let_def by (auto elim!: st_map_errE st_bindE)
next
  case None
  have plan: "settles w w1" if p: "plan_kas_cycle now params w = (x, w1)" for x w1
    using p w_tx_settles[OF steps_tx[where f = "plan_tx now params", OF assms(2) plan_tx_steps]]
    unfolding plan_kas_cycle_def by (auto elim!: st_map_errE st_bindE liftE)
  obtain x w1 where p: "plan_kas_cycle now params w = (x, w1)" by (cases "plan_kas_cycle now params w")
  have w1: "settles w w1" "repo_inv (wd_db w1)" using plan[OF p] settles_db[OF plan[OF p] assms(2)] by simp_all
  show ?thesis
  proof (cases x)
    case (Ok st)
    have "settles w1 w'" using assms(1) None p Ok w_tx_settles[OF audit_tx[OF w1(2)]]
      unfolding resume_or_plan_kas_cycle_def by (auto elim!: st_map_errE st_bindE)
    with w1(1) show ?thesis by (rule rtranclp_trans)
  qed (use assms(1) None p w1(1) in \<open>simp_all add: resume_or_plan_kas_cycle_def\<close>)
qed

lemma confirm_payout_settles:
  assumes "confirm_payout client now v heights p report w = (m, w')" and "repo_inv (wd_db w)"
  shows "settles w w'"
proof -
  have acc: "repo_tx (mark_payout_accepted i n) (wd_db w)" and conf: "repo_tx (mark_payout_confirmed now i) (wd_db w)" for i n
    by (rule step_tx[OF assms(2)], erule repo_step.intros)+
  show ?thesis using assms(1) w_tx_settles[OF acc] w_tx_settles[OF conf]
    unfolding confirm_payout_def Let_def
    by (auto elim!: st_map_errE st_bindE liftE split: option.split_asm if_split_asm ConfirmationState.split_asm)
qed

lemma confirm_payouts_settles:
  "confirm_payouts (confirm_payout client now v heights) ps report w = (m, w') \<Longrightarrow> repo_inv (wd_db w) \<Longrightarrow> settles w w'"
proof (induction ps arbitrary: report w)
  case (Cons p ps)
  obtain x w1 where c: "confirm_payout client now v heights p report w = (x, w1)"
    by (cases "confirm_payout client now v heights p report w")
  note S = confirm_payout_settles[OF c Cons.prems(2)]
  show ?case
  proof (cases x)
    case (Ok r)
    then have "settles w1 w'" using Cons.prems(1) c settles_db[OF S Cons.prems(2)] by (intro Cons.IH[of r w1]) simp_all
    with S show ?thesis by (rule rtranclp_trans)
  qed (use Cons.prems(1) c S in simp_all)
qed simp

lemma confirm_settles:
  assumes "confirm_cycle client now addr cs w = (m, w')" and "repo_inv (wd_db w)"
  shows "settles w w'"
  using assms confirm_payouts_settles
  unfolding confirm_cycle_def Let_def by (auto elim!: st_bindE liftE split: if_split_asm)

text \<open>A state loaded from the database.\<close>

definition loaded :: "CycleState \<Rightarrow> db \<Rightarrow> bool" where
  "loaded cs d \<longleftrightarrow> cs_payouts cs = list_for_cycle (cy_id (cs_cycle cs)) d"

lemma set_list_for_cycle: "set (list_for_cycle i d) = {p \<in> set (rows (payout_t d)). po_cycle_id p = i}"
  by (auto simp: list_for_cycle_def select_where_def)

lemma distinct_list_for_cycle: "repo_inv d \<Longrightarrow> distinct (map po_id (list_for_cycle i d))"
proof -
  assume "repo_inv d"
  then have "distinct (map po_id (filter (\<lambda>p. po_cycle_id p = i) (rows (payout_t d))))"
    using repo_inv_keyed[of d] by (simp add: keyed_def distinct_map_filter)
  moreover have "mset (map po_id (list_for_cycle i d)) = mset (map po_id (filter (\<lambda>p. po_cycle_id p = i) (rows (payout_t d))))"
    by (simp add: list_for_cycle_def select_where_def)
  ultimately show ?thesis by (metis mset_eq_imp_distinct_iff)
qed

lemma loaded_rows:
  assumes "loaded cs d" and "repo_inv d"
  shows "distinct (map po_id (cs_payouts cs))" and "p \<in> set (cs_payouts cs) \<Longrightarrow> row_of d (po_id p) = Some p"
  using assms distinct_list_for_cycle[OF assms(2)] row_of_known[OF repo_inv_keyed[OF assms(2)]]
  by (auto simp: loaded_def set_list_for_cycle)

lemma load_cycle_loaded: "load_cycle i d = Ok cs \<Longrightarrow> loaded cs d \<and> cy_id (cs_cycle cs) = i"
  by (auto simp: load_cycle_def loaded_def get_cycle_def outcome_simps dest!: find_where_Some)

lemma audit_loaded:
  assumes "w_tx (audit_append now e) w = (m, w')"
  shows "loaded cs (wd_db w') = loaded cs (wd_db w)"
proof -
  have "payout_t (wd_db w') = payout_t (wd_db w)" using assms by (auto simp: w_tx_def audit_append_def commit_def)
  then show ?thesis by (simp add: loaded_def list_for_cycle_def)
qed

lemma resume_loaded:
  assumes "resume_or_plan_kas_cycle now params w = (Ok cs, w')"
  shows "loaded cs (wd_db w')"
proof (cases "find_cycle_by_idempotency_key (idempotency_key Kas (pk_daa_start params) (pk_daa_end params)) (wd_db w)")
  case (Some c)
  have "loaded \<lparr> cs_cycle = c, cs_payouts = list_for_cycle (cy_id c) (wd_db w) \<rparr> (wd_db w)" by (simp add: loaded_def)
  then show ?thesis using assms Some audit_loaded
    unfolding resume_or_plan_kas_cycle_def Let_def by (auto elim!: st_map_err_OkE st_bind_OkE)
next
  case None
  obtain x w1 where p: "plan_kas_cycle now params w = (x, w1)" by (cases "plan_kas_cycle now params w")
  then have x: "x = Ok cs" and au: "\<exists>e y. w_tx (audit_append now e) w1 = (y, w')"
    using assms None unfolding resume_or_plan_kas_cycle_def by (cases x; auto elim!: st_map_err_OkE st_bind_OkE)+
  have "loaded cs (wd_db w1)"
    using p x unfolding plan_kas_cycle_def by (auto elim!: st_map_err_OkE st_bind_OkE liftE dest: load_cycle_loaded[OF sym])
  then show ?thesis using au audit_loaded by blast
qed

lemma broadcast_extends:
  assumes r: "broadcast_cycle lib client now addr cs mode w = (m, w')" and inv: "repo_inv (wd_db w)"
    and ld: "loaded cs (wd_db w)" and lib: "signs_only lib" and P: "\<forall>i \<in> P. past_planned (wd_db w) i"
  shows "\<exists>es. extends lib (kl_pay_to_address_script lib addr) P w w' es \<and> set (sent_rows es) \<subseteq> po_id ` set (pending cs)"
proof -
  let ?ps = "pending cs" and ?script = "kl_pay_to_address_script lib addr"
  have ps: "distinct (map po_id ?ps)" "\<And>p. p \<in> set ?ps \<Longrightarrow> row_of (wd_db w) (po_id p) = Some p \<and> po_status p = Planned"
    using loaded_rows[OF ld inv] by (auto simp: pending_def distinct_map_filter)
  have idle: ?thesis if "w' = w" using extends_refl[OF inv P] that by (intro exI[of _ "[]"]) simp
  show ?thesis
  proof (cases "w' = w")
    case False
    then have ne: "?ps \<noteq> []" using r by (auto simp: broadcast_cycle_def)
    note D = broadcast_cycle_def Let_def lift_def
    obtain recs where recs: "traverse (recipient_of lib (wd_db w)) ?ps = Ok recs"
      using r ne False by (cases "traverse (recipient_of lib (wd_db w)) ?ps") (simp_all add: D)
    obtain v where v: "virtual_daa_score client = Ok v"
      using r ne recs False by (cases "virtual_daa_score client") (simp_all add: D)
    obtain snaps where snaps: "treasury_utxos client addr = Ok snaps"
      using r ne recs v False by (cases "treasury_utxos client addr") (simp_all add: D)
    let ?plan = "plan_batches (mainnet (kl_consensus lib)) (spendable_coins v (protected_hashes (wd_db w)) snaps) recs ?script (live_fee_rate client)"
    obtain plan where plan: "?plan = Ok plan"
      using r ne recs v snaps False by (cases ?plan) (simp_all add: D)
    let ?mark = "if mode = Live \<and> pr_batches plan \<noteq> [] then st_map_err ExDb (w_tx (mark_cycle_broadcasting now (cy_id (cs_cycle cs))) w)
        else (Ok (), w)"
    let ?send = "send_batches (send_batch lib client now mode ?script (live_fee_rate client) (rows_by_id ?ps)) (pr_batches plan)"
    obtain x w1 where mark: "?mark = (x, w1)" by (cases ?mark)
    have "repo_tx (mark_cycle_broadcasting now (cy_id (cs_cycle cs))) (wd_db w)" by (rule step_tx[OF inv], erule repo_step.intros)
    then have st: "settles w w1" using mark by (auto split: if_split_asm elim!: st_map_errE dest: w_tx_settles)
    have inv1: "repo_inv (wd_db w1)" "forward (wd_db w) (wd_db w1)" using settles_db[OF st inv] by simp_all
    have same: "wallet_t (wd_db w1) = wallet_t (wd_db w)" "payout_t (wd_db w1) = payout_t (wd_db w)"
      using mark by (auto split: if_split_asm elim!: st_map_errE
          simp: w_tx_def commit_def mark_cycle_broadcasting_def table_update_Ok split: outcome.split_asm prod.split_asm)
    have x: "is_ok x"
    proof (rule ccontr)
      assume "\<not> is_ok x"
      then have "w1 = w" using mark by (auto split: if_split_asm elim!: st_map_errE simp: w_tx_def split: outcome.split_asm prod.split_asm)
      moreover have "w' = w1" using r ne recs v snaps plan mark \<open>\<not> is_ok x\<close> by (cases x) (simp_all add: D)
      ultimately show False using \<open>w' \<noteq> w\<close> by simp
    qed
    obtain report where snd: "?send report w1 = (m, w')"
      using r ne recs v snaps plan mark x by (cases x) (simp_all add: D)
    have l2: "list_all2 (\<lambda>p r. recipient_of lib (wd_db w) p = Ok r) ?ps recs" using recs unfolding traverse_Ok_iff .
    have "map pr_id recs = map show_int (map po_id ?ps)"
      using l2 by (induction rule: list_all2_induct) (auto dest: recipient_of_Ok(1))
    then have dist: "distinct (map pr_id recs)" using ps(1) show_int_inj by (auto simp: distinct_map inj_on_def)
    have "stands_for lib (wd_db w) ?ps (wd_db w1) rc" if rc: "rc \<in> set recs" for rc
    proof -
      obtain p where p: "p \<in> set ?ps" "recipient_of lib (wd_db w) p = Ok rc"
        using l2 rc unfolding list_all2_conv_all_nth in_set_conv_nth by metis
      have "row_of (wd_db w1) (po_id p) = Some p \<and> po_status p = Planned"
        using ps(2)[OF p(1)] same(2) by (simp add: row_of_def)
      with p show ?thesis unfolding stands_for_def by blast
    qed
    then have sf: "list_all (stands_for lib (wd_db w) ?ps (wd_db w1)) (concat (map pb_payouts (pr_batches plan)))"
      using plan_batches_splits(2)[OF plan dist] unfolding list_all_iff by blast
    have P1: "\<forall>i \<in> P. past_planned (wd_db w1) i" using P past_planned_forward[OF inv1(2,1)] by blast
    obtain es where es: "extends lib ?script P w1 w' es" "set (sent_rows es) \<subseteq> po_id ` set ?ps"
      using send_batches_ok[OF lib ps(1) snd inv1(1) same(1) sf plan_batches_splits(1)[OF plan dist] P1] by blast
    from settles_then_extends[OF st inv P es(1)] es(2) show ?thesis by metis
  qed (rule idle)
qed

section \<open>The spend cap\<close>

definition sent_sompi :: "db \<Rightarrow> int list \<Rightarrow> int" where
  "sent_sompi d ids = sum_list (map (\<lambda>i. case row_of d i of Some p \<Rightarrow> po_amount_sompi p | None \<Rightarrow> 0) ids)"

definition within_cap :: "int option \<Rightarrow> db \<Rightarrow> effect list \<Rightarrow> bool" where
  "within_cap cap d es =
     (case cap of Some c \<Rightarrow> 0 \<le> c \<and> c < i64_max \<longrightarrow> sent_sompi d (sent_rows es) \<le> c | None \<Rightarrow> True)"

lemma within_cap_silent: "sent_rows es = [] \<Longrightarrow> within_cap cap d es"
  by (auto simp: within_cap_def sent_sompi_def split: option.split)

lemma saturating_total:
  "\<lbrakk>list_all (\<lambda>x. 0 \<le> x) xs; 0 \<le> a; a \<le> i64_max\<rbrakk> \<Longrightarrow>
     foldl (\<lambda>acc x. saturating i64_min i64_max (acc + x)) a xs = min i64_max (a + sum_list xs)"
proof (induction xs arbitrary: a)
  case (Cons x xs)
  have "0 \<le> sum_list xs" using Cons.prems(1) by (intro sum_list_nonneg) (simp add: list_all_iff)
  moreover have "saturating i64_min i64_max (a + x) = min i64_max (a + x)"
    using Cons.prems by (auto simp: saturating_def min_def)
  ultimately show ?case using Cons.prems by (simp add: Cons.IH min_def)
qed simp

lemma cap_bound:
  assumes ld: "loaded cs d" "repo_inv d" and fw: "forward d d'" "repo_inv d'"
    and ids: "distinct ids" "set ids \<subseteq> po_id ` set (pending cs)"
    and cap: "\<not> over_spend_cap (outbound_sompi (cs_payouts cs)) (Some c)" "c < i64_max"
  shows "sent_sompi d' ids \<le> c"
proof -
  let ?live = "filter (\<lambda>p. po_status p \<noteq> PayoutFailed) (cs_payouts cs)"
  let ?amt = "\<lambda>i. case row_of d' i of Some p \<Rightarrow> po_amount_sompi p | None \<Rightarrow> 0"
  have known: "row_of d (po_id p) = Some p" if "p \<in> set (cs_payouts cs)" for p using loaded_rows(2)[OF ld that] .
  have pos: "0 < po_amount_sompi p" if "p \<in> set (cs_payouts cs)" for p
    using ld(2) row_of_Some[OF known[OF that]] by (auto simp: repo_inv_def payouts_inv_def payout_check_def list_all_iff)
  have amt: "?amt (po_id p) = po_amount_sompi p" if "p \<in> set (cs_payouts cs)" for p
    using row_forward[OF fw known[OF that]] by auto
  have dist: "distinct (map po_id ?live)" using loaded_rows(1)[OF ld] by (rule distinct_map_filter)
  have "sent_sompi d' ids = (\<Sum>i \<in> set ids. ?amt i)" using ids(1) by (simp add: sent_sompi_def sum_list_distinct_conv_sum_set)
  also have "\<dots> \<le> (\<Sum>i \<in> po_id ` set ?live. ?amt i)"
  proof (rule sum_mono2)
    show "set ids \<subseteq> po_id ` set ?live" using ids(2) by (auto simp: pending_def)
    show "0 \<le> ?amt i" if "i \<in> po_id ` set ?live - set ids" for i using that amt pos by fastforce
  qed simp
  also have "\<dots> = (\<Sum>i \<leftarrow> map po_id ?live. ?amt i)" using sum_list_distinct_conv_sum_set[OF dist, of ?amt] by simp
  also have "\<dots> = sum_list (map po_amount_sompi ?live)"
    using amt by (auto intro!: arg_cong[where f = sum_list] simp: comp_def)
  also have "\<dots> \<le> c"
  proof -
    have "outbound_sompi (cs_payouts cs) = min i64_max (sum_list (map po_amount_sompi ?live))"
      using saturating_total[of "map po_amount_sompi ?live" 0] pos by (force simp: outbound_sompi_def list_all_iff)
    then show ?thesis using cap by (auto simp: over_spend_cap_def min_def split: if_split_asm)
  qed
  finally show ?thesis .
qed

lemma run_locked_extends:
  assumes r: "run_locked en (c0, c1, c2) now w = (m, w')" and inv: "repo_inv (wd_db w)"
    and lib: "signs_only (en_lib en)" and P: "\<forall>i \<in> P. past_planned (wd_db w) i"
  shows "\<exists>es. extends (en_lib en) (kl_pay_to_address_script (en_lib en) (en_treasury_address en)) P w w' es \<and>
    within_cap (pe_max_payout_sompi_per_cycle (en_config en)) (wd_db w') es"
proof (cases "virtual_daa_score c0")
  case (Ok v)
  let ?params = "\<lparr> pk_daa_start = fst (cycle_window v (pe_cycle_span_daa (en_config en))),
    pk_daa_end = snd (cycle_window v (pe_cycle_span_daa (en_config en))), pk_threshold_sompi = pe_threshold_sompi (en_config en) \<rparr>"
  let ?E = "extends (en_lib en) (kl_pay_to_address_script (en_lib en) (en_treasury_address en)) P w"
  note D = run_locked_def Let_def lift_def Ok
  obtain x w1 where res: "resume_or_plan_kas_cycle now ?params w = (x, w1)" by (cases "resume_or_plan_kas_cycle now ?params w")
  note st1 = resume_settles[OF res inv]
  have inv1: "repo_inv (wd_db w1)" using settles_db[OF st1 inv] by simp
  obtain es1 where es1: "?E w1 es1" "sent_rows es1 = []" using settles_extends[OF st1 inv P] by blast
  have P1: "\<forall>i \<in> P. past_planned (wd_db w1) i" using es1 unfolding extends_def by blast
  show ?thesis
  proof (cases x)
    case (Ok cs)
    note ld = resume_loaded[OF res[unfolded Ok]]
    show ?thesis
    proof (cases "over_spend_cap (outbound_sompi (cs_payouts cs)) (pe_max_payout_sompi_per_cycle (en_config en))")
      case True
      then have "w' = w1" using r res Ok by (simp add: D case_prod_unfold)
      then show ?thesis using es1 within_cap_silent by blast
    next
      case False
      let ?b = "broadcast_cycle (en_lib en) c1 now (en_treasury_address en) cs (pe_mode (en_config en)) w1"
      obtain y w2 where b: "?b = (y, w2)" by (cases ?b)
      obtain es2 where es2: "extends (en_lib en) (kl_pay_to_address_script (en_lib en) (en_treasury_address en)) P w1 w2 es2"
        "set (sent_rows es2) \<subseteq> po_id ` set (pending cs)"
        using broadcast_extends[OF b inv1 ld lib P1] by blast
      then have es: "?E w2 (es1 @ es2)" using extends_trans[OF es1(1)] es1(2) by simp
      have inv2: "repo_inv (wd_db w2)" using es unfolding extends_def by blast
      have "settles w2 w'"
      proof (cases y)
        case (Ok br)
        note br = Ok
        show ?thesis
        proof (cases "load_cycle (cy_id (cs_cycle cs)) (wd_db w2)")
          case (Ok cs2)
          let ?c = "confirm_cycle c2 now (en_treasury_address en) cs2 w2"
          obtain z w3 where c: "?c = (z, w3)" by (cases ?c)
          note st3 = confirm_settles[OF c inv2]
          show ?thesis
          proof (cases z)
            fix cf assume z: "z = Ok cf"
            obtain s w4 where rc: "reconcile_cycle_status now (cy_id (cs_cycle cs)) w3 = (s, w4)"
              by (cases "reconcile_cycle_status now (cy_id (cs_cycle cs)) w3")
            have "settles w3 w4" by (rule reconcile_settles[OF rc]) (use settles_db[OF st3 inv2] in simp)
            moreover have "w' = w4" using r res \<open>x = Ok cs\<close> False b br Ok c z rc by (cases s) (simp_all add: D case_prod_unfold)
            ultimately show ?thesis using st3 by simp
          qed (use r res \<open>x = Ok cs\<close> False b br Ok c st3 in \<open>simp_all add: D case_prod_unfold\<close>)
        qed (use r res \<open>x = Ok cs\<close> False b br in \<open>simp_all add: D case_prod_unfold\<close>)
      qed (use r res Ok False b in \<open>simp_all add: D case_prod_unfold\<close>)
      then have st: "settles w2 w'" .
      obtain fs where fs: "?E w' fs" "sent_rows fs = sent_rows es2"
        using extends_settles[OF es st] es1(2) by (auto simp: sent_rows_append)
      have inv': "repo_inv (wd_db w')" using fs(1) unfolding extends_def by blast
      have "forward (wd_db w1) (wd_db w2)" using es2(1) safe_db[OF _ inv1] unfolding extends_def by metis
      with settles_db[OF st inv2] have fw: "forward (wd_db w1) (wd_db w')" by (blast intro: forward_trans)
      have "distinct (sent_rows es2)" using es2(1) safe_distinct unfolding extends_def by blast
      from cap_bound[OF ld inv1 fw inv' this es2(2)] False
      have "within_cap (pe_max_payout_sompi_per_cycle (en_config en)) (wd_db w') fs"
        by (auto simp: within_cap_def fs(2) split: option.split)
      with fs(1) show ?thesis by blast
    qed
  qed (use r res es1 within_cap_silent in \<open>auto simp: D case_prod_unfold\<close>)
qed (use r extends_refl[OF inv P] within_cap_silent[of "[]"] in \<open>auto simp: run_locked_def lift_def intro!: exI[of _ "[]"]\<close>)

section \<open>Runs with crashes\<close>

text \<open>A tick that dies after \<open>n\<close> of its commits and broadcasts.\<close>

definition crash_after :: "nat \<Rightarrow> world \<Rightarrow> world \<Rightarrow> world" where
  "crash_after n w w' =
     (let es = take n (drop (length (wd_log w)) (wd_log w'))
      in w\<lparr> wd_db := db_after (wd_db w) es, wd_log := wd_log w @ es \<rparr>)"

text \<open>Ticks, whole or cut off, between the payout transactions of any other
  process.\<close>

inductive payout_step :: "PayoutEngine \<Rightarrow> world \<Rightarrow> world \<Rightarrow> bool" for en where
  tick: "run_locked en clients now w = (m, w') \<Longrightarrow> payout_step en w (crash_after n w w')"
| other: "repo_step (wd_db w) d \<Longrightarrow> payout_step en w (commit d w)"

lemma safe_past_planned:
  "\<lbrakk>safe lib script d P es; repo_inv d; \<forall>i \<in> P. past_planned d i\<rbrakk> \<Longrightarrow>
     \<forall>i \<in> P \<union> set (sent_rows es). past_planned (db_after d es) i"
proof (induction es arbitrary: d P rule: sent_rows.induct)
  case (2 d' es)
  then show ?case using past_planned_forward[of d d'] by auto
next
  case (3 ids tx es)
  have int: "intended lib script d ids tx" and rest: "safe lib script d (P \<union> set ids) es" using 3(2) by simp_all
  have "past_planned d i" if i: "i \<in> set ids" for i
  proof -
    obtain out where "pays_row lib d (kl_tx_id lib tx) i out"
      using int i unfolding intended_def list_all2_conv_all_nth in_set_conv_nth by blast
    then show ?thesis by (auto simp: pays_row_def past_planned_def)
  qed
  then have "\<forall>i \<in> P \<union> set ids. past_planned d i" using 3(4) by blast
  from 3(1)[OF rest 3(3) this] show ?case by (simp add: Un_assoc)
qed simp

lemma extends_crash:
  assumes "extends lib script P w w' es" and "repo_inv (wd_db w)" and "\<forall>i \<in> P. past_planned (wd_db w) i"
  shows "extends lib script P w (crash_after n w w') (take n es)"
proof -
  have s: "safe lib script (wd_db w) P (take n es)" using assms(1) safe_take unfolding extends_def by blast
  then show ?thesis using assms safe_past_planned[OF s assms(2,3)] safe_db[OF s assms(2)]
    by (simp add: extends_def crash_after_def Let_def)
qed

lemma payout_steps_extend:
  assumes "(payout_step en)\<^sup>*\<^sup>* w w'" and inv: "repo_inv (wd_db w)" and lib: "signs_only (en_lib en)"
  shows "\<exists>es. extends (en_lib en) (kl_pay_to_address_script (en_lib en) (en_treasury_address en)) {} w w' es"
  using assms(1)
proof (induction rule: rtranclp_induct)
  case base
  show ?case using extends_refl[OF inv, of "{}"] by auto
next
  case (step w1 w2)
  let ?script = "kl_pay_to_address_script (en_lib en) (en_treasury_address en)"
  obtain es where es: "extends (en_lib en) ?script {} w w1 es" using step.IH by blast
  then have w1: "repo_inv (wd_db w1)" "\<forall>i \<in> set (sent_rows es). past_planned (wd_db w1) i" unfolding extends_def by auto
  have "\<exists>fs. extends (en_lib en) ?script (set (sent_rows es)) w1 w2 fs"
    using step.hyps(2)
  proof cases
    case (tick clients now m w' n)
    obtain c0 c1 c2 where "clients = (c0, c1, c2)" by (cases clients)
    with run_locked_extends[of en c0 c1 c2 now w1 m w', OF _ w1(1) lib w1(2)] tick(2)
    obtain fs where "extends (en_lib en) ?script (set (sent_rows es)) w1 w' fs" by blast
    from extends_crash[OF this w1] tick(1) show ?thesis by blast
  next
    case (other d)
    have "repo_inv d" "forward (wd_db w1) d" using repo_steps_tx[OF r_into_rtranclp[of repo_step, OF other(2)] w1(1)] by simp_all
    then have "settles w1 w2" using other(1) by (intro r_into_rtranclp) (auto simp: settle1_def)
    from settles_extends[OF this w1] show ?thesis by blast
  qed
  with extends_trans[OF es] show ?case by auto
qed

end
