(* ===== verification/PayoutProps.thy ===== *)
theory PayoutProps
  imports PayoutSafety
begin

text \<open>
  The properties of the KAS payout engine (\<open>src/payout-kas/src\<close>): what it sends,
  how much, when a payout counts as confirmed, what the status of a cycle says,
  and the windows cycles live in.
\<close>

section \<open>Confirmation\<close>

text \<open>A payout whose transaction the node has shown, or the row has recorded, at a
  height that is deep enough.\<close>

definition buried :: "int \<Rightarrow> TreasuryUtxoSnapshot list \<Rightarrow> Payout \<Rightarrow> bool" where
  "buried v snaps p \<longleftrightarrow>
     (\<exists>txid h. po_tx_hash p = Some txid \<and>
        (recorded_height p = Some h \<or>
         (\<exists>s \<in> set snaps. op_transaction_id (tus_outpoint s) = txid \<and> ue_block_daa_score (tus_entry s) = h)) \<and>
        saturating 0 u64_max (h + KAS_PAYOUT_CONFIRMATION_DAA) \<le> v)"

abbreviation confirmed_row :: "db \<Rightarrow> int \<Rightarrow> bool" where
  "confirmed_row d i \<equiv> (\<exists>p. row_of d i = Some p \<and> po_status p = Confirmed)"

lemma change_heights_Some:
  "change_heights snaps txid = Some h \<Longrightarrow>
     \<exists>s \<in> set snaps. op_transaction_id (tus_outpoint s) = txid \<and> ue_block_daa_score (tus_entry s) = h"
proof -
  have "foldl (\<lambda>m s. m(op_transaction_id (tus_outpoint s) \<mapsto> ue_block_daa_score (tus_entry s))) m xs txid = Some h \<Longrightarrow>
      m txid = Some h \<or> (\<exists>s \<in> set xs. op_transaction_id (tus_outpoint s) = txid \<and> ue_block_daa_score (tus_entry s) = h)" for m xs
  proof (induction xs arbitrary: m)
    case (Cons s xs)
    from Cons.IH[OF Cons.prems[unfolded foldl_Cons]] show ?case by (auto split: if_split_asm)
  qed simp
  then show "change_heights snaps txid = Some h \<Longrightarrow> ?thesis" unfolding change_heights_def by fastforce
qed

lemma classify_TxConfirmed:
  "classify_confirmation ci = TxConfirmed \<Longrightarrow>
     \<exists>h. (ci_recorded_accept_daa ci = Some h \<or> ci_change_block_daa_score ci = Some h) \<and>
         saturating 0 u64_max (h + KAS_PAYOUT_CONFIRMATION_DAA) \<le> ci_virtual_daa_score ci"
  by (auto simp: classify_confirmation_def split: option.split_asm if_split_asm)

lemma accepted_confirms_none:
  assumes "mark_payout_accepted j a d = Ok (u, d')" and "confirmed_row d' i"
  shows "confirmed_row d i"
proof -
  let ?P = "\<lambda>p. po_id p = j \<and> po_status p \<in> {Submitted, Accepted}"
  let ?f = "\<lambda>p. p\<lparr> po_status := Accepted, po_accepted_daa_score := coalesce (po_accepted_daa_score p) a \<rparr>"
  have "d' = d\<lparr> payout_t := update_where ?P ?f (payout_t d) \<rparr>"
    using assms(1) by (auto simp: mark_payout_accepted_def table_update_Ok)
  then have "row_of d' i = map_option (\<lambda>p. if ?P p then ?f p else p) (row_of d i)" by (simp add: row_of_update)
  then show ?thesis using assms(2) by (auto split: if_split_asm)
qed

lemma confirmed_confirms_one:
  assumes "mark_payout_confirmed now j d = Ok (u, d')" and "confirmed_row d' i"
  shows "confirmed_row d i \<or> i = j"
proof -
  let ?P = "\<lambda>p. po_id p = j \<and> po_status p \<in> {Submitted, Accepted, Confirmed}"
  let ?f = "\<lambda>p. p\<lparr> po_status := Confirmed, po_confirmed_at := coalesce (po_confirmed_at p) now \<rparr>"
  have "d' = d\<lparr> payout_t := update_where ?P ?f (payout_t d) \<rparr>"
    using assms(1) by (auto simp: mark_payout_confirmed_def table_update_Ok)
  then have "row_of d' i = map_option (\<lambda>p. if ?P p then ?f p else p) (row_of d i)" by (simp add: row_of_update)
  then show ?thesis using assms(2) row_of_Some[of d i] by (auto split: if_split_asm)
qed

lemma w_tx_cases:
  assumes "w_tx f w = (m, w')"
  obtains "w' = w" | a d where "f (wd_db w) = Ok (a, d)" "w' = commit d w"
  using assms by (auto simp: w_tx_def split: outcome.split_asm prod.split_asm)

lemma confirm_payout_confirms:
  assumes "confirm_payout client now v (change_heights snaps) p report w = (m, w')" and "confirmed_row (wd_db w') i"
  shows "confirmed_row (wd_db w) i \<or> (i = po_id p \<and> buried v snaps p)"
proof (cases "w' = w")
  case True
  then show ?thesis using assms(2) by simp
next
  case False
  then obtain txid where t: "po_tx_hash p = Some txid" "length txid = 32"
    using assms(1) by (auto simp: confirm_payout_def split: option.split_asm if_split_asm)
  let ?probe = "(if change_heights snaps txid \<noteq> None \<or> recorded_height p \<noteq> None then Ok False
      else map_err ExKaspad (transaction_in_mempool client (po_id p) txid))"
  obtain b where b: "?probe = Ok b"
    using assms(1) t False by (cases ?probe) (simp_all add: confirm_payout_def lift_def Let_def)
  let ?ci = "\<lparr> ci_virtual_daa_score = v, ci_in_mempool = b, ci_change_block_daa_score = change_heights snaps txid,
      ci_recorded_accept_daa = recorded_height p \<rparr>"
  consider "classify_confirmation ?ci = TxAccepted" | "classify_confirmation ?ci = TxConfirmed"
    using assms(1) t b False by (cases "classify_confirmation ?ci") (simp_all add: confirm_payout_def lift_def Let_def)
  then show ?thesis
  proof cases
    case 1
    then obtain a u where "w_tx (mark_payout_accepted (po_id p) a) w = (u, w')"
      using assms(1) t b by (auto simp: confirm_payout_def lift_def Let_def elim!: st_bindE st_map_errE)
    then show ?thesis using assms(2) by (cases rule: w_tx_cases) (auto simp: commit_def dest: accepted_confirms_none)
  next
    case 2
    then obtain u where "w_tx (mark_payout_confirmed now (po_id p)) w = (u, w')"
      using assms(1) t b by (auto simp: confirm_payout_def lift_def Let_def elim!: st_bindE st_map_errE)
    then have "confirmed_row (wd_db w) i \<or> i = po_id p"
      using assms(2) by (cases rule: w_tx_cases) (auto simp: commit_def dest: confirmed_confirms_one)
    moreover have "buried v snaps p"
      using classify_TxConfirmed[OF 2] t(1) change_heights_Some[of snaps txid] unfolding buried_def by fastforce
    ultimately show ?thesis by blast
  qed
qed

lemma confirm_payouts_confirm:
  "\<lbrakk>confirm_payouts (confirm_payout client now v (change_heights snaps)) ps report w = (m, w'); confirmed_row (wd_db w') i\<rbrakk> \<Longrightarrow>
     confirmed_row (wd_db w) i \<or> (\<exists>p \<in> set ps. po_id p = i \<and> buried v snaps p)"
proof (induction ps arbitrary: report w)
  case (Cons p ps)
  obtain x w1 where c: "confirm_payout client now v (change_heights snaps) p report w = (x, w1)"
    by (cases "confirm_payout client now v (change_heights snaps) p report w")
  have "confirmed_row (wd_db w1) i \<or> (\<exists>p \<in> set ps. po_id p = i \<and> buried v snaps p)"
  proof (cases x)
    case (Ok r)
    then show ?thesis using Cons.prems c by (intro Cons.IH[of r w1]) simp_all
  qed (use Cons.prems c in auto)
  with confirm_payout_confirms[OF c] show ?case by auto
qed simp

section \<open>Counting\<close>

lemma count_foldl:
  "foldl count_status c ps =
     \<lparr> pc_total = pc_total c, pc_pending = pc_pending c + length (filter (\<lambda>p. po_status p = Planned) ps),
       pc_in_flight = pc_in_flight c + length (filter (\<lambda>p. po_status p \<in> {Submitted, Accepted}) ps),
       pc_confirmed = pc_confirmed c + length (filter (\<lambda>p. po_status p = Confirmed) ps),
       pc_failed = pc_failed c + length (filter (\<lambda>p. po_status p = PayoutFailed) ps) \<rparr>"
proof (induction ps arbitrary: c)
  case (Cons p ps)
  then show ?case by (cases "po_status p") (simp_all add: count_status_def)
qed simp

lemma filter_count_all: "length (filter P xs) = length xs \<longleftrightarrow> list_all P xs"
proof (induction xs)
  case (Cons x xs)
  have "length (filter P xs) \<noteq> Suc (length xs)" using length_filter_le[of P xs] by linarith
  with Cons show ?case by auto
qed simp

lemma filter_count_two:
  "(\<And>x. \<not> (P x \<and> Q x)) \<Longrightarrow> length (filter P xs) + length (filter Q xs) = length (filter (\<lambda>x. P x \<or> Q x) xs)"
  by (induction xs) auto

lemma all_status: "(\<forall>s. P s) \<longleftrightarrow> P Planned \<and> P Submitted \<and> P Accepted \<and> P Confirmed \<and> P PayoutFailed"
  by (metis PayoutStatus.exhaust)

lemma ex_status: "(\<exists>s. P s) \<longleftrightarrow> P Planned \<or> P Submitted \<or> P Accepted \<or> P Confirmed \<or> P PayoutFailed"
  by (metis PayoutStatus.exhaust)

section \<open>Properties\<close>

definition treasury_script :: "PayoutEngine \<Rightarrow> ScriptPublicKey" where
  "treasury_script en = kl_pay_to_address_script (en_lib en) (en_treasury_address en)"

lemma safe_at:
  assumes "safe lib script d P es" and "k < length es" and "es ! k = Sent ids tx"
  shows "intended lib script (db_after d (take k es)) ids tx"
proof -
  have "es = take k es @ Sent ids tx # drop (Suc k) es" using id_take_nth_drop[OF assms(2)] unfolding assms(3) .
  then have "safe lib script d P (take k es @ Sent ids tx # drop (Suc k) es)" using assms(1) by (rule subst)
  then show ?thesis by (simp add: safe_append)
qed

text \<open>C1. No payout is sent twice and none unrecorded.  Take any interleaving of
  engine ticks, each possibly cut off between two of its commits and broadcasts
  and each seeing whatever answers of the node, with payout transactions of other
  processes.  Over the whole run the rows of all broadcast transactions are
  pairwise different, and each transaction was intended when it was sent: the
  database committed by then has each of its rows as submitted under the
  transaction's id, each with one output of the row's amount to the address of
  the row's wallet, and the only other output is change to the treasury.\<close>

theorem broadcasts_intended_once:
  assumes "(payout_step en)\<^sup>*\<^sup>* w w'" and "repo_inv (wd_db w)" and "wd_log w = []" and "signs_only (en_lib en)"
  shows "distinct (sent_rows (wd_log w')) \<and>
    (\<forall>k ids tx. k < length (wd_log w') \<and> wd_log w' ! k = Sent ids tx \<longrightarrow>
       intended (en_lib en) (treasury_script en) (db_after (wd_db w) (take k (wd_log w'))) ids tx)"
proof -
  obtain es where "extends (en_lib en) (treasury_script en) {} w w' es"
    using payout_steps_extend[OF assms(1,2,4)] unfolding treasury_script_def by blast
  then have s: "safe (en_lib en) (treasury_script en) (wd_db w) {} (wd_log w')" using assms(3) by (simp add: extends_def)
  show ?thesis
  proof (intro conjI allI impI)
    show "distinct (sent_rows (wd_log w'))" using safe_distinct[OF s] by (rule conjunct1)
  qed (elim conjE, rule safe_at[OF s])
qed

text \<open>C10. The spend cap binds: what one tick broadcasts adds up, over the rows its
  transactions pay, to at most the configured cap.\<close>

theorem tick_within_spend_cap:
  assumes "run_locked en clients now w = (m, w')" and "repo_inv (wd_db w)" and "signs_only (en_lib en)"
    and "pe_max_payout_sompi_per_cycle (en_config en) = Some c" and "0 \<le> c" and "c < i64_max"
  shows "\<exists>es. wd_log w' = wd_log w @ es \<and> sent_sompi (wd_db w') (sent_rows es) \<le> c"
proof -
  obtain c0 c1 c2 where "clients = (c0, c1, c2)" by (cases clients)
  then obtain es where "extends (en_lib en) (treasury_script en) {} w w' es" "within_cap (Some c) (wd_db w') es"
    using run_locked_extends[of en c0 c1 c2 now w m w' "{}"] assms unfolding treasury_script_def by auto
  then show ?thesis using assms(5,6) by (auto simp: extends_def within_cap_def)
qed

text \<open>C9. Confirmation is deep.  A payout that is confirmed after a confirmation
  pass and was not before has a transaction that this pass saw as a treasury
  coin, or an earlier pass recorded, at a height at least the confirmation depth
  below the node's virtual score.\<close>

theorem confirmed_only_when_buried:
  assumes "confirm_cycle client now addr cs w = (m, w')" and "confirmed_row (wd_db w') i" and "\<not> confirmed_row (wd_db w) i"
  shows "\<exists>v snaps p. virtual_daa_score client = Ok v \<and> treasury_utxos client addr = Ok snaps \<and>
    p \<in> set (cs_payouts cs) \<and> po_id p = i \<and> po_status p \<in> {Submitted, Accepted} \<and> buried v snaps p"
proof -
  have ne: "in_flight cs \<noteq> []" using assms by (auto simp: confirm_cycle_def)
  obtain v where v: "virtual_daa_score client = Ok v"
    using assms ne by (cases "virtual_daa_score client") (auto simp: confirm_cycle_def lift_def)
  obtain snaps where s: "treasury_utxos client addr = Ok snaps"
    using assms ne v by (cases "treasury_utxos client addr") (auto simp: confirm_cycle_def lift_def)
  have "confirm_payouts (confirm_payout client now v (change_heights snaps)) (in_flight cs) ConfirmReport_default w = (m, w')"
    using assms(1) ne v s by (simp add: confirm_cycle_def lift_def)
  from confirm_payouts_confirm[OF this assms(2)] assms(3)
  obtain p where "p \<in> set (in_flight cs)" "po_id p = i" "buried v snaps p" by blast
  then show ?thesis using v s by (auto simp: in_flight_def)
qed

text \<open>C30. The status of a cycle, which the code computes from five counters, says
  of its rows: settled when all are confirmed, failed when all failed, partly
  settled when some are confirmed, broadcasting when some have left the planned
  state, and planned otherwise.\<close>

theorem derived_status_of_rows:
  "derived_status cs =
     (let st = map po_status (cs_payouts cs) in
      if st = [] then CyclePlanned
      else if list_all (\<lambda>s. s = Confirmed) st then Settled
      else if list_all (\<lambda>s. s = PayoutFailed) st then CycleFailed
      else if list_ex (\<lambda>s. s = Confirmed) st then PartiallySettled
      else if list_ex (\<lambda>s. s \<noteq> Planned) st then Broadcasting
      else CyclePlanned)"
proof -
  let ?n = "\<lambda>P. length (filter (\<lambda>p. P (po_status p)) (cs_payouts cs))"
  have counts: "counts_of cs = \<lparr> pc_total = length (cs_payouts cs), pc_pending = ?n (\<lambda>s. s = Planned),
      pc_in_flight = ?n (\<lambda>s. s \<in> {Submitted, Accepted}), pc_confirmed = ?n (\<lambda>s. s = Confirmed),
      pc_failed = ?n (\<lambda>s. s = PayoutFailed) \<rparr>"
    by (simp add: counts_of_def from_payouts_def count_foldl)
  let ?has = "\<lambda>s. s \<in> po_status ` set (cs_payouts cs)"
  have all: "list_all (\<lambda>p. P (po_status p)) (cs_payouts cs) \<longleftrightarrow> (\<forall>s. ?has s \<longrightarrow> P s)" for P
    by (auto simp: list_all_iff)
  have pos: "0 < ?n P \<longleftrightarrow> (\<exists>s. ?has s \<and> P s)" for P by (auto simp: filter_empty_conv)
  have two: "?n (\<lambda>s. s = Confirmed) + ?n (\<lambda>s. s = PayoutFailed) = length (cs_payouts cs) \<longleftrightarrow>
      (\<forall>s. ?has s \<longrightarrow> s = Confirmed \<or> s = PayoutFailed)"
    unfolding all[symmetric] filter_count_all[symmetric] by (subst filter_count_two) auto
  have one: "?n P = length (cs_payouts cs) \<longleftrightarrow> (\<forall>s. ?has s \<longrightarrow> P s)" for P
    unfolding all[symmetric] by (rule filter_count_all)
  have ne: "length (cs_payouts cs) = 0 \<longleftrightarrow> (\<forall>s. \<not> ?has s)" by auto
  have code: "derived_status cs =
     (if \<forall>s. \<not> ?has s then CyclePlanned else if \<forall>s. ?has s \<longrightarrow> s = Confirmed then Settled
      else if \<forall>s. ?has s \<longrightarrow> s = Confirmed \<or> s = PayoutFailed
      then if \<exists>s. ?has s \<and> s = Confirmed then PartiallySettled else CycleFailed
      else if \<exists>s. ?has s \<and> s = Confirmed then PartiallySettled
      else if (\<exists>s. ?has s \<and> s \<in> {Submitted, Accepted}) \<or> (\<exists>s. ?has s \<and> s = PayoutFailed) then Broadcasting else CyclePlanned)"
    unfolding derived_status_def derive_cycle_status_def counts PayoutStatusCounts.simps two ne
      one[of "\<lambda>s. s = Confirmed"] pos[of "\<lambda>s. s = Confirmed"] pos[of "\<lambda>s. s = PayoutFailed"]
      pos[of "\<lambda>s. s \<in> {Submitted, Accepted}"] ..
  have lists: "map po_status (cs_payouts cs) = [] \<longleftrightarrow> (\<forall>s. \<not> ?has s)"
    "list_all P (map po_status (cs_payouts cs)) \<longleftrightarrow> (\<forall>s. ?has s \<longrightarrow> P s)"
    "list_ex P (map po_status (cs_payouts cs)) \<longleftrightarrow> (\<exists>s. ?has s \<and> P s)" for P
    by (auto simp: list_all_iff list_ex_iff)
  show ?thesis unfolding code Let_def lists all_status ex_status by auto
qed

text \<open>C31. Cycle windows tile the scores: a score lies in its window, the window is
  one span long except at the very end of the range, and two scores have the
  same window exactly when they are in the same span.\<close>

theorem cycle_window_tiles:
  assumes "0 \<le> v" "v \<le> u64_max" "0 \<le> v'" "v' \<le> u64_max"
  shows "fst (cycle_window v sp) \<le> v \<and> (v < snd (cycle_window v sp) \<or> snd (cycle_window v sp) = u64_max) \<and>
    snd (cycle_window v sp) \<le> fst (cycle_window v sp) + max sp 1 \<and>
    (cycle_window v sp = cycle_window v' sp \<longleftrightarrow> v div max sp 1 = v' div max sp 1)"
proof -
  define l where "l = max sp 1"
  have l: "0 < l" by (simp add: l_def)
  have start: "0 \<le> x div l * l \<and> x div l * l \<le> x \<and> x < x div l * l + l" if "0 \<le> x" for x
  proof -
    have "0 \<le> x div l" using that l by (simp add: pos_imp_zdiv_nonneg_iff)
    then have "0 \<le> x div l * l" using l by simp
    moreover have "x div l * l + x mod l = x" by (rule div_mult_mod_eq)
    moreover have "0 \<le> x mod l" "x mod l < l" using l by (rule pos_mod_sign, rule pos_mod_bound)
    ultimately show ?thesis by linarith
  qed
  have win: "cycle_window x sp = (x div l * l, saturating 0 u64_max (x div l * l + l))" if "0 \<le> x" "x \<le> u64_max" for x
    using start[OF that(1)] that(2) by (simp add: cycle_window_def Let_def l_def[symmetric])
  have "v div l * l = v' div l * l \<longleftrightarrow> v div l = v' div l" using l by (simp only: mult_cancel_right) linarith
  then have same: "cycle_window v sp = cycle_window v' sp \<longleftrightarrow> v div l = v' div l"
    unfolding win[OF assms(1,2)] win[OF assms(3,4)] by auto
  have sat: "saturating 0 u64_max y = (if u64_max < y then u64_max else y)" if "0 \<le> y" for y
    using that by (simp add: saturating_def)
  have "0 \<le> v div l * l + l" using start[OF assms(1)] l by linarith
  note s = sat[OF this]
  show ?thesis
    unfolding l_def[symmetric] same
    unfolding win[OF assms(1,2)] fst_conv snd_conv s using start[OF assms(1)] by (simp split: if_split)
qed

section \<open>A concrete tick\<close>

definition demo_lib :: kaspa_lib where
  "demo_lib = \<lparr> kl_consensus = demo_consensus, kl_parse_address = Some, kl_pay_to_address_script = id,
     kl_tx_version = 0, kl_native_subnetwork = [], kl_key_ok = True, kl_sign = (\<lambda>tx es. tx), kl_tx_id = (\<lambda>tx. replicate 32 9),
     kl_script_ok = (\<lambda>tx es i. True) \<rparr>"

definition demo_snapshot :: "8 word \<Rightarrow> int \<Rightarrow> int \<Rightarrow> TreasuryUtxoSnapshot" where
  "demo_snapshot b amount height = \<lparr> tus_outpoint = \<lparr> op_transaction_id = replicate 32 b, op_index = 0 \<rparr>,
     tus_entry = \<lparr> ue_amount = amount, ue_script_public_key = ''t'', ue_block_daa_score = height, ue_is_coinbase = True,
       ue_covenant_id = None \<rparr> \<rparr>"

text \<open>The node accepts no connection when the transaction is submitted.\<close>

definition demo_client :: KasClient where
  "demo_client = \<lparr> virtual_daa_score = Ok 1150, treasury_utxos = (\<lambda>_. Ok [demo_snapshot 7 400000000 1]),
     submit_transaction = (\<lambda>_ _. Err (Rpc ''timeout'')), fee_estimate_sompi_per_gram = Ok (Fin 1),
     transaction_in_mempool = (\<lambda>_ _. Ok True) \<rparr>"

definition demo_payer :: PayoutEngine where
  "demo_payer = \<lparr> en_lib = demo_lib, en_treasury_address = ''t'', en_config = \<lparr> pe_instance_id = ''pool-1'', pe_poll_interval = 30,
     pe_cycle_span_daa = 1000, pe_threshold_sompi = 1, pe_max_payout_sompi_per_cycle = Some 60000000, pe_mode = Live,
     pe_lock_namespace = ''l'' \<rparr> \<rparr>"

definition demo_world :: world where
  "demo_world = \<lparr> wd_db = (demo_db None)\<lparr>
     cycle_t := insert_row (new_cycle 5 Kas 1000 2000) empty_tbl,
     payout_t := insert_row (new_payout 6 1 1 50000000) empty_tbl \<rparr>, wd_log = [] \<rparr>"

definition demo_ticked :: world where
  "demo_ticked = snd (run_locked demo_payer (demo_client, demo_client, demo_client) 9 demo_world)"

lemma pred_option_code [code]: "pred_option P None = True" "pred_option P (Some x) = P x"
  by simp_all

definition sent_ids :: "effect \<Rightarrow> int list option" where
  "sent_ids e = (case e of Committed d \<Rightarrow> None | Sent ids tx \<Rightarrow> Some ids)"

lemma demo_log: "map sent_ids (wd_log demo_ticked) = [None, None, None, Some [1], None]"
  by code_simp

lemma demo_run: "run_locked demo_payer (demo_client, demo_client, demo_client) 9 demo_world =
    (fst (run_locked demo_payer (demo_client, demo_client, demo_client) 9 demo_world), demo_ticked)"
  unfolding demo_ticked_def by (rule prod.collapse[symmetric])

lemma demo_signs: "signs_only (en_lib demo_payer)"
  by (simp add: signs_only_def demo_payer_def demo_lib_def)

lemma demo_world_inv: "repo_inv (wd_db demo_world)"
  by (simp add: repo_inv_def payouts_inv_def cycles_inv_def krc20s_inv_def links_inv_def demo_world_def demo_db_def
      empty_db_def empty_tbl_def insert_row_def keyed_def new_payout_def new_cycle_def payout_check_def cycle_check_def
      u64_as_i64_id)

text \<open>The tick dies right after the transaction has gone out.\<close>

theorem broadcasts_intended_once_witness:
  "\<exists>tx. wd_log (crash_after 4 demo_world demo_ticked) ! 3 = Sent [1] tx \<and>
     intended demo_lib ''t'' (db_after (wd_db demo_world) (take 3 (wd_log (crash_after 4 demo_world demo_ticked)))) [1] tx"
proof -
  let ?w = "crash_after 4 demo_world demo_ticked"
  have len: "length (wd_log demo_ticked) = 5" using arg_cong[OF demo_log, of length] by simp
  have log: "wd_log ?w = take 4 (wd_log demo_ticked)" by (simp add: crash_after_def demo_world_def Let_def)
  have "sent_ids (wd_log demo_ticked ! 3) = Some [1]" using arg_cong[OF demo_log, of "\<lambda>xs. xs ! 3"] len by simp
  then obtain tx where tx: "wd_log demo_ticked ! 3 = Sent [1] tx"
    by (auto simp: sent_ids_def split: effect.split_asm)
  have "(payout_step demo_payer)\<^sup>*\<^sup>* demo_world ?w" using payout_step.tick[OF demo_run] by (rule r_into_rtranclp)
  from broadcasts_intended_once[OF this demo_world_inv _ demo_signs]
  have "intended demo_lib ''t'' (db_after (wd_db demo_world) (take 3 (wd_log ?w))) [1] tx"
    using tx len log by (simp add: demo_world_def treasury_script_def demo_payer_def demo_lib_def)
  then show ?thesis using tx log len by auto
qed

theorem tick_within_spend_cap_witness:
  "\<exists>es. wd_log demo_ticked = es \<and> sent_rows es \<noteq> [] \<and> sent_sompi (wd_db demo_ticked) (sent_rows es) \<le> 60000000"
proof -
  have s: "sent_rows es = concat (map (\<lambda>x. case x of Some ids \<Rightarrow> ids | None \<Rightarrow> []) (map sent_ids es))" for es
    by (induction es rule: sent_rows.induct) (simp_all add: sent_ids_def)
  have "\<exists>es. wd_log demo_ticked = wd_log demo_world @ es \<and> sent_sompi (wd_db demo_ticked) (sent_rows es) \<le> 60000000"
    by (rule tick_within_spend_cap[OF demo_run demo_world_inv demo_signs]) (simp_all add: demo_payer_def)
  then have "sent_sompi (wd_db demo_ticked) (sent_rows (wd_log demo_ticked)) \<le> 60000000" by (simp add: demo_world_def)
  moreover have "sent_rows (wd_log demo_ticked) \<noteq> []" unfolding s demo_log by simp
  ultimately show ?thesis by blast
qed

text \<open>The change of the transaction has come back at height 1000.\<close>

definition demo_later :: KasClient where
  "demo_later = demo_client\<lparr> treasury_utxos := (\<lambda>_. Ok [demo_snapshot 7 5 1000]) \<rparr>"

definition demo_in_flight :: world where
  "demo_in_flight = \<lparr> wd_db = demo_submitted, wd_log = [] \<rparr>"

definition demo_state :: CycleState where
  "demo_state = \<lparr> cs_cycle = new_cycle 5 Kas 100 200 1, cs_payouts = list_for_cycle 1 demo_submitted \<rparr>"

definition demo_confirmed :: world where
  "demo_confirmed = snd (confirm_cycle demo_later 9 ''t'' demo_state demo_in_flight)"

theorem confirmed_only_when_buried_witness:
  "map_option po_status (row_of (wd_db demo_confirmed) 1) = Some Confirmed \<and>
   (\<exists>v snaps p. virtual_daa_score demo_later = Ok v \<and> treasury_utxos demo_later ''t'' = Ok snaps \<and>
      p \<in> set (cs_payouts demo_state) \<and> buried v snaps p)"
proof -
  have run: "confirm_cycle demo_later 9 ''t'' demo_state demo_in_flight =
      (fst (confirm_cycle demo_later 9 ''t'' demo_state demo_in_flight), demo_confirmed)"
    unfolding demo_confirmed_def by (rule prod.collapse[symmetric])
  have after: "map_option po_status (row_of (wd_db demo_confirmed) 1) = Some Confirmed" by code_simp
  have before: "map_option po_status (row_of (wd_db demo_in_flight) 1) = Some Submitted" by code_simp
  have "confirmed_row (wd_db demo_confirmed) 1" using after by auto
  moreover have "\<not> confirmed_row (wd_db demo_in_flight) 1" using before by auto
  ultimately show ?thesis using confirmed_only_when_buried[OF run] after by blast
qed

theorem cycle_window_tiles_witness:
  "cycle_window 1150 1000 = (1000, 2000) \<and> cycle_window 1150 1000 = cycle_window 1999 1000 \<and>
   cycle_window 1150 1000 \<noteq> cycle_window 2000 1000 \<and> fst (cycle_window 1150 1000) \<le> 1150"
proof -
  have "1150 \<le> u64_max" "1999 \<le> u64_max" "2000 \<le> u64_max" by simp_all
  with cycle_window_tiles[of 1150 1999 1000] cycle_window_tiles[of 1150 2000 1000]
  show ?thesis by (simp add: cycle_window_def Let_def)
qed

end
