(* ===== verification/Breaker.thy ===== *)
theory Breaker
  imports Prelude
begin

text \<open>
  The two circuit breakers: \<open>Breaker\<close> of \<open>src/accountant/src/tier_kasplex.rs\<close>,
  in front of the tier indexers, and \<open>CircuitBreaker\<close> of
  \<open>src/payout-krc20/src/quote.rs\<close>, in front of the price feed.  The code keeps
  two copies of one machine; so does the model, and a locale states what both
  promise.  An \<open>Instant\<close> is an integer number of nanoseconds;
  \<open>duration_since\<close> is zero for an instant in the future.
\<close>

definition duration_since :: "int \<Rightarrow> int \<Rightarrow> int" where
  "duration_since now earlier = max 0 (now - earlier)"

section \<open>The tier classifier's breaker\<close>

datatype BreakerState = Closed | Open | HalfOpen

record Breaker =
  br_state :: BreakerState
  br_consecutive_failures :: int
  br_threshold :: int
  br_cooldown :: int
  br_opened_at :: "int option"

definition Breaker_new :: "int \<Rightarrow> int \<Rightarrow> Breaker" where
  "Breaker_new threshold cooldown =
     \<lparr> br_state = Closed, br_consecutive_failures = 0, br_threshold = threshold,
       br_cooldown = cooldown, br_opened_at = None \<rparr>"

definition Breaker_state :: "Breaker \<Rightarrow> int \<Rightarrow> BreakerState" where
  "Breaker_state b now =
     (case (br_state b, br_opened_at b) of
        (Open, Some opened) \<Rightarrow> if br_cooldown b \<le> duration_since now opened then HalfOpen else Open
      | (s, _) \<Rightarrow> s)"

definition Breaker_allows_request :: "Breaker \<Rightarrow> int \<Rightarrow> bool" where
  "Breaker_allows_request b now \<longleftrightarrow> Breaker_state b now \<noteq> Open"

definition Breaker_on_success :: "Breaker \<Rightarrow> Breaker" where
  "Breaker_on_success b = b\<lparr> br_state := Closed, br_consecutive_failures := 0, br_opened_at := None \<rparr>"

definition Breaker_on_failure :: "int \<Rightarrow> Breaker \<Rightarrow> Breaker" where
  "Breaker_on_failure now b =
     (if Breaker_state b now = HalfOpen then b\<lparr> br_state := Open, br_opened_at := Some now \<rparr> else
      let b' = b\<lparr> br_consecutive_failures := saturating 0 u32_max (br_consecutive_failures b + 1) \<rparr> in
      if br_threshold b' \<le> br_consecutive_failures b' then b'\<lparr> br_state := Open, br_opened_at := Some now \<rparr>
      else b')"

section \<open>The price feed's breaker\<close>

datatype CircuitState = CircuitClosed | CircuitOpened | CircuitHalfOpen

record CircuitBreaker =
  cb_state :: CircuitState
  cb_consecutive_failures :: int
  cb_failure_threshold :: int
  cb_cooldown :: int
  cb_opened_at :: "int option"

definition CircuitBreaker_new :: "int \<Rightarrow> int \<Rightarrow> CircuitBreaker" where
  "CircuitBreaker_new failure_threshold cooldown =
     \<lparr> cb_state = CircuitClosed, cb_consecutive_failures = 0, cb_failure_threshold = failure_threshold,
       cb_cooldown = cooldown, cb_opened_at = None \<rparr>"

definition CircuitBreaker_state :: "CircuitBreaker \<Rightarrow> int \<Rightarrow> CircuitState" where
  "CircuitBreaker_state b now =
     (case (cb_state b, cb_opened_at b) of
        (CircuitOpened, Some opened) \<Rightarrow>
          if cb_cooldown b \<le> duration_since now opened then CircuitHalfOpen else CircuitOpened
      | (s, _) \<Rightarrow> s)"

definition CircuitBreaker_allows_request :: "CircuitBreaker \<Rightarrow> int \<Rightarrow> bool" where
  "CircuitBreaker_allows_request b now \<longleftrightarrow> CircuitBreaker_state b now \<noteq> CircuitOpened"

definition CircuitBreaker_on_success :: "CircuitBreaker \<Rightarrow> CircuitBreaker" where
  "CircuitBreaker_on_success b =
     b\<lparr> cb_state := CircuitClosed, cb_consecutive_failures := 0, cb_opened_at := None \<rparr>"

definition CircuitBreaker_on_failure :: "int \<Rightarrow> CircuitBreaker \<Rightarrow> CircuitBreaker" where
  "CircuitBreaker_on_failure now b =
     (if CircuitBreaker_state b now = CircuitHalfOpen
      then b\<lparr> cb_state := CircuitOpened, cb_opened_at := Some now \<rparr> else
      let b' = b\<lparr> cb_consecutive_failures := saturating 0 u32_max (cb_consecutive_failures b + 1) \<rparr> in
      if cb_failure_threshold b' \<le> cb_consecutive_failures b'
      then b'\<lparr> cb_state := CircuitOpened, cb_opened_at := Some now \<rparr>
      else b')"

section \<open>The contract\<close>

text \<open>What a request reports back: a success, or a failure at an instant.\<close>

datatype report = Succeeded | FailedAt int

fun report_to :: "('b \<Rightarrow> 'b) \<Rightarrow> (int \<Rightarrow> 'b \<Rightarrow> 'b) \<Rightarrow> 'b \<Rightarrow> report \<Rightarrow> 'b" where
  "report_to success failure b Succeeded = success b"
| "report_to success failure b (FailedAt t) = failure t b"

fun trailing_failures :: "report list \<Rightarrow> int list" where
  "trailing_failures [] = []"
| "trailing_failures (Succeeded # rs) = trailing_failures rs"
| "trailing_failures (FailedAt t # rs) =
     (if Succeeded \<in> set rs then trailing_failures rs else t # trailing_failures rs)"

lemma trailing_failures_snoc:
  "trailing_failures (rs @ [Succeeded]) = []"
  "trailing_failures (rs @ [FailedAt t]) = trailing_failures rs @ [t]"
  by (induction rs rule: trailing_failures.induct) auto

locale circuit =
  fixes fresh :: 'b and allows :: "'b \<Rightarrow> int \<Rightarrow> bool"
    and success :: "'b \<Rightarrow> 'b" and failure :: "int \<Rightarrow> 'b \<Rightarrow> 'b"
    and count :: "'b \<Rightarrow> int" and opened :: "'b \<Rightarrow> int option" and inv :: "'b \<Rightarrow> bool"
    and threshold cooldown :: int
  assumes fresh: "inv fresh" "count fresh = 0" "opened fresh = None"
    and allows_iff: "inv b \<Longrightarrow> allows b now \<longleftrightarrow> pred_option (\<lambda>t. cooldown \<le> duration_since now t) (opened b)"
    and on_success: "inv b \<Longrightarrow> inv (success b) \<and> count (success b) = 0 \<and> opened (success b) = None"
    and on_failure: "inv b \<Longrightarrow> inv (failure now b)"
    and half_open: "inv b \<Longrightarrow> opened b = Some t \<Longrightarrow> cooldown \<le> duration_since now t \<Longrightarrow>
      count (failure now b) = count b \<and> opened (failure now b) = Some now"
    and counts: "inv b \<Longrightarrow> opened b = None \<or> duration_since now (the (opened b)) < cooldown \<Longrightarrow>
      count (failure now b) = saturating 0 u32_max (count b + 1) \<and>
      opened (failure now b) = (if threshold \<le> saturating 0 u32_max (count b + 1) then Some now else opened b)"
    and threshold: "0 < threshold" "threshold \<le> u32_max" and cooldown: "0 < cooldown"
begin

abbreviation after :: "report list \<Rightarrow> 'b" where
  "after rs \<equiv> foldl (report_to success failure) fresh rs"

text \<open>The counter saturates but never forgets a failure that matters.\<close>

lemma run:
  "let b = after rs; fs = trailing_failures rs in
   inv b \<and> 0 \<le> count b \<and> count b \<le> int (length fs) \<and>
   (opened b = None \<longleftrightarrow> int (length fs) < threshold) \<and>
   (int (length fs) < threshold \<longrightarrow> count b = int (length fs)) \<and>
   (opened b \<noteq> None \<longrightarrow> threshold \<le> count b \<and> fs \<noteq> [] \<and> opened b = Some (last fs))"
proof (induction rs rule: rev_induct)
  case Nil
  then show ?case using fresh threshold by (simp add: Let_def)
next
  case (snoc r rs)
  define b fs where "b = after rs" and "fs = trailing_failures rs"
  have ih: "inv b" "0 \<le> count b" "count b \<le> int (length fs)"
    "opened b = None \<longleftrightarrow> int (length fs) < threshold" "int (length fs) < threshold \<Longrightarrow> count b = int (length fs)"
    "opened b \<noteq> None \<Longrightarrow> threshold \<le> count b \<and> fs \<noteq> [] \<and> opened b = Some (last fs)"
    using snoc.IH unfolding b_def[symmetric] fs_def[symmetric] Let_def by auto
  show ?case
  proof (cases r)
    case Succeeded
    then show ?thesis using on_success[OF ih(1)] threshold by (simp add: Let_def trailing_failures_snoc b_def)
  next
    case (FailedAt t)
    have step: "after (rs @ [r]) = failure t b" "trailing_failures (rs @ [r]) = fs @ [t]"
      using FailedAt by (simp_all add: b_def fs_def trailing_failures_snoc)
    consider (half) s where "opened b = Some s" "cooldown \<le> duration_since t s"
      | (closed) "opened b = None \<or> duration_since t (the (opened b)) < cooldown"
      by (cases "opened b") (auto simp: not_le[symmetric])
    then show ?thesis
    proof cases
      case half
      then show ?thesis using half_open[OF ih(1) half] on_failure[OF ih(1), of t] ih
        unfolding step Let_def by auto
    next
      case closed
      note c = counts[OF ih(1) this]
      have sat: "saturating 0 u32_max (count b + 1) \<le> count b + 1" "0 \<le> saturating 0 u32_max (count b + 1)"
        "threshold \<le> saturating 0 u32_max (count b + 1) \<longleftrightarrow> threshold \<le> count b + 1"
        "count b + 1 \<le> threshold \<Longrightarrow> saturating 0 u32_max (count b + 1) = count b + 1"
        using ih(2) threshold by (auto simp: saturating_def)
      show ?thesis using c sat ih on_failure[OF ih(1), of t] unfolding step Let_def by (auto split: if_splits)
    qed
  qed
qed

text \<open>A request is refused exactly while the circuit is open: at least
  \<open>threshold\<close> failures since the last success, the last of them less than
  the cooldown ago.\<close>

lemma refused_iff:
  "\<not> allows (after rs) now \<longleftrightarrow>
     threshold \<le> int (length (trailing_failures rs)) \<and>
     duration_since now (last (trailing_failures rs)) < cooldown"
proof -
  define b fs where "b = after rs" and "fs = trailing_failures rs"
  have r: "inv b" "opened b = None \<longleftrightarrow> int (length fs) < threshold"
    "opened b \<noteq> None \<Longrightarrow> threshold \<le> count b \<and> fs \<noteq> [] \<and> opened b = Some (last fs)"
    using run[of rs] unfolding b_def[symmetric] fs_def[symmetric] Let_def by auto
  show ?thesis
    unfolding b_def[symmetric] fs_def[symmetric] allows_iff[OF r(1)]
    using r(2,3) by (cases "opened b") auto
qed

end

section \<open>Both breakers keep it\<close>

definition Breaker_inv :: "int \<Rightarrow> int \<Rightarrow> Breaker \<Rightarrow> bool" where
  "Breaker_inv threshold cooldown b \<longleftrightarrow>
     br_threshold b = threshold \<and> br_cooldown b = cooldown \<and>
     br_state b = (if br_opened_at b = None then Closed else Open)"

definition CircuitBreaker_inv :: "int \<Rightarrow> int \<Rightarrow> CircuitBreaker \<Rightarrow> bool" where
  "CircuitBreaker_inv threshold cooldown b \<longleftrightarrow>
     cb_failure_threshold b = threshold \<and> cb_cooldown b = cooldown \<and>
     cb_state b = (if cb_opened_at b = None then CircuitClosed else CircuitOpened)"

text \<open>The production settings of the tier classifier: five failures, thirty
  seconds.\<close>

definition DEFAULT_BREAKER_THRESHOLD :: int where "DEFAULT_BREAKER_THRESHOLD = 5"
definition DEFAULT_BREAKER_COOLDOWN :: int where "DEFAULT_BREAKER_COOLDOWN = 30000000000"

lemmas Breaker_defs = Breaker_inv_def Breaker_new_def Breaker_state_def Breaker_allows_request_def
  Breaker_on_success_def Breaker_on_failure_def Let_def

lemmas CircuitBreaker_defs = CircuitBreaker_inv_def CircuitBreaker_new_def CircuitBreaker_state_def
  CircuitBreaker_allows_request_def CircuitBreaker_on_success_def CircuitBreaker_on_failure_def Let_def

lemma tier_circuit:
  assumes "0 < threshold" "threshold \<le> u32_max" "0 < cooldown"
  shows "circuit (Breaker_new threshold cooldown) Breaker_allows_request Breaker_on_success Breaker_on_failure
    br_consecutive_failures br_opened_at (Breaker_inv threshold cooldown) threshold cooldown"
  using assms by unfold_locales (auto simp: Breaker_defs split: option.splits)

lemma quote_circuit:
  assumes "0 < threshold" "threshold \<le> u32_max" "0 < cooldown"
  shows "circuit (CircuitBreaker_new threshold cooldown) CircuitBreaker_allows_request CircuitBreaker_on_success
    CircuitBreaker_on_failure cb_consecutive_failures cb_opened_at (CircuitBreaker_inv threshold cooldown) threshold cooldown"
  using assms by unfold_locales (auto simp: CircuitBreaker_defs split: option.splits)

interpretation tier_breaker: circuit "Breaker_new DEFAULT_BREAKER_THRESHOLD DEFAULT_BREAKER_COOLDOWN"
  Breaker_allows_request Breaker_on_success Breaker_on_failure br_consecutive_failures br_opened_at
  "Breaker_inv DEFAULT_BREAKER_THRESHOLD DEFAULT_BREAKER_COOLDOWN" DEFAULT_BREAKER_THRESHOLD DEFAULT_BREAKER_COOLDOWN
  by (rule tier_circuit) (simp_all add: DEFAULT_BREAKER_THRESHOLD_def DEFAULT_BREAKER_COOLDOWN_def)

text \<open>The price feed's default settings (\<open>src/katpool/src/main.rs\<close>): three
  failures, sixty seconds.\<close>

interpretation quote_breaker: circuit "CircuitBreaker_new 3 60000000000"
  CircuitBreaker_allows_request CircuitBreaker_on_success CircuitBreaker_on_failure cb_consecutive_failures cb_opened_at
  "CircuitBreaker_inv 3 60000000000" 3 60000000000
  by (rule quote_circuit) simp_all

section \<open>Properties\<close>

text \<open>C26.  The breakers refuse exactly when they should.  After any history of
  successes and failures, with any positive settings, a request is refused if
  and only if there have been at least \<open>threshold\<close> failures since the last
  success and the last of them is less than the cooldown ago: one success or
  one quiet cooldown always lets a request through, so neither breaker can
  stay open for good.\<close>

theorem breakers_refuse_exactly:
  assumes "0 < threshold" and "threshold \<le> u32_max" and "0 < cooldown"
  shows "(Breaker_allows_request
        (foldl (report_to Breaker_on_success Breaker_on_failure) (Breaker_new threshold cooldown) rs) now \<longleftrightarrow>
      int (length (trailing_failures rs)) < threshold \<or> cooldown \<le> duration_since now (last (trailing_failures rs))) \<and>
    (CircuitBreaker_allows_request
        (foldl (report_to CircuitBreaker_on_success CircuitBreaker_on_failure) (CircuitBreaker_new threshold cooldown) rs) now \<longleftrightarrow>
      int (length (trailing_failures rs)) < threshold \<or> cooldown \<le> duration_since now (last (trailing_failures rs)))"
  using circuit.refused_iff[OF tier_circuit[OF assms], of rs now]
    circuit.refused_iff[OF quote_circuit[OF assms], of rs now]
  by (meson not_le)

theorem breakers_refuse_exactly_witness:
  "\<not> Breaker_allows_request (foldl (report_to Breaker_on_success Breaker_on_failure) (Breaker_new 2 10) [Succeeded, FailedAt 3, FailedAt 5]) 14 \<and>
   Breaker_allows_request (foldl (report_to Breaker_on_success Breaker_on_failure) (Breaker_new 2 10) [Succeeded, FailedAt 3, FailedAt 5]) 15"
  using breakers_refuse_exactly[of 2 10 "[Succeeded, FailedAt 3, FailedAt 5]" 14]
    breakers_refuse_exactly[of 2 10 "[Succeeded, FailedAt 3, FailedAt 5]" 15]
  by (simp add: duration_since_def)

end
