(* ===== verification/Rebate.thy ===== *)
theory Rebate
  imports Complex_Main RustStr Breaker
begin

text \<open>
  The price of a NACHO token and the conversion of a rebate,
  \<open>src/payout-krc20/src/rebate.rs\<close> and \<open>quote.rs\<close>.  \<open>BigDecimal\<close>, the JSON
  decoder and the HTTP client are third-party code: they enter as the record
  \<open>quote_lib\<close> and as the reply of the price service.
\<close>

section \<open>Fixed-point prices\<close>

definition DEFAULT_MIN_PENDING_SOMPI :: int where "DEFAULT_MIN_PENDING_SOMPI = 1000000000"
definition DEFAULT_MIN_NACHO_BASE_UNITS :: int where "DEFAULT_MIN_NACHO_BASE_UNITS = 100000000"
definition MAX_FLOOR_PRICE_SCALE :: nat where "MAX_FLOOR_PRICE_SCALE = 18"

datatype RebateError = PriceParse string string | NegativePending int | RebateOverflow

record FloorPrice =
  fp_mantissa :: int
  fp_scale :: nat

definition from_mantissa_scale :: "int \<Rightarrow> nat \<Rightarrow> (RebateError, FloorPrice) outcome" where
  "from_mantissa_scale mantissa scl =
     (let input = show_int mantissa @ ''e-'' @ show_nat scl in
      if mantissa = 0 then Err (PriceParse input ''price is zero'')
      else if MAX_FLOOR_PRICE_SCALE < scl then Err (PriceParse input ''scale exceeds maximum'')
      else Ok \<lparr> fp_mantissa = mantissa, fp_scale = scl \<rparr>)"

definition part :: "string list \<Rightarrow> nat \<Rightarrow> string" where
  "part ps i = (if i < length ps then ps ! i else [])"

definition from_decimal_str :: "string \<Rightarrow> (RebateError, FloorPrice) outcome" where
  "from_decimal_str input =
     (let parts = split_char (CHR ''.'') input; int_part = part parts 0; frac_part = part parts 1;
          err = (\<lambda>reason. Err (PriceParse input reason)) in
      if input = [] then err ''empty''
      else if 2 < length parts then err ''multiple decimal points''
      else if int_part = [] \<and> frac_part = [] then err ''no digits''
      else if \<not> list_all is_ascii_digit (int_part @ frac_part) then err ''non-digit character''
      else if MAX_FLOOR_PRICE_SCALE < length frac_part then err ''scale exceeds maximum''
      else case parse_uint u128_max (int_part @ frac_part) of
             None \<Rightarrow> err ''value out of range''
           | Some mantissa \<Rightarrow>
               if mantissa = 0 then err ''price is zero''
               else Ok \<lparr> fp_mantissa = mantissa, fp_scale = length frac_part \<rparr>)"

definition nacho_base_units :: "int \<Rightarrow> FloorPrice \<Rightarrow> (RebateError, int) outcome" where
  "nacho_base_units pending price =
     (if pending < 0 then Err (NegativePending pending) else
      and_then (ok_or RebateOverflow (checked 0 u128_max (10 ^ fp_scale price))) (\<lambda>factor.
      and_then (ok_or RebateOverflow (checked 0 u128_max (pending * factor))) (\<lambda>scaled.
      Ok (scaled div fp_mantissa price))))"

definition is_payable :: "int \<Rightarrow> int \<Rightarrow> bool" where
  "is_payable amount min_amount \<longleftrightarrow> min_amount \<le> amount"

section \<open>Quotes\<close>

text \<open>\<open>decimal\<close> is \<open>BigDecimal::from_str\<close> of the trimmed text;
  \<open>ratio_mantissa\<close> is the mantissa of a quotient after
  \<open>with_scale_round(18, Down)\<close>; \<open>json\<close> decodes a body to coin id, currency and
  the verbatim number.\<close>

record quote_lib =
  decimal :: "string \<Rightarrow> rat option"
  ratio_mantissa :: "rat \<Rightarrow> rat \<Rightarrow> int"
  json :: "string \<Rightarrow> (string \<Rightarrow> (string \<Rightarrow> string option) option) option"

datatype QuoteError =
    QuoteUpstream
  | QuoteStatus int
  | QuoteMalformed string
  | QuotePrice RebateError
  | CircuitOpen

definition QUOTE_VS_CURRENCY :: string where "QUOTE_VS_CURRENCY = ''usd''"
definition DEFAULT_QUOTE_BASE :: string where "DEFAULT_QUOTE_BASE = ''https://api.coingecko.com''"
definition DEFAULT_NACHO_COIN_ID :: string where "DEFAULT_NACHO_COIN_ID = ''nacho-the-kat''"
definition DEFAULT_KASPA_COIN_ID :: string where "DEFAULT_KASPA_COIN_ID = ''kaspa''"

definition usd_quote :: "(string \<Rightarrow> (string \<Rightarrow> string option) option) \<Rightarrow> string \<Rightarrow> (QuoteError, string) outcome" where
  "usd_quote parsed coin_id =
     ok_or (QuoteMalformed (''missing '' @ coin_id @ ''/'' @ QUOTE_VS_CURRENCY @ '' in quote''))
       (Option.bind (parsed coin_id) (\<lambda>legs. legs QUOTE_VS_CURRENCY))"

definition derive_floor_price :: "quote_lib \<Rightarrow> string \<Rightarrow> string \<Rightarrow> (QuoteError, FloorPrice) outcome" where
  "derive_floor_price lib nacho_usd kaspa_usd =
     and_then (ok_or (QuoteMalformed (''nacho quote'')) (decimal lib nacho_usd)) (\<lambda>nacho.
     and_then (ok_or (QuoteMalformed (''kaspa quote'')) (decimal lib kaspa_usd)) (\<lambda>kaspa.
     if nacho < 0 \<or> kaspa < 0 then Err (QuoteMalformed ''negative quote'')
     else if nacho = 0 then Err (QuoteMalformed ''nacho quote is zero'')
     else if kaspa = 0 then Err (QuoteMalformed ''kaspa quote is zero (division undefined)'')
     else and_then (ok_or (QuoteMalformed ''derived price overflows u128'')
              (checked 0 u128_max (ratio_mantissa lib nacho kaspa))) (\<lambda>mantissa.
          map_err QuotePrice (from_mantissa_scale mantissa MAX_FLOOR_PRICE_SCALE))))"

definition parse_simple_price_response ::
  "quote_lib \<Rightarrow> string \<Rightarrow> string \<Rightarrow> string \<Rightarrow> (QuoteError, FloorPrice) outcome" where
  "parse_simple_price_response lib body nacho_id kaspa_id =
     and_then (ok_or (QuoteMalformed ''json'') (json lib body)) (\<lambda>parsed.
     and_then (usd_quote parsed nacho_id) (\<lambda>nacho_usd.
     and_then (usd_quote parsed kaspa_id) (\<lambda>kaspa_usd.
     derive_floor_price lib nacho_usd kaspa_usd)))"

record CoinGeckoFloorPrice =
  cg_base :: string
  cg_nacho_id :: string
  cg_kaspa_id :: string

definition CoinGeckoFloorPrice_new :: "string \<Rightarrow> CoinGeckoFloorPrice" where
  "CoinGeckoFloorPrice_new base =
     \<lparr> cg_base = base, cg_nacho_id = DEFAULT_NACHO_COIN_ID, cg_kaspa_id = DEFAULT_KASPA_COIN_ID \<rparr>"

text \<open>A reply of the price service: none, or a status with the body when it
  could be read.\<close>

datatype quote_reply = No_reply | Quote_reply int "string option"

definition quote_url :: "CoinGeckoFloorPrice \<Rightarrow> string" where
  "quote_url cg = cg_base cg @ ''/api/v3/simple/price?ids='' @ cg_nacho_id cg @ '','' @ cg_kaspa_id cg @
     ''&vs_currencies='' @ QUOTE_VS_CURRENCY @ ''&precision=18''"

definition floor_price ::
  "quote_lib \<Rightarrow> (string \<Rightarrow> quote_reply) \<Rightarrow> CoinGeckoFloorPrice \<Rightarrow> (QuoteError, FloorPrice) outcome" where
  "floor_price lib http cg =
     (case http (quote_url cg) of
        No_reply \<Rightarrow> Err QuoteUpstream
      | Quote_reply status body \<Rightarrow>
          if status \<noteq> 200 then Err (QuoteStatus status) else
          and_then (ok_or QuoteUpstream body) (\<lambda>b.
          parse_simple_price_response lib b (cg_nacho_id cg) (cg_kaspa_id cg)))"

text \<open>\<open>BreakeredSource::floor_price\<close>: \<open>t0\<close> is the clock before the request,
  \<open>t1\<close> after it.\<close>

definition breakered_floor_price ::
  "(QuoteError, FloorPrice) outcome \<Rightarrow> int \<Rightarrow> int \<Rightarrow> CircuitBreaker \<Rightarrow>
     (QuoteError, FloorPrice) outcome \<times> CircuitBreaker" where
  "breakered_floor_price inner t0 t1 b =
     (if \<not> CircuitBreaker_allows_request b t0 then (Err CircuitOpen, b)
      else (inner, if is_ok inner then CircuitBreaker_on_success b else CircuitBreaker_on_failure t1 b))"

section \<open>Prices as numbers\<close>

definition FloorPrice_ok :: "FloorPrice \<Rightarrow> bool" where
  "FloorPrice_ok p \<longleftrightarrow> 0 < fp_mantissa p \<and> fp_mantissa p \<le> u128_max \<and> fp_scale p \<le> MAX_FLOOR_PRICE_SCALE"

definition price_value :: "FloorPrice \<Rightarrow> rat" where
  "price_value p = of_int (fp_mantissa p) / 10 ^ fp_scale p"

lemma nacho_base_units_eq:
  assumes "FloorPrice_ok p" and "0 \<le> pending" and "pending \<le> i64_max"
  shows "nacho_base_units pending p = Ok (pending * 10 ^ fp_scale p div fp_mantissa p)"
proof -
  have "(10::int) ^ fp_scale p \<le> 10 ^ 18"
    using assms(1) by (intro power_increasing) (simp_all add: FloorPrice_ok_def MAX_FLOOR_PRICE_SCALE_def)
  then have f: "(10::int) ^ fp_scale p \<le> 1000000000000000000" by simp
  have pos: "(0::int) \<le> 10 ^ fp_scale p" by simp
  have "pending * 10 ^ fp_scale p \<le> 9223372036854775807 * 1000000000000000000"
    using assms(2,3) f pos by (intro mult_mono) simp_all
  then show ?thesis using assms(2) f pos by (simp add: nacho_base_units_def checked_def in_range_def)
qed

section \<open>Decimal prices\<close>

lemma digits_no_point: "list_all is_ascii_digit xs \<Longrightarrow> CHR ''.'' \<notin> set xs"
  by (auto simp: list_all_iff is_ascii_digit_def)

text \<open>What a decimal price string denotes: digits, and optionally a point and
  more digits.\<close>

definition denotes :: "string \<Rightarrow> string \<Rightarrow> string \<Rightarrow> bool" where
  "denotes s i f \<longleftrightarrow> (s = i \<and> f = [] \<or> s = i @ CHR ''.'' # f) \<and> list_all is_ascii_digit (i @ f) \<and> i @ f \<noteq> []"

lemma denotes_parts:
  assumes "denotes s i f"
  shows "part (split_char (CHR ''.'') s) 0 = i \<and> part (split_char (CHR ''.'') s) 1 = f \<and>
    length (split_char (CHR ''.'') s) \<le> 2 \<and> s \<noteq> []"
proof -
  have "CHR ''.'' \<notin> set i" "CHR ''.'' \<notin> set f" using assms digits_no_point by (auto simp: denotes_def)
  then show ?thesis using assms by (auto simp: denotes_def part_def split_char_no_sep split_char_one)
qed

lemma parts_denote:
  assumes "length (split_char (CHR ''.'') s) \<le> 2" and "i = part (split_char (CHR ''.'') s) 0"
    and "f = part (split_char (CHR ''.'') s) 1" and "list_all is_ascii_digit (i @ f)" and "i @ f \<noteq> []"
  shows "denotes s i f"
proof -
  obtain p ps where sp: "split_char (CHR ''.'') s = p # ps" 
    using split_char_nonempty[of "CHR ''.''" s] by (cases "split_char (CHR ''.'') s") auto
  show ?thesis
  proof (cases ps)
    case Nil
    with split_char_parts[OF sp] sp assms show ?thesis by (simp add: denotes_def part_def)
  next
    case (Cons q qs)
    with assms(1) sp have "qs = []" by simp
    with Cons split_char_parts[OF sp] obtain ys where ys: "s = p @ CHR ''.'' # ys" "split_char (CHR ''.'') ys = [q]"
      by auto
    from split_char_parts[OF ys(2)] have "ys = q" by simp
    with ys sp Cons assms show ?thesis by (simp add: denotes_def part_def)
  qed
qed

section \<open>Properties\<close>

text \<open>C25. The price reader accepts exactly the plain decimals: digits with at
  most one point and at most 18 digits after it, at least one digit, a value
  that fits \<open>u128\<close> and is not zero; the price it returns has the number those
  digits denote as its mantissa and their count after the point as its scale.\<close>

theorem from_decimal_str_exact:
  "from_decimal_str s = Ok p \<longleftrightarrow>
     FloorPrice_ok p \<and> (\<exists>i f. denotes s i f \<and> fp_mantissa p = decimal_value (i @ f) \<and> fp_scale p = length f)"
proof
  assume ok: "from_decimal_str s = Ok p"
  define i where "i = part (split_char (CHR ''.'') s) 0"
  define f where "f = part (split_char (CHR ''.'') s) 1"
  from ok have len: "length (split_char (CHR ''.'') s) \<le> 2" and ne: "i @ f \<noteq> []"
    and ds: "list_all is_ascii_digit (i @ f)" and sc: "length f \<le> MAX_FLOOR_PRICE_SCALE"
    and v: "\<exists>m. parse_uint u128_max (i @ f) = Some m \<and> m \<noteq> 0 \<and> p = \<lparr> fp_mantissa = m, fp_scale = length f \<rparr>"
    by (auto simp: from_decimal_str_def Let_def i_def[symmetric] f_def[symmetric] simp del: One_nat_def
        split: if_splits option.splits)
  then obtain m where m: "parse_uint u128_max (i @ f) = Some m" "m \<noteq> 0" "p = \<lparr> fp_mantissa = m, fp_scale = length f \<rparr>"
    by blast
  have d: "denotes s i f" by (rule parts_denote[OF len i_def f_def ds ne])
  have mv: "m = decimal_value (i @ f)" using m(1) parse_uint_digits[OF ds ne, of u128_max] by simp
  have "FloorPrice_ok p" using parse_uint_bounds[OF m(1)] m(2,3) sc by (simp add: FloorPrice_ok_def)
  with d mv m(3) show "FloorPrice_ok p \<and> (\<exists>i f. denotes s i f \<and> fp_mantissa p = decimal_value (i @ f) \<and> fp_scale p = length f)"
    by auto
next
  assume "FloorPrice_ok p \<and> (\<exists>i f. denotes s i f \<and> fp_mantissa p = decimal_value (i @ f) \<and> fp_scale p = length f)"
  then obtain i f where p: "FloorPrice_ok p" and d: "denotes s i f"
    and m: "fp_mantissa p = decimal_value (i @ f)" "fp_scale p = length f" by blast
  note parts = denotes_parts[OF d]
  have ds: "list_all is_ascii_digit (i @ f)" "i @ f \<noteq> []" using d by (simp_all add: denotes_def)
  have "parse_uint u128_max (i @ f) = Some (fp_mantissa p)"
    using parse_uint_digits[OF ds, of u128_max] m p by (simp add: FloorPrice_ok_def)
  then show "from_decimal_str s = Ok p"
    using parts ds p m by (auto simp: from_decimal_str_def Let_def FloorPrice_ok_def)
qed

lemma nacho_base_units_value:
  assumes "FloorPrice_ok p" and "0 \<le> pending" and "pending \<le> i64_max"
  shows "\<exists>n. nacho_base_units pending p = Ok n \<and>
    of_int n * price_value p \<le> of_int pending \<and> of_int pending < of_int (n + 1) * price_value p"
proof -
  define m f where "m = fp_mantissa p" and "f = (10::int) ^ fp_scale p"
  define n where "n = pending * f div m"
  have m: "0 < m" and f: "0 < f" using assms(1) by (simp_all add: FloorPrice_ok_def m_def f_def)
  have "n * m = pending * f - pending * f mod m" by (simp add: n_def minus_mod_eq_div_mult)
  then have "n * m \<le> pending * f" "pending * f < (n + 1) * m"
    using pos_mod_sign[OF m, of "pending * f"] pos_mod_bound[OF m, of "pending * f"] by (simp_all add: algebra_simps)
  then have le: "(of_int (n * m) :: rat) \<le> of_int (pending * f)" "(of_int (pending * f) :: rat) < of_int ((n + 1) * m)"
    by (simp_all only: of_int_le_iff of_int_less_iff)
  have pv: "price_value p = of_int m / of_int f" by (simp add: price_value_def m_def f_def)
  have "of_int n * price_value p \<le> of_int pending \<and> of_int pending < of_int (n + 1) * price_value p"
    unfolding pv using le f by (simp add: field_simps)
  then show ?thesis using nacho_base_units_eq[OF assms] unfolding n_def m_def f_def by blast
qed



text \<open>The documented behaviour of the quotient: truncated to 18 digits.\<close>

definition ratio_truncates :: "quote_lib \<Rightarrow> bool" where
  "ratio_truncates lib \<longleftrightarrow> (\<forall>a b. 0 < a \<and> 0 < b \<longrightarrow> ratio_mantissa lib a b = \<lfloor>a / b * 10 ^ 18\<rfloor>)"

lemma derive_floor_price_Ok:
  assumes "derive_floor_price lib x y = Ok p" and "ratio_truncates lib"
  obtains a b where "decimal lib x = Some a" "decimal lib y = Some b" "0 < a" "0 < b" "FloorPrice_ok p"
    "price_value p \<le> a / b" "a / b < price_value p + 1 / 10 ^ 18"
proof -
  from assms(1) obtain a b m where ab: "decimal lib x = Some a" "decimal lib y = Some b"
    "\<not> (a < 0 \<or> b < 0)" "a \<noteq> 0" "b \<noteq> 0"
    and m: "checked 0 u128_max (ratio_mantissa lib a b) = Some m"
    and p: "from_mantissa_scale m MAX_FLOOR_PRICE_SCALE = Ok p"
    unfolding derive_floor_price_def by (elim and_then_OkE) (auto simp: outcome_simps split: if_split_asm)
  then have pos: "0 < a" "0 < b" by auto
  have fm: "m = \<lfloor>a / b * 10 ^ 18\<rfloor>" "0 \<le> m" "m \<le> u128_max"
    using m assms(2) pos by (auto simp: ratio_truncates_def checked_def in_range_def split: if_splits)
  have pv: "p = \<lparr> fp_mantissa = m, fp_scale = 18 \<rparr>" "m \<noteq> 0"
    using p by (auto simp: from_mantissa_scale_def Let_def MAX_FLOOR_PRICE_SCALE_def split: if_splits)
  have "of_int m \<le> a / b * 10 ^ 18" "a / b * 10 ^ 18 < of_int m + 1" using fm(1) by linarith+
  then have "of_int m / 10 ^ 18 \<le> a / b" "a / b < of_int m / 10 ^ 18 + 1 / 10 ^ 18"
    by (simp_all add: pos_divide_le_eq pos_less_divide_eq add_divide_distrib[symmetric])
  moreover have "FloorPrice_ok p" using pv fm(2,3) by (simp add: FloorPrice_ok_def MAX_FLOOR_PRICE_SCALE_def)
  ultimately show thesis using that[OF ab(1,2) pos] pv by (simp add: price_value_def)
qed


definition demo_quote_lib :: quote_lib where
  "demo_quote_lib = \<lparr> decimal = (\<lambda>s. if s = ''1'' then Some 1 else if s = ''3'' then Some 3 else None),
     ratio_mantissa = (\<lambda>a b. \<lfloor>a / b * 10 ^ 18\<rfloor>), json = (\<lambda>_. None) \<rparr>"

text \<open>One third, and a balance of ten billion KAS: three base units more than
  the exact three to one.\<close>

lemma demo_derive: "derive_floor_price demo_quote_lib ''1'' ''3'' =
    Ok \<lparr> fp_mantissa = 333333333333333333, fp_scale = 18 \<rparr>"
proof -
  have "\<lfloor>(1::rat) / 3 * 10 ^ 18\<rfloor> = 333333333333333333" by (simp add: floor_eq_iff)
  then show ?thesis
    by (simp add: derive_floor_price_def demo_quote_lib_def checked_def in_range_def from_mantissa_scale_def
        MAX_FLOOR_PRICE_SCALE_def Let_def)
qed


end
