(* ===== verification/Krc20Tx.thy ===== *)
theory Krc20Tx
  imports PayoutKas Rebate
begin

text \<open>
  The commit/reveal pair of a KRC-20 transfer, \<open>src/payout-krc20/src\<close>:
  \<open>inscription.rs\<close> (the envelope), \<open>plan.rs\<close> (funding, fees and masses) and
  \<open>sign.rs\<close> (assembly and signing).  The script builder, the JSON writer,
  script hashes, addresses and Schnorr signatures are third-party code: the
  record \<open>krc20_lib\<close>.
\<close>

section \<open>The envelope\<close>

datatype script_op = OpCheckSig | OpFalse | OpIf | OpEndIf

datatype script_item = AddData "8 word list" | AddOp script_op | AddI64 int

text \<open>\<open>kr_xonly\<close> is the public key of the treasury secret, \<open>kr_json\<close> the compact
  JSON of an object with string fields in the given order, \<open>kr_schnorr\<close> the
  64-byte signature of a transaction's only input, None when the digest is no
  message.\<close>

record krc20_lib =
  kr_kaspa :: kaspa_lib
  kr_xonly :: "8 word list"
  kr_json :: "(string \<times> string) list \<Rightarrow> string option"
  kr_script :: "script_item list \<Rightarrow> 8 word list option"
  kr_script_hash :: "8 word list \<Rightarrow> ScriptPublicKey"
  kr_script_address :: "ScriptPublicKey \<Rightarrow> string \<Rightarrow> string option"
  kr_signature_script :: "8 word list \<Rightarrow> 8 word list \<Rightarrow> 8 word list option"
  kr_prefix :: "string \<Rightarrow> string"
  kr_schnorr :: "Transaction \<Rightarrow> UtxoEntry \<Rightarrow> 8 word list option"

definition bytes_of :: "string \<Rightarrow> 8 word list" where
  "bytes_of s = map (\<lambda>c. of_nat (of_char c)) s"

definition KASPLEX_TAG :: "8 word list" where "KASPLEX_TAG = bytes_of ''kasplex''"
definition KRC20_PROTOCOL :: string where "KRC20_PROTOCOL = ''krc-20''"

datatype InscriptionError = ScriptBuilderError | InscriptionAddress | InscriptionJson

record Krc20Transfer =
  kt_p :: string
  kt_op :: string
  kt_tick :: string
  kt_amt :: string
  kt_to :: string

definition Krc20Transfer_new :: "string \<Rightarrow> string \<Rightarrow> string \<Rightarrow> Krc20Transfer" where
  "Krc20Transfer_new tick amt to =
     \<lparr> kt_p = KRC20_PROTOCOL, kt_op = ''transfer'', kt_tick = tick, kt_amt = amt, kt_to = to \<rparr>"

definition to_json :: "krc20_lib \<Rightarrow> Krc20Transfer \<Rightarrow> (InscriptionError, string) outcome" where
  "to_json lib t =
     ok_or InscriptionJson (kr_json lib [(''p'', kt_p t), (''op'', kt_op t), (''tick'', kt_tick t), (''amt'', kt_amt t), (''to'', kt_to t)])"

definition build_transfer_inscription ::
  "krc20_lib \<Rightarrow> 8 word list \<Rightarrow> Krc20Transfer \<Rightarrow> (InscriptionError, 8 word list) outcome" where
  "build_transfer_inscription lib xonly transfer =
     and_then (to_json lib transfer) (\<lambda>json.
     ok_or ScriptBuilderError (kr_script lib
       [AddData xonly, AddOp OpCheckSig, AddOp OpFalse, AddOp OpIf, AddData KASPLEX_TAG, AddI64 0, AddData (bytes_of json),
        AddOp OpEndIf]))"

definition commit_script_public_key :: "krc20_lib \<Rightarrow> 8 word list \<Rightarrow> ScriptPublicKey" where
  "commit_script_public_key lib redeem = kr_script_hash lib redeem"

definition commit_address :: "krc20_lib \<Rightarrow> 8 word list \<Rightarrow> string \<Rightarrow> (InscriptionError, string) outcome" where
  "commit_address lib redeem prefix =
     ok_or InscriptionAddress (kr_script_address lib (commit_script_public_key lib redeem) prefix)"

definition reveal_signature_script ::
  "krc20_lib \<Rightarrow> 8 word list \<Rightarrow> 8 word list \<Rightarrow> (InscriptionError, 8 word list) outcome" where
  "reveal_signature_script lib redeem signature = ok_or ScriptBuilderError (kr_signature_script lib redeem signature)"

section \<open>Planning\<close>

definition STANDARD_SIGNATURE_SCRIPT_LEN :: nat where "STANDARD_SIGNATURE_SCRIPT_LEN = 66"
definition DEFAULT_COMMIT_AMOUNT_SOMPI :: int where "DEFAULT_COMMIT_AMOUNT_SOMPI = 20000000"
definition SIG_OP_COUNT_PER_INPUT :: int where "SIG_OP_COUNT_PER_INPUT = 1"

datatype Krc20FeePolicy = Adaptive FeeRate | Frozen int int

definition reveal_fee_of :: "Krc20FeePolicy \<Rightarrow> TxMass \<Rightarrow> int" where
  "reveal_fee_of p t = (case p of Adaptive rate \<Rightarrow> fee_for rate t | Frozen c r \<Rightarrow> r)"

definition commit_fee_of :: "Krc20FeePolicy \<Rightarrow> TxMass \<Rightarrow> int" where
  "commit_fee_of p t = (case p of Adaptive rate \<Rightarrow> fee_for rate t | Frozen c r \<Rightarrow> c)"

record CommitRevealConfig =
  cc_commit_amount_sompi :: int
  cc_fee_policy :: Krc20FeePolicy

record PlannedCommitReveal =
  cr_redeem_script :: "8 word list"
  cr_commit_script_public_key :: ScriptPublicKey
  cr_commit_amount_sompi :: int
  cr_commit_inputs :: "TreasuryUtxo list"
  cr_commit_change_sompi :: int
  cr_commit_fee_sompi :: int
  cr_commit_mass :: TxMass
  cr_reveal_return_sompi :: int
  cr_reveal_fee_sompi :: int
  cr_reveal_mass :: TxMass

datatype PlanError =
    PlanInscription InscriptionError
  | InsufficientFunds int int
  | RevealBelowFloor int int
  | CommitMassExceeded TxMass int
  | RevealMassExceeded TxMass int
  | MassEval MassEvaluationError

definition reveal_return :: "int \<Rightarrow> int \<Rightarrow> (PlanError, int) outcome" where
  "reveal_return commit_amount reveal_fee =
     (case checked 0 u64_max (commit_amount - reveal_fee) of
        Some r \<Rightarrow> if MIN_PAYOUT_OUTPUT_SOMPI \<le> r then Ok r
                  else Err (RevealBelowFloor (saturating 0 u64_max (commit_amount - reveal_fee)) MIN_PAYOUT_OUTPUT_SOMPI)
      | None \<Rightarrow> Err (RevealBelowFloor (saturating 0 u64_max (commit_amount - reveal_fee)) MIN_PAYOUT_OUTPUT_SOMPI))"

definition zero_mass :: TxMass where
  "zero_mass = \<lparr> compute_mass = 0, storage_mass = 0, transient_mass = 0 \<rparr>"

definition reveal_only ::
  "krc20_lib \<Rightarrow> 8 word list \<Rightarrow> Krc20Transfer \<Rightarrow> int \<Rightarrow> int \<Rightarrow> (PlanError, PlannedCommitReveal) outcome" where
  "reveal_only lib xonly transfer commit_amount reveal_fee =
     and_then (reveal_return commit_amount reveal_fee) (\<lambda>ret.
     and_then (map_err PlanInscription (build_transfer_inscription lib xonly transfer)) (\<lambda>redeem.
     Ok \<lparr> cr_redeem_script = redeem, cr_commit_script_public_key = commit_script_public_key lib redeem,
          cr_commit_amount_sompi = commit_amount, cr_commit_inputs = [], cr_commit_change_sompi = 0,
          cr_commit_fee_sompi = 0, cr_commit_mass = zero_mass, cr_reveal_return_sompi = ret,
          cr_reveal_fee_sompi = reveal_fee, cr_reveal_mass = zero_mass \<rparr>))"

definition build_tx ::
  "krc20_lib \<Rightarrow> (TransactionOutpoint \<times> 8 word list) list \<Rightarrow> TransactionOutput list \<Rightarrow> Transaction" where
  "build_tx lib inputs outputs =
     \<lparr> tx_version = 0,
       tx_inputs = map (\<lambda>(outpoint, script). \<lparr> ti_previous_outpoint = outpoint, ti_signature_script = script, ti_sequence = 0,
                          ti_sig_op_count = SIG_OP_COUNT_PER_INPUT \<rparr>) inputs,
       tx_outputs = outputs, tx_lock_time = 0, tx_subnetwork_id = kl_native_subnetwork (kr_kaspa lib), tx_gas = 0, tx_payload = [] \<rparr>"

definition commit_outputs :: "ScriptPublicKey \<Rightarrow> int \<Rightarrow> ScriptPublicKey \<Rightarrow> int \<Rightarrow> TransactionOutput list" where
  "commit_outputs commit_spk commit_amount treasury_script change =
     \<lparr> to_value = commit_amount, to_script_public_key = commit_spk \<rparr> #
     (if 0 < change then [\<lparr> to_value = change, to_script_public_key = treasury_script \<rparr>] else [])"

definition commit_mass ::
  "krc20_lib \<Rightarrow> MassEvaluator \<Rightarrow> TreasuryUtxo list \<Rightarrow> ScriptPublicKey \<Rightarrow> int \<Rightarrow> ScriptPublicKey \<Rightarrow> int \<Rightarrow>
     (MassEvaluationError, TxMass) outcome" where
  "commit_mass lib ev inputs commit_spk commit_amount treasury_script change =
     evaluate_populated ev
       (build_tx lib (map (\<lambda>u. (tu_outpoint u, replicate STANDARD_SIGNATURE_SCRIPT_LEN 0)) inputs)
          (commit_outputs commit_spk commit_amount treasury_script change))
       (map tu_entry inputs)"

record FundedCommit =
  fc_inputs :: "TreasuryUtxo list"
  fc_change_sompi :: int
  fc_fee_sompi :: int
  fc_mass :: TxMass

text \<open>The while loop over the number of inputs, as a recursion over the counts it
  tries.\<close>

fun fund_loop ::
  "krc20_lib \<Rightarrow> MassEvaluator \<Rightarrow> TreasuryUtxo list \<Rightarrow> ScriptPublicKey \<Rightarrow> ScriptPublicKey \<Rightarrow> int \<Rightarrow> Krc20FeePolicy \<Rightarrow>
     nat list \<Rightarrow> (PlanError, FundedCommit option) outcome" where
  "fund_loop lib ev coins commit_spk treasury_script commit_amount policy [] = Ok None"
| "fund_loop lib ev coins commit_spk treasury_script commit_amount policy (n # ns) =
     (let inputs = take n coins in
      and_then (sum_u64 (map tu_amount inputs)) (\<lambda>input_sum.
      if input_sum \<le> commit_amount then fund_loop lib ev coins commit_spk treasury_script commit_amount policy ns
      else
      and_then (map_err MassEval (commit_mass lib ev inputs commit_spk commit_amount treasury_script (input_sum - commit_amount)))
        (\<lambda>gross_mass.
      let fee = commit_fee_of policy gross_mass in
      if input_sum < saturating 0 u64_max (commit_amount + fee)
      then fund_loop lib ev coins commit_spk treasury_script commit_amount policy ns
      else
      let change = input_sum - commit_amount - fee in
      if change = 0 \<or> is_change_dust (me_calculator ev) change treasury_script
      then
        and_then (map_err MassEval (commit_mass lib ev inputs commit_spk commit_amount treasury_script 0)) (\<lambda>mass.
        Ok (Some \<lparr> fc_inputs = inputs, fc_change_sompi = 0, fc_fee_sompi = input_sum - commit_amount, fc_mass = mass \<rparr>))
      else
        Ok (Some \<lparr> fc_inputs = inputs, fc_change_sompi = change, fc_fee_sompi = fee, fc_mass = gross_mass \<rparr>))))"

definition fund_commit ::
  "krc20_lib \<Rightarrow> MassEvaluator \<Rightarrow> TreasuryUtxo list \<Rightarrow> ScriptPublicKey \<Rightarrow> ScriptPublicKey \<Rightarrow> int \<Rightarrow> Krc20FeePolicy \<Rightarrow>
     (PlanError, FundedCommit) outcome" where
  "fund_commit lib ev utxos commit_spk treasury_script commit_amount policy =
     (let coins = sort_key (\<lambda>u. - tu_amount u) utxos in
      and_then (sum_u64 (map tu_amount coins)) (\<lambda>available.
      and_then (fund_loop lib ev coins commit_spk treasury_script commit_amount policy [1..<Suc (length coins)]) (\<lambda>funded.
      case funded of
        Some f \<Rightarrow> Ok f
      | None \<Rightarrow>
          let needed = (case checked 0 u64_max (available - commit_amount) of
                None \<Rightarrow> commit_amount
              | Some gross \<Rightarrow>
                  (case commit_mass lib ev coins commit_spk commit_amount treasury_script gross of
                     Ok t \<Rightarrow> saturating 0 u64_max (commit_amount + commit_fee_of policy t)
                   | _ \<Rightarrow> commit_amount)) in
          Err (InsufficientFunds needed available))))"

definition reveal_entry_of :: "int \<Rightarrow> ScriptPublicKey \<Rightarrow> UtxoEntry" where
  "reveal_entry_of commit_amount commit_spk =
     \<lparr> ue_amount = commit_amount, ue_script_public_key = commit_spk, ue_block_daa_score = 0, ue_is_coinbase = False,
       ue_covenant_id = None \<rparr>"

definition plan_commit_reveal ::
  "krc20_lib \<Rightarrow> MassEvaluator \<Rightarrow> TreasuryUtxo list \<Rightarrow> ScriptPublicKey \<Rightarrow> 8 word list \<Rightarrow> Krc20Transfer \<Rightarrow> CommitRevealConfig \<Rightarrow>
     (PlanError, PlannedCommitReveal) outcome" where
  "plan_commit_reveal lib ev utxos treasury_script xonly transfer cfg =
     (let commit_amount = cc_commit_amount_sompi cfg; policy = cc_fee_policy cfg in
      and_then (map_err PlanInscription (build_transfer_inscription lib xonly transfer)) (\<lambda>redeem.
      let commit_spk = commit_script_public_key lib redeem in
      and_then (map_err PlanInscription
          (reveal_signature_script lib redeem (replicate STANDARD_SIGNATURE_SCRIPT_LEN 0))) (\<lambda>reveal_sig.
      let reveal_tx = build_tx lib [(\<lparr> op_transaction_id = replicate 32 0, op_index = 0 \<rparr>, reveal_sig)]
            [\<lparr> to_value = commit_amount, to_script_public_key = treasury_script \<rparr>] in
      and_then (map_err MassEval (evaluate_populated ev reveal_tx [reveal_entry_of commit_amount commit_spk])) (\<lambda>reveal_mass.
      if \<not> fits_independently (block_mass_limit ev) reveal_mass then Err (RevealMassExceeded reveal_mass (block_mass_limit ev))
      else
      let reveal_fee = reveal_fee_of policy reveal_mass in
      and_then (reveal_return commit_amount reveal_fee) (\<lambda>ret.
      and_then (fund_commit lib ev utxos commit_spk treasury_script commit_amount policy) (\<lambda>commit.
      if \<not> fits_independently (block_mass_limit ev) (fc_mass commit) then Err (CommitMassExceeded (fc_mass commit) (block_mass_limit ev))
      else
      Ok \<lparr> cr_redeem_script = redeem, cr_commit_script_public_key = commit_spk, cr_commit_amount_sompi = commit_amount,
           cr_commit_inputs = fc_inputs commit, cr_commit_change_sompi = fc_change_sompi commit,
           cr_commit_fee_sompi = fc_fee_sompi commit, cr_commit_mass = fc_mass commit, cr_reveal_return_sompi = ret,
           cr_reveal_fee_sompi = reveal_fee, cr_reveal_mass = reveal_mass \<rparr>))))))"

section \<open>Signing\<close>

definition COMMIT_P2SH_OUTPUT_INDEX :: int where "COMMIT_P2SH_OUTPUT_INDEX = 0"
definition COMMIT_CHANGE_OUTPUT_INDEX :: int where "COMMIT_CHANGE_OUTPUT_INDEX = 1"

datatype Krc20SignError = CommitEmptyInputs | CommitVirtualInput | TreasuryKey | SighashMessage | RevealScript | ScriptVerify nat

record SignedCommit =
  sc_tx :: Transaction
  sc_entries :: "UtxoEntry list"

record SignedReveal =
  sr_tx :: Transaction
  sr_entry :: UtxoEntry

definition build_commit_unsigned ::
  "krc20_lib \<Rightarrow> PlannedCommitReveal \<Rightarrow> ScriptPublicKey \<Rightarrow> (Krc20SignError, Transaction \<times> UtxoEntry list) outcome" where
  "build_commit_unsigned lib plan treasury_script =
     (if cr_commit_inputs plan = [] then Err CommitEmptyInputs
      else if list_ex is_planning_virtual (cr_commit_inputs plan) then Err CommitVirtualInput
      else Ok (\<lparr> tx_version = kl_tx_version (kr_kaspa lib),
                 tx_inputs = map (\<lambda>u. \<lparr> ti_previous_outpoint = tu_outpoint u, ti_signature_script = [], ti_sequence = 0,
                                         ti_sig_op_count = 1 \<rparr>) (cr_commit_inputs plan),
                 tx_outputs = commit_outputs (cr_commit_script_public_key plan) (cr_commit_amount_sompi plan) treasury_script
                                (cr_commit_change_sompi plan),
                 tx_lock_time = 0, tx_subnetwork_id = kl_native_subnetwork (kr_kaspa lib), tx_gas = 0, tx_payload = [] \<rparr>,
               map tu_entry (cr_commit_inputs plan)))"

definition commit_txid ::
  "krc20_lib \<Rightarrow> PlannedCommitReveal \<Rightarrow> ScriptPublicKey \<Rightarrow> (Krc20SignError, hash_bytes) outcome" where
  "commit_txid lib plan treasury_script =
     and_then (build_commit_unsigned lib plan treasury_script) (\<lambda>(tx, _). Ok (kl_tx_id (kr_kaspa lib) tx))"

definition verify :: "krc20_lib \<Rightarrow> Transaction \<Rightarrow> UtxoEntry list \<Rightarrow> (Krc20SignError, unit) outcome" where
  "verify lib tx entries =
     (case find (\<lambda>i. \<not> kl_script_ok (kr_kaspa lib) tx entries i) [0..<length (tx_inputs tx)] of
        Some i \<Rightarrow> Err (ScriptVerify i)
      | None \<Rightarrow> Ok ())"

definition sign_commit ::
  "krc20_lib \<Rightarrow> PlannedCommitReveal \<Rightarrow> ScriptPublicKey \<Rightarrow> (Krc20SignError, SignedCommit) outcome" where
  "sign_commit lib plan treasury_script =
     and_then (build_commit_unsigned lib plan treasury_script) (\<lambda>(unsigned, entries).
     if \<not> kl_key_ok (kr_kaspa lib) then Err TreasuryKey else
     let tx = kl_sign (kr_kaspa lib) unsigned entries in
     and_then (verify lib tx entries) (\<lambda>_. Ok \<lparr> sc_tx = tx, sc_entries = entries \<rparr>))"

definition build_reveal_unsigned ::
  "krc20_lib \<Rightarrow> PlannedCommitReveal \<Rightarrow> TransactionOutpoint \<Rightarrow> ScriptPublicKey \<Rightarrow> Transaction" where
  "build_reveal_unsigned lib plan commit_outpoint treasury_script =
     \<lparr> tx_version = kl_tx_version (kr_kaspa lib),
       tx_inputs = [\<lparr> ti_previous_outpoint = commit_outpoint, ti_signature_script = [], ti_sequence = 0, ti_sig_op_count = 1 \<rparr>],
       tx_outputs = [\<lparr> to_value = cr_reveal_return_sompi plan, to_script_public_key = treasury_script \<rparr>],
       tx_lock_time = 0, tx_subnetwork_id = kl_native_subnetwork (kr_kaspa lib), tx_gas = 0, tx_payload = [] \<rparr>"

definition reveal_entry :: "PlannedCommitReveal \<Rightarrow> UtxoEntry" where
  "reveal_entry plan = reveal_entry_of (cr_commit_amount_sompi plan) (cr_commit_script_public_key plan)"

definition reveal_txid :: "krc20_lib \<Rightarrow> PlannedCommitReveal \<Rightarrow> TransactionOutpoint \<Rightarrow> ScriptPublicKey \<Rightarrow> hash_bytes" where
  "reveal_txid lib plan commit_outpoint treasury_script =
     kl_tx_id (kr_kaspa lib) (build_reveal_unsigned lib plan commit_outpoint treasury_script)"

definition SIG_HASH_ALL :: "8 word" where "SIG_HASH_ALL = 1"

definition sign_reveal ::
  "krc20_lib \<Rightarrow> PlannedCommitReveal \<Rightarrow> TransactionOutpoint \<Rightarrow> ScriptPublicKey \<Rightarrow> (Krc20SignError, SignedReveal) outcome" where
  "sign_reveal lib plan commit_outpoint treasury_script =
     (let unsigned = build_reveal_unsigned lib plan commit_outpoint treasury_script; entry = reveal_entry plan in
      if \<not> kl_key_ok (kr_kaspa lib) then Err TreasuryKey else
      and_then (ok_or SighashMessage (kr_schnorr lib unsigned entry)) (\<lambda>sig.
      let sig_push = 65 # sig @ [SIG_HASH_ALL] in
      and_then (ok_or RevealScript (kr_signature_script lib (cr_redeem_script plan) sig_push)) (\<lambda>sig_script.
      let tx = unsigned\<lparr> tx_inputs := map (\<lambda>i. i\<lparr> ti_signature_script := sig_script \<rparr>) (tx_inputs unsigned) \<rparr> in
      and_then (verify lib tx [entry]) (\<lambda>_. Ok \<lparr> sr_tx = tx, sr_entry = entry \<rparr>))))"

end
