(* ===== verification/Krc20Engine.thy ===== *)
theory Krc20Engine
  imports Krc20Tx
begin

text \<open>
  The KRC-20 payout engine, \<open>src/payout-krc20/src\<close>: \<open>execute.rs\<close> (the
  commit/reveal state machine of one transfer and the sweep over all of them),
  \<open>cycle.rs\<close> (planning, crediting, reconciling) and \<open>engine.rs\<close> (the tick).
  Effects are those of \<open>PayoutKas\<close>: commits of the database and broadcasts.
  The node answers per transfer; the second client of a pair answers the calls
  made after the mempool probe, when a commit is rebuilt.
\<close>

section \<open>Executing one transfer\<close>

definition NACHO_TICK :: string where "NACHO_TICK = ''NACHO''"

datatype TransferStep =
  CommitBroadcast | CommitRebroadcast | CommitPending | RevealBroadcast | RevealRebroadcast | RevealPending | StepCompleted | NoChange

record SettleReport =
  st_commits_broadcast :: nat
  st_reveals_broadcast :: nat
  st_rebroadcasts :: nat
  st_completed :: nat
  st_pending :: nat

definition SettleReport_default :: SettleReport where
  "SettleReport_default =
     \<lparr> st_commits_broadcast = 0, st_reveals_broadcast = 0, st_rebroadcasts = 0, st_completed = 0, st_pending = 0 \<rparr>"

definition record_step :: "TransferStep \<Rightarrow> SettleReport \<Rightarrow> SettleReport" where
  "record_step step r =
     (case step of
        CommitBroadcast \<Rightarrow> r\<lparr> st_commits_broadcast := st_commits_broadcast r + 1 \<rparr>
      | RevealBroadcast \<Rightarrow> r\<lparr> st_reveals_broadcast := st_reveals_broadcast r + 1 \<rparr>
      | CommitRebroadcast \<Rightarrow> r\<lparr> st_rebroadcasts := st_rebroadcasts r + 1 \<rparr>
      | RevealRebroadcast \<Rightarrow> r\<lparr> st_rebroadcasts := st_rebroadcasts r + 1 \<rparr>
      | StepCompleted \<Rightarrow> r\<lparr> st_completed := st_completed r + 1 \<rparr>
      | CommitPending \<Rightarrow> r\<lparr> st_pending := st_pending r + 1 \<rparr>
      | RevealPending \<Rightarrow> r\<lparr> st_pending := st_pending r + 1 \<rparr>
      | NoChange \<Rightarrow> r)"

record SweepLedger =
  sl_consumed :: "TransactionOutpoint set"
  sl_chained :: "TreasuryUtxo list"

definition SweepLedger_default :: SweepLedger where
  "SweepLedger_default = \<lparr> sl_consumed = {}, sl_chained = [] \<rparr>"

definition ledger_reconcile :: "SweepLedger \<Rightarrow> TreasuryUtxo list \<Rightarrow> TreasuryUtxo list" where
  "ledger_reconcile l utxos = filter (\<lambda>u. tu_outpoint u \<notin> sl_consumed l) utxos @ sl_chained l"

definition note_commit :: "hash_bytes \<Rightarrow> PlannedCommitReveal \<Rightarrow> ScriptPublicKey \<Rightarrow> SweepLedger \<Rightarrow> SweepLedger" where
  "note_commit commit_id plan treasury_script l =
     (let consumed = sl_consumed l \<union> set (map tu_outpoint (cr_commit_inputs plan));
          chained = filter (\<lambda>u. tu_outpoint u \<notin> consumed) (sl_chained l) in
      \<lparr> sl_consumed = consumed,
        sl_chained = chained @
          (if 0 < cr_commit_change_sompi plan
           then [\<lparr> tu_outpoint = \<lparr> op_transaction_id = commit_id, op_index = COMMIT_CHANGE_OUTPUT_INDEX \<rparr>,
                   tu_entry = \<lparr> ue_amount = cr_commit_change_sompi plan, ue_script_public_key = treasury_script,
                     ue_block_daa_score = 0, ue_is_coinbase = False, ue_covenant_id = None \<rparr> \<rparr>]
           else []) \<rparr>)"

datatype Krc20ExecuteError =
    KxDb DbError
  | KxKaspad KasRpcError
  | KxPlan PlanError
  | KxInscription InscriptionError
  | KxSign Krc20SignError
  | KxKey
  | KxAmount int string int
  | MalformedHash int
  | MissingHash int string
  | MissingFee int string
  | InscriptionMismatch int string string
  | CommitDrift int hash_bytes hash_bytes
  | RevealDrift int hash_bytes hash_bytes

record TransferCtx =
  tc_treasury_address :: string
  tc_treasury_script :: ScriptPublicKey
  tc_prefix :: string
  tc_xonly :: "8 word list"
  tc_fee_rate :: FeeRate
  tc_frozen_commit_fee :: "int option"
  tc_frozen_reveal_fee :: "int option"
  tc_inscription :: Krc20Transfer
  tc_commit_amount_sompi :: int
  tc_payout_id :: int
  tc_p2sh_address :: string

definition ctx_reveal_fee :: "TransferCtx \<Rightarrow> (Krc20ExecuteError, int) outcome" where
  "ctx_reveal_fee ctx = ok_or (MissingFee (tc_payout_id ctx) ''reveal'') (tc_frozen_reveal_fee ctx)"

definition frozen_policy :: "TransferCtx \<Rightarrow> (Krc20ExecuteError, Krc20FeePolicy) outcome" where
  "frozen_policy ctx =
     and_then (ok_or (MissingFee (tc_payout_id ctx) ''commit'') (tc_frozen_commit_fee ctx)) (\<lambda>c.
     and_then (ctx_reveal_fee ctx) (\<lambda>r. Ok (Frozen c r)))"

definition opt_fee :: "int option \<Rightarrow> int \<Rightarrow> string \<Rightarrow> (Krc20ExecuteError, int option) outcome" where
  "opt_fee v payout_id field =
     (case v of None \<Rightarrow> Ok None | Some x \<Rightarrow> if x < 0 then Err (KxAmount payout_id field x) else Ok (Some x))"

definition fetch_spendable_utxos :: "KasClient \<Rightarrow> string \<Rightarrow> db \<Rightarrow> (Krc20ExecuteError, TreasuryUtxo list) outcome" where
  "fetch_spendable_utxos client treasury_address d =
     and_then (map_err KxKaspad (virtual_daa_score client)) (\<lambda>virtual_daa.
     and_then (map_err KxKaspad (treasury_utxos client treasury_address)) (\<lambda>snapshots.
     Ok (spendable_coins virtual_daa (protected_hashes d) snapshots)))"

definition plan_from_utxos ::
  "krc20_lib \<Rightarrow> TransferCtx \<Rightarrow> TreasuryUtxo list \<Rightarrow> Krc20FeePolicy \<Rightarrow> (Krc20ExecuteError, PlannedCommitReveal) outcome" where
  "plan_from_utxos lib ctx utxos policy =
     map_err KxPlan (plan_commit_reveal lib (mainnet (kl_consensus (kr_kaspa lib))) utxos (tc_treasury_script ctx) (tc_xonly ctx)
       (tc_inscription ctx) \<lparr> cc_commit_amount_sompi = tc_commit_amount_sompi ctx, cc_fee_policy = policy \<rparr>)"

definition verify_p2sh :: "krc20_lib \<Rightarrow> TransferCtx \<Rightarrow> PlannedCommitReveal \<Rightarrow> (Krc20ExecuteError, unit) outcome" where
  "verify_p2sh lib ctx plan =
     and_then (map_err KxInscription (commit_address lib (cr_redeem_script plan) (tc_prefix ctx))) (\<lambda>rebuilt.
     if rebuilt \<noteq> tc_p2sh_address ctx then Err (InscriptionMismatch (tc_payout_id ctx) (tc_p2sh_address ctx) rebuilt) else Ok ())"

definition recorded_txid :: "hash_bytes option \<Rightarrow> int \<Rightarrow> string \<Rightarrow> (Krc20ExecuteError, hash_bytes) outcome" where
  "recorded_txid h payout_id kind =
     and_then (ok_or (MissingHash payout_id kind) h) (\<lambda>bytes.
     if length bytes = 32 then Ok bytes else Err (MalformedHash payout_id))"

text \<open>One broadcast: what the node makes of it does not undo that it went out.\<close>

definition submit :: "KasClient \<Rightarrow> int \<Rightarrow> Transaction \<Rightarrow> world \<Rightarrow> (Krc20ExecuteError, unit) outcome \<times> world" where
  "submit client payout_id tx w =
     (and_then (map_err KxKaspad (submit_transaction client tx False)) (\<lambda>_. Ok ()), send [payout_id] tx w)"

definition commit_intent :: "timestamp \<Rightarrow> int \<Rightarrow> int \<Rightarrow> int \<Rightarrow> hash_bytes \<Rightarrow> db \<Rightarrow> unit db_result" where
  "commit_intent now payout_id commit_fee reveal_fee txid d =
     and_then (record_krc20_fees now payout_id commit_fee reveal_fee d) (\<lambda>(_, d).
     and_then (record_krc20_commit_hash payout_id txid d) (\<lambda>(_, d).
     mark_krc20_commit_submitted now payout_id d))"

definition reveal_intent :: "timestamp \<Rightarrow> int \<Rightarrow> hash_bytes \<Rightarrow> db \<Rightarrow> unit db_result" where
  "reveal_intent now payout_id txid d =
     and_then (record_krc20_reveal_hash payout_id txid d) (\<lambda>(_, d).
     mark_krc20_reveal_submitted now payout_id d)"

definition handle_pending ::
  "krc20_lib \<Rightarrow> KasClient \<Rightarrow> timestamp \<Rightarrow> TransferCtx \<Rightarrow> ExecutionMode \<Rightarrow> SweepLedger \<Rightarrow> world \<Rightarrow>
     ((Krc20ExecuteError, TransferStep) outcome \<times> world) \<times> SweepLedger" where
  "handle_pending lib client now ctx mode ledger w =
     (case and_then (fetch_spendable_utxos client (tc_treasury_address ctx) (wd_db w)) (\<lambda>utxos.
           and_then (plan_from_utxos lib ctx (ledger_reconcile ledger utxos) (Adaptive (tc_fee_rate ctx))) (\<lambda>plan.
           and_then (verify_p2sh lib ctx plan) (\<lambda>_.
           and_then (map_err KxSign (sign_commit lib plan (tc_treasury_script ctx))) (\<lambda>sc. Ok (plan, sc))))) of
        Err e \<Rightarrow> ((Err e, w), ledger)
      | Panic \<Rightarrow> ((Panic, w), ledger)
      | Ok (plan, sc) \<Rightarrow>
          let commit_id = kl_tx_id (kr_kaspa lib) (sc_tx sc) in
          (if is_dry_run mode then (Ok NoChange, w)
           else
             st_bind (lift (ok_or (KxAmount (tc_payout_id ctx) ''commit_fee_sompi'' i64_max)
                 (checked i64_min i64_max (cr_commit_fee_sompi plan))) w) (\<lambda>commit_fee w.
             st_bind (lift (ok_or (KxAmount (tc_payout_id ctx) ''reveal_fee_sompi'' i64_max)
                 (checked i64_min i64_max (cr_reveal_fee_sompi plan))) w) (\<lambda>reveal_fee w.
             st_bind (st_map_err KxDb (w_tx (commit_intent now (tc_payout_id ctx) commit_fee reveal_fee commit_id) w)) (\<lambda>_ w.
             st_bind (submit client (tc_payout_id ctx) (sc_tx sc) w) (\<lambda>_ w.
             (Ok CommitBroadcast, w))))),
           note_commit commit_id plan (tc_treasury_script ctx) ledger))"

definition broadcast_reveal ::
  "krc20_lib \<Rightarrow> KasClient \<Rightarrow> timestamp \<Rightarrow> TransferCtx \<Rightarrow> PlannedCommitReveal \<Rightarrow> TransactionOutpoint \<Rightarrow> ExecutionMode \<Rightarrow> world \<Rightarrow>
     (Krc20ExecuteError, TransferStep) outcome \<times> world" where
  "broadcast_reveal lib client now ctx reveal_plan commit_outpoint mode w =
     st_bind (lift (map_err KxSign (sign_reveal lib reveal_plan commit_outpoint (tc_treasury_script ctx))) w) (\<lambda>sr w.
     let reveal_id = kl_tx_id (kr_kaspa lib) (sr_tx sr) in
     if is_dry_run mode then (Ok NoChange, w)
     else
       st_bind (st_map_err KxDb (w_tx (reveal_intent now (tc_payout_id ctx) reveal_id) w)) (\<lambda>_ w.
       st_bind (submit client (tc_payout_id ctx) (sr_tx sr) w) (\<lambda>_ w.
       (Ok RevealBroadcast, w))))"

definition rebroadcast_commit ::
  "krc20_lib \<Rightarrow> KasClient \<Rightarrow> TransferCtx \<Rightarrow> hash_bytes \<Rightarrow> world \<Rightarrow> (Krc20ExecuteError, TransferStep) outcome \<times> world" where
  "rebroadcast_commit lib client ctx recorded w =
     st_bind (lift (fetch_spendable_utxos client (tc_treasury_address ctx) (wd_db w)) w) (\<lambda>utxos w.
     st_bind (lift (frozen_policy ctx) w) (\<lambda>policy w.
     st_bind (lift (plan_from_utxos lib ctx utxos policy) w) (\<lambda>plan w.
     st_bind (lift (map_err KxSign (commit_txid lib plan (tc_treasury_script ctx))) w) (\<lambda>rebuilt w.
     if rebuilt \<noteq> recorded then (Err (CommitDrift (tc_payout_id ctx) recorded rebuilt), w)
     else
       st_bind (lift (map_err KxSign (sign_commit lib plan (tc_treasury_script ctx))) w) (\<lambda>sc w.
       st_bind (submit client (tc_payout_id ctx) (sc_tx sc) w) (\<lambda>_ w.
       (Ok CommitRebroadcast, w)))))))"

definition handle_commit_submitted ::
  "krc20_lib \<Rightarrow> KasClient \<times> KasClient \<Rightarrow> timestamp \<Rightarrow> TransferCtx \<Rightarrow> Payout \<Rightarrow> ExecutionMode \<Rightarrow> world \<Rightarrow>
     (Krc20ExecuteError, TransferStep) outcome \<times> world" where
  "handle_commit_submitted lib clients now ctx payout_row mode w =
     (let (client, client') = clients in
      st_bind (lift (recorded_txid (po_krc20_commit_hash payout_row) (tc_payout_id ctx) ''commit'') w) (\<lambda>recorded w.
      st_bind (lift (ctx_reveal_fee ctx) w) (\<lambda>reveal_fee w.
      st_bind (lift (map_err KxPlan (reveal_only lib (tc_xonly ctx) (tc_inscription ctx) (tc_commit_amount_sompi ctx) reveal_fee)) w)
        (\<lambda>reveal_plan w.
      st_bind (lift (map_err KxInscription (commit_address lib (cr_redeem_script reveal_plan) (tc_prefix ctx))) w) (\<lambda>commit_addr w.
      let commit_outpoint = \<lparr> op_transaction_id = recorded, op_index = COMMIT_P2SH_OUTPUT_INDEX \<rparr> in
      st_bind (lift (map_err KxKaspad (virtual_daa_score client)) w) (\<lambda>virtual_daa w.
      st_bind (lift (map_err KxKaspad (treasury_utxos client commit_addr)) w) (\<lambda>p2sh_utxos w.
      case find (\<lambda>s. tus_outpoint s = commit_outpoint) p2sh_utxos of
        Some s \<Rightarrow>
          if is_spendable (ue_block_daa_score (tus_entry s)) (ue_is_coinbase (tus_entry s)) virtual_daa
          then broadcast_reveal lib client now ctx reveal_plan commit_outpoint mode w
          else (Ok CommitPending, w)
      | None \<Rightarrow>
          st_bind (lift (map_err KxKaspad (transaction_in_mempool client (tc_payout_id ctx) recorded)) w) (\<lambda>in_mempool w.
          if in_mempool then (Ok CommitPending, w)
          else if is_dry_run mode then (Ok NoChange, w)
          else rebroadcast_commit lib client' ctx recorded w))))))))"

definition rebroadcast_reveal ::
  "krc20_lib \<Rightarrow> KasClient \<Rightarrow> TransferCtx \<Rightarrow> Payout \<Rightarrow> hash_bytes \<Rightarrow> world \<Rightarrow> (Krc20ExecuteError, TransferStep) outcome \<times> world" where
  "rebroadcast_reveal lib client ctx payout_row reveal_recorded w =
     st_bind (lift (recorded_txid (po_krc20_commit_hash payout_row) (tc_payout_id ctx) ''commit'') w) (\<lambda>commit_recorded w.
     let commit_outpoint = \<lparr> op_transaction_id = commit_recorded, op_index = COMMIT_P2SH_OUTPUT_INDEX \<rparr> in
     st_bind (lift (ctx_reveal_fee ctx) w) (\<lambda>reveal_fee w.
     st_bind (lift (map_err KxPlan (reveal_only lib (tc_xonly ctx) (tc_inscription ctx) (tc_commit_amount_sompi ctx) reveal_fee)) w)
       (\<lambda>reveal_plan w.
     let rebuilt = reveal_txid lib reveal_plan commit_outpoint (tc_treasury_script ctx) in
     if rebuilt \<noteq> reveal_recorded then (Err (RevealDrift (tc_payout_id ctx) reveal_recorded rebuilt), w)
     else
       st_bind (lift (map_err KxSign (sign_reveal lib reveal_plan commit_outpoint (tc_treasury_script ctx))) w) (\<lambda>sr w.
       st_bind (submit client (tc_payout_id ctx) (sr_tx sr) w) (\<lambda>_ w.
       (Ok RevealRebroadcast, w))))))"

definition handle_reveal_submitted ::
  "krc20_lib \<Rightarrow> KasClient \<Rightarrow> timestamp \<Rightarrow> TransferCtx \<Rightarrow> Payout \<Rightarrow> ExecutionMode \<Rightarrow> world \<Rightarrow>
     (Krc20ExecuteError, TransferStep) outcome \<times> world" where
  "handle_reveal_submitted lib client now ctx payout_row mode w =
     st_bind (lift (recorded_txid (po_krc20_reveal_hash payout_row) (tc_payout_id ctx) ''reveal'') w) (\<lambda>reveal_recorded w.
     st_bind (lift (map_err KxKaspad (virtual_daa_score client)) w) (\<lambda>virtual_daa w.
     st_bind (lift (map_err KxKaspad (treasury_utxos client (tc_treasury_address ctx))) w) (\<lambda>utxos w.
     let on_chain_daa = map_option (\<lambda>s. ue_block_daa_score (tus_entry s))
           (find (\<lambda>s. op_transaction_id (tus_outpoint s) = reveal_recorded) utxos) in
     st_bind (lift (if on_chain_daa \<noteq> None then Ok False
                    else map_err KxKaspad (transaction_in_mempool client (tc_payout_id ctx) reveal_recorded)) w) (\<lambda>in_mempool w.
     case classify_confirmation \<lparr> ci_virtual_daa_score = virtual_daa, ci_in_mempool = in_mempool,
            ci_change_block_daa_score = on_chain_daa, ci_recorded_accept_daa = None \<rparr> of
       TxConfirmed \<Rightarrow>
         if is_dry_run mode then (Ok NoChange, w)
         else st_bind (st_map_err KxDb (w_tx (mark_krc20_completed now (tc_payout_id ctx)) w)) (\<lambda>_ w. (Ok StepCompleted, w))
     | TxAccepted \<Rightarrow> (Ok RevealPending, w)
     | TxPending \<Rightarrow> (Ok RevealPending, w)
     | TxUnknown \<Rightarrow>
         if is_dry_run mode then (Ok NoChange, w)
         else rebroadcast_reveal lib client ctx payout_row reveal_recorded w))))"

definition transfer_ctx ::
  "krc20_lib \<Rightarrow> string \<Rightarrow> FeeRate \<Rightarrow> Krc20PendingTransfer \<Rightarrow> db \<Rightarrow> (Krc20ExecuteError, TransferCtx \<times> Payout) outcome" where
  "transfer_ctx lib treasury_address fee_rate transfer d =
     (let pid = kp_payout_id transfer in
      if \<not> kl_key_ok (kr_kaspa lib) then Err KxKey else
      and_then (map_err KxDb (get_payout pid d)) (\<lambda>payout_row.
      and_then (map_err KxDb (wallet_get_by_id (po_wallet_id payout_row) d)) (\<lambda>recipient.
      and_then (if kp_nacho_amount transfer < 0 then Err (KxAmount pid ''nacho_amount'' (kp_nacho_amount transfer))
                else Ok (kp_nacho_amount transfer)) (\<lambda>nacho_amount.
      and_then (if kp_sompi_to_miner transfer < 0 then Err (KxAmount pid ''sompi_to_miner'' (kp_sompi_to_miner transfer))
                else Ok (kp_sompi_to_miner transfer)) (\<lambda>commit_amount.
      and_then (opt_fee (kp_commit_fee_sompi transfer) pid ''commit'') (\<lambda>commit_fee.
      and_then (opt_fee (kp_reveal_fee_sompi transfer) pid ''reveal'') (\<lambda>reveal_fee.
      Ok (\<lparr> tc_treasury_address = treasury_address,
            tc_treasury_script = kl_pay_to_address_script (kr_kaspa lib) treasury_address,
            tc_prefix = kr_prefix lib treasury_address, tc_xonly = kr_xonly lib, tc_fee_rate = fee_rate,
            tc_frozen_commit_fee = commit_fee, tc_frozen_reveal_fee = reveal_fee,
            tc_inscription = Krc20Transfer_new NACHO_TICK (show_int nacho_amount) (wal_address recipient),
            tc_commit_amount_sompi = commit_amount, tc_payout_id = pid, tc_p2sh_address = kp_p2sh_address transfer \<rparr>,
          payout_row))))))))"

definition advance_transfer_inner ::
  "krc20_lib \<Rightarrow> KasClient \<times> KasClient \<Rightarrow> timestamp \<Rightarrow> string \<Rightarrow> FeeRate \<Rightarrow> Krc20PendingTransfer \<Rightarrow> ExecutionMode \<Rightarrow> SweepLedger \<Rightarrow> world \<Rightarrow>
     ((Krc20ExecuteError, TransferStep) outcome \<times> world) \<times> SweepLedger" where
  "advance_transfer_inner lib clients now treasury_address fee_rate transfer mode ledger w =
     (if kp_status transfer \<in> {Completed, TransferFailed} then ((Ok NoChange, w), ledger) else
      case transfer_ctx lib treasury_address fee_rate transfer (wd_db w) of
        Err e \<Rightarrow> ((Err e, w), ledger)
      | Panic \<Rightarrow> ((Panic, w), ledger)
      | Ok (ctx, payout_row) \<Rightarrow>
          (case kp_status transfer of
             Pending \<Rightarrow> handle_pending lib (fst clients) now ctx mode ledger w
           | CommitSubmitted \<Rightarrow> (handle_commit_submitted lib clients now ctx payout_row mode w, ledger)
           | RevealSubmitted \<Rightarrow> (handle_reveal_submitted lib (fst clients) now ctx payout_row mode w, ledger)
           | _ \<Rightarrow> ((Ok NoChange, w), ledger)))"

definition advance_transfer ::
  "krc20_lib \<Rightarrow> KasClient \<times> KasClient \<Rightarrow> timestamp \<Rightarrow> string \<Rightarrow> FeeRate \<Rightarrow> Krc20PendingTransfer \<Rightarrow> ExecutionMode \<Rightarrow> world \<Rightarrow>
     (Krc20ExecuteError, TransferStep) outcome \<times> world" where
  "advance_transfer lib clients now treasury_address fee_rate transfer mode w =
     fst (advance_transfer_inner lib clients now treasury_address fee_rate transfer mode SweepLedger_default w)"

text \<open>The loop of the sweep; an error is kept with the transfer it belongs to.\<close>

fun settle_loop ::
  "(Krc20PendingTransfer \<Rightarrow> SweepLedger \<Rightarrow> world \<Rightarrow> ((Krc20ExecuteError, TransferStep) outcome \<times> world) \<times> SweepLedger) \<Rightarrow>
     Krc20PendingTransfer list \<Rightarrow> SettleReport \<Rightarrow> (int \<times> Krc20ExecuteError) list \<Rightarrow> SweepLedger \<Rightarrow> world \<Rightarrow>
     (Krc20ExecuteError, SettleReport \<times> (int \<times> Krc20ExecuteError) list) outcome \<times> world" where
  "settle_loop f [] report errors ledger w = (Ok (report, errors), w)"
| "settle_loop f (t # ts) report errors ledger w =
     (case f t ledger w of
        ((Ok step, w), ledger) \<Rightarrow> settle_loop f ts (record_step step report) errors ledger w
      | ((Err e, w), ledger) \<Rightarrow> settle_loop f ts report (errors @ [(kp_id t, e)]) ledger w
      | ((Panic, w), ledger) \<Rightarrow> (Panic, w))"

definition settle_pending ::
  "krc20_lib \<Rightarrow> (int \<Rightarrow> KasClient \<times> KasClient) \<Rightarrow> timestamp \<Rightarrow> FeeRate \<Rightarrow> string \<Rightarrow> int \<Rightarrow> ExecutionMode \<Rightarrow> world \<Rightarrow>
     (Krc20ExecuteError, SettleReport \<times> (int \<times> Krc20ExecuteError) list) outcome \<times> world" where
  "settle_pending lib clients now fee_rate treasury_address limit mode w =
     settle_loop (\<lambda>t. advance_transfer_inner lib (clients (kp_id t)) now treasury_address fee_rate t mode)
       (list_krc20_by_status [Pending, CommitSubmitted, RevealSubmitted] limit (wd_db w))
       SettleReport_default [] SweepLedger_default w"

section \<open>The cycle\<close>

definition KRC20_AUDIT_ACTOR :: string where "KRC20_AUDIT_ACTOR = ''payout-krc20''"
definition DEFAULT_CYCLE_LIMIT :: int where "DEFAULT_CYCLE_LIMIT = 1000"
definition DEFAULT_QUOTE_TICKER :: string where "DEFAULT_QUOTE_TICKER = ''NACHO''"

datatype Krc20CycleError =
    KcDb DbError
  | KcQuote QuoteError
  | KcRebate RebateError
  | KcInscription InscriptionError
  | AmountTooLarge int int
  | CommitAmount int

record Krc20CycleParams =
  kcp_daa_start :: int
  kcp_daa_end :: int
  kcp_min_pending_sompi :: int
  kcp_min_nacho_base_units :: int
  kcp_ticker :: string
  kcp_commit_amount_sompi :: int
  kcp_limit :: int

definition Krc20CycleParams_new :: "int \<Rightarrow> int \<Rightarrow> Krc20CycleParams" where
  "Krc20CycleParams_new daa_start daa_end =
     \<lparr> kcp_daa_start = daa_start, kcp_daa_end = daa_end, kcp_min_pending_sompi = DEFAULT_MIN_PENDING_SOMPI,
       kcp_min_nacho_base_units = DEFAULT_MIN_NACHO_BASE_UNITS, kcp_ticker = DEFAULT_QUOTE_TICKER,
       kcp_commit_amount_sompi = DEFAULT_COMMIT_AMOUNT_SOMPI, kcp_limit = DEFAULT_CYCLE_LIMIT \<rparr>"

record Krc20CycleState =
  ks_cycle :: PayoutCycle
  ks_transfers :: "Krc20PendingTransfer list"

definition count_transfer :: "PayoutStatusCounts \<Rightarrow> Krc20PendingTransfer \<Rightarrow> PayoutStatusCounts" where
  "count_transfer counts t =
     (case kp_status t of
        Pending \<Rightarrow> counts\<lparr> pc_pending := pc_pending counts + 1 \<rparr>
      | CommitSubmitted \<Rightarrow> counts\<lparr> pc_in_flight := pc_in_flight counts + 1 \<rparr>
      | RevealSubmitted \<Rightarrow> counts\<lparr> pc_in_flight := pc_in_flight counts + 1 \<rparr>
      | Completed \<Rightarrow> counts\<lparr> pc_confirmed := pc_confirmed counts + 1 \<rparr>
      | TransferFailed \<Rightarrow> counts\<lparr> pc_failed := pc_failed counts + 1 \<rparr>)"

definition counts_from_transfers :: "Krc20PendingTransfer list \<Rightarrow> PayoutStatusCounts" where
  "counts_from_transfers transfers =
     foldl count_transfer
       \<lparr> pc_total = length transfers, pc_pending = 0, pc_in_flight = 0, pc_confirmed = 0, pc_failed = 0 \<rparr> transfers"

definition krc20_derived_status :: "Krc20CycleState \<Rightarrow> CycleStatus" where
  "krc20_derived_status s = derive_cycle_status (counts_from_transfers (ks_transfers s))"

definition krc20_entry :: "string \<Rightarrow> string \<Rightarrow> int \<Rightarrow> (string \<times> json_value) list \<Rightarrow> NewEntry" where
  "krc20_entry action subject i payload =
     (NewEntry_subject subject i (NewEntry_new KRC20_AUDIT_ACTOR action))\<lparr> ne_payload := payload \<rparr>"

record planned_so_far =
  pf_db :: db
  pf_total_sompi :: int
  pf_recipients :: int
  pf_planned :: nat

definition plan_recipient ::
  "krc20_lib \<Rightarrow> timestamp \<Rightarrow> 8 word list \<Rightarrow> string \<Rightarrow> Krc20CycleParams \<Rightarrow> FloorPrice \<Rightarrow> int \<Rightarrow> int \<Rightarrow> planned_so_far \<Rightarrow> Krc20EligibleWallet \<Rightarrow>
     (Krc20CycleError, planned_so_far) outcome" where
  "plan_recipient lib now xonly prefix params price commit_amount cycle_id st k =
     and_then (map_err KcRebate (nacho_base_units (kw_pending_sompi k) price)) (\<lambda>nacho.
     if \<not> is_payable nacho (kcp_min_nacho_base_units params) then Ok st else
     and_then (ok_or (AmountTooLarge (kw_wallet_id k) nacho) (checked i64_min i64_max nacho)) (\<lambda>nacho_amount.
     and_then (map_err KcInscription (build_transfer_inscription lib xonly
         (Krc20Transfer_new (kcp_ticker params) (show_int nacho_amount) (kw_address k)))) (\<lambda>redeem.
     and_then (map_err KcInscription (commit_address lib redeem prefix)) (\<lambda>p2sh.
     and_then (map_err KcDb (ensure_payout now cycle_id (kw_wallet_id k) (kw_pending_sompi k) (pf_db st))) (\<lambda>(p, d).
     and_then (map_err KcDb (ensure_krc20_pending now (po_id p) commit_amount nacho_amount p2sh d)) (\<lambda>(_, d).
     Ok \<lparr> pf_db = d, pf_total_sompi = saturating i64_min i64_max (pf_total_sompi st + kw_pending_sompi k),
          pf_recipients = saturating i32_min i32_max (pf_recipients st + 1), pf_planned = pf_planned st + 1 \<rparr>))))))"

definition plan_krc20_tx ::
  "krc20_lib \<Rightarrow> timestamp \<Rightarrow> 8 word list \<Rightarrow> string \<Rightarrow> Krc20CycleParams \<Rightarrow> FloorPrice \<Rightarrow> int \<Rightarrow> db \<Rightarrow> (Krc20CycleError, int \<times> db) outcome" where
  "plan_krc20_tx lib now xonly prefix params price commit_amount d =
     and_then (map_err KcDb (create_cycle now Krc20Nacho (kcp_daa_start params) (kcp_daa_end params) d)) (\<lambda>(cycle, d).
     and_then (map_err KcDb (list_krc20_eligible_wallets (kcp_min_pending_sompi params) (kcp_limit params) d)) (\<lambda>eligible.
     and_then (try_fold (plan_recipient lib now xonly prefix params price commit_amount (cy_id cycle))
         \<lparr> pf_db = d, pf_total_sompi = 0, pf_recipients = 0, pf_planned = 0 \<rparr> eligible) (\<lambda>st.
     and_then (map_err KcDb (set_cycle_totals (cy_id cycle) (pf_total_sompi st) (pf_recipients st) (pf_db st))) (\<lambda>(_, d).
     and_then (map_err KcDb (audit_append now (krc20_entry ''krc20_cycle.plan'' ''payout_cycle'' (cy_id cycle)
         [(''idempotency_key'', JStr (cy_idempotency_key cycle)), (''eligible'', JInt (int (length eligible))),
          (''planned'', JInt (int (pf_planned st))), (''total_sompi'', JInt (pf_total_sompi st)),
          (''floor_price_mantissa'', JStr (show_int (fp_mantissa price))), (''floor_price_scale'', JInt (int (fp_scale price)))]) d))
       (\<lambda>(_, d).
     Ok (cy_id cycle, d))))))"

definition load_krc20_cycle :: "int \<Rightarrow> db \<Rightarrow> (Krc20CycleError, Krc20CycleState) outcome" where
  "load_krc20_cycle cycle_id d =
     and_then (map_err KcDb (get_cycle cycle_id d)) (\<lambda>cycle.
     Ok \<lparr> ks_cycle = cycle, ks_transfers = list_krc20_for_cycle cycle_id d \<rparr>)"

definition plan_krc20_cycle ::
  "krc20_lib \<Rightarrow> (string \<Rightarrow> (QuoteError, FloorPrice) outcome) \<Rightarrow> timestamp \<Rightarrow> 8 word list \<Rightarrow> string \<Rightarrow> Krc20CycleParams \<Rightarrow> world \<Rightarrow>
     (Krc20CycleError, Krc20CycleState) outcome \<times> world" where
  "plan_krc20_cycle lib quote now xonly prefix params w =
     st_bind (lift (map_err KcQuote (quote (kcp_ticker params))) w) (\<lambda>price w.
     st_bind (lift (ok_or (CommitAmount (kcp_commit_amount_sompi params))
         (checked i64_min i64_max (kcp_commit_amount_sompi params))) w) (\<lambda>commit_amount w.
     st_bind (w_tx (plan_krc20_tx lib now xonly prefix params price commit_amount) w) (\<lambda>cycle_id w.
     lift (load_krc20_cycle cycle_id (wd_db w)) w)))"

definition resume_or_plan_krc20_cycle ::
  "krc20_lib \<Rightarrow> (string \<Rightarrow> (QuoteError, FloorPrice) outcome) \<Rightarrow> timestamp \<Rightarrow> 8 word list \<Rightarrow> string \<Rightarrow> Krc20CycleParams \<Rightarrow> world \<Rightarrow>
     (Krc20CycleError, Krc20CycleState) outcome \<times> world" where
  "resume_or_plan_krc20_cycle lib quote now xonly prefix params w =
     (case find_cycle_by_idempotency_key (idempotency_key Krc20Nacho (kcp_daa_start params) (kcp_daa_end params)) (wd_db w) of
        Some cycle \<Rightarrow>
          let transfers = list_krc20_for_cycle (cy_id cycle) (wd_db w) in
          st_bind (st_map_err KcDb (w_tx (audit_append now (krc20_entry ''krc20_cycle.resume'' ''payout_cycle'' (cy_id cycle)
              [(''idempotency_key'', JStr (cy_idempotency_key cycle)), (''status'', JStr (status_debug (cy_status cycle))),
               (''transfers'', JInt (int (length transfers)))])) w)) (\<lambda>_ w.
          (Ok \<lparr> ks_cycle = cycle, ks_transfers = transfers \<rparr>, w))
      | None \<Rightarrow> plan_krc20_cycle lib quote now xonly prefix params w)"

record CreditReport =
  cd_credited :: nat
  cd_already_credited :: nat
  cd_paid_sompi :: int

definition CreditReport_default :: CreditReport where
  "CreditReport_default = \<lparr> cd_credited = 0, cd_already_credited = 0, cd_paid_sompi = 0 \<rparr>"

definition credit_tx :: "timestamp \<Rightarrow> Krc20PendingTransfer \<Rightarrow> Payout \<Rightarrow> db \<Rightarrow> bool db_result" where
  "credit_tx now t p d =
     and_then (confirm_krc20_payout_once now (kp_payout_id t) d) (\<lambda>(once, d).
     if once then
       and_then (mark_paid now (po_wallet_id p) (po_amount_sompi p) d) (\<lambda>(_, d).
       and_then (audit_append now (krc20_entry ''krc20.credit'' ''payout'' (kp_payout_id t)
           [(''wallet_id'', JInt (po_wallet_id p)), (''paid_sompi'', JInt (po_amount_sompi p)),
            (''nacho_amount'', JInt (kp_nacho_amount t))]) d) (\<lambda>(_, d).
       Ok (True, d)))
     else Ok (False, d))"

text \<open>A transfer that was credited before is rolled back.\<close>

definition credit_transfer ::
  "timestamp \<Rightarrow> Krc20PendingTransfer \<Rightarrow> CreditReport \<Rightarrow> world \<Rightarrow> (DbError, CreditReport) outcome \<times> world" where
  "credit_transfer now t report w =
     (case get_payout (kp_payout_id t) (wd_db w) of
        Ok p \<Rightarrow>
          (case credit_tx now t p (wd_db w) of
             Ok (True, d) \<Rightarrow>
               (Ok (report\<lparr> cd_credited := cd_credited report + 1,
                     cd_paid_sompi := saturating i64_min i64_max (cd_paid_sompi report + po_amount_sompi p) \<rparr>), commit d w)
           | Ok (False, d) \<Rightarrow> (Ok (report\<lparr> cd_already_credited := cd_already_credited report + 1 \<rparr>), w)
           | Err e \<Rightarrow> (Err e, w)
           | Panic \<Rightarrow> (Panic, w))
      | Err e \<Rightarrow> (Err e, w)
      | Panic \<Rightarrow> (Panic, w))"

fun credit_loop ::
  "timestamp \<Rightarrow> Krc20PendingTransfer list \<Rightarrow> CreditReport \<Rightarrow> world \<Rightarrow> (DbError, CreditReport) outcome \<times> world" where
  "credit_loop now [] report w = (Ok report, w)"
| "credit_loop now (t # ts) report w = st_bind (credit_transfer now t report w) (credit_loop now ts)"

definition credit_completed_transfers ::
  "timestamp \<Rightarrow> int \<Rightarrow> world \<Rightarrow> (Krc20CycleError, CreditReport) outcome \<times> world" where
  "credit_completed_transfers now limit w =
     st_map_err KcDb (credit_loop now (list_krc20_by_status [Completed] limit (wd_db w)) CreditReport_default w)"

definition fail_krc20_transfer :: "timestamp \<Rightarrow> int \<Rightarrow> string \<Rightarrow> world \<Rightarrow> (Krc20CycleError, unit) outcome \<times> world" where
  "fail_krc20_transfer now payout_id reason w =
     st_map_err KcDb (w_tx (\<lambda>d.
       and_then (mark_krc20_failed now payout_id d) (\<lambda>(_, d).
       and_then (mark_payout_failed payout_id reason d) (\<lambda>(_, d).
       and_then (audit_append now (krc20_entry ''krc20.fail'' ''payout'' payout_id [(''reason'', JStr reason)]) d) (\<lambda>(_, d).
       Ok ((), d))))) w)"

definition reconcile_krc20_cycle_status ::
  "timestamp \<Rightarrow> int \<Rightarrow> world \<Rightarrow> (Krc20CycleError, CycleStatus) outcome \<times> world" where
  "reconcile_krc20_cycle_status now cycle_id w =
     (let counts = counts_from_transfers (list_krc20_for_cycle cycle_id (wd_db w));
          derived = derive_cycle_status counts in
      st_map_err KcDb (st_bind (w_tx (\<lambda>d.
          and_then (persist_status now cycle_id derived d) (\<lambda>(_, d).
          audit_append now (krc20_entry ''krc20_cycle.reconcile'' ''payout_cycle'' cycle_id
            [(''total'', JInt (int (pc_total counts))), (''pending'', JInt (int (pc_pending counts))),
             (''in_flight'', JInt (int (pc_in_flight counts))), (''confirmed'', JInt (int (pc_confirmed counts))),
             (''failed'', JInt (int (pc_failed counts))), (''derived'', JStr (status_debug derived))]) d)) w) (\<lambda>_ w.
        (Ok derived, w))))"

section \<open>The engine\<close>

datatype Krc20EngineError =
    KeDb DbError
  | KeCycle Krc20CycleError
  | KeExecute Krc20ExecuteError
  | KeKaspad KasRpcError
  | KeKey
  | KeSpanTooSmall int int
  | KeSpendCapExceeded int int

record Krc20PayoutEngineConfig =
  kec_instance_id :: string
  kec_poll_interval :: int
  kec_lock_acquire_wait :: int
  kec_cycle_span_daa :: int
  kec_mode :: ExecutionMode
  kec_lock_namespace :: string
  kec_min_pending_sompi :: int
  kec_min_nacho_base_units :: int
  kec_ticker :: string
  kec_commit_amount_sompi :: int
  kec_batch_limit :: int
  kec_max_nacho_base_units_per_cycle :: "int option"

definition cycle_params :: "Krc20PayoutEngineConfig \<Rightarrow> int \<Rightarrow> int \<Rightarrow> Krc20CycleParams" where
  "cycle_params cfg daa_start daa_end =
     \<lparr> kcp_daa_start = daa_start, kcp_daa_end = daa_end, kcp_min_pending_sompi = kec_min_pending_sompi cfg,
       kcp_min_nacho_base_units = kec_min_nacho_base_units cfg, kcp_ticker = kec_ticker cfg,
       kcp_commit_amount_sompi = kec_commit_amount_sompi cfg, kcp_limit = kec_batch_limit cfg \<rparr>"

record Krc20TickReport =
  ktr_cycle_id :: int
  ktr_virtual_daa :: int
  ktr_daa_start :: int
  ktr_daa_end :: int
  ktr_settle :: "SettleReport \<times> (int \<times> Krc20ExecuteError) list"
  ktr_credit :: CreditReport
  ktr_status :: CycleStatus

record Krc20PayoutEngine =
  ke_lib :: krc20_lib
  ke_treasury_address :: string
  ke_config :: Krc20PayoutEngineConfig

definition Krc20PayoutEngine_new ::
  "krc20_lib \<Rightarrow> string \<Rightarrow> Krc20PayoutEngineConfig \<Rightarrow> (Krc20EngineError, Krc20PayoutEngine) outcome" where
  "Krc20PayoutEngine_new lib treasury_address config =
     (if kec_cycle_span_daa config \<le> KAS_PAYOUT_CONFIRMATION_DAA
      then Err (KeSpanTooSmall (kec_cycle_span_daa config) KAS_PAYOUT_CONFIRMATION_DAA)
      else Ok \<lparr> ke_lib = lib, ke_treasury_address = treasury_address, ke_config = config \<rparr>)"

definition outbound_nacho :: "Krc20PendingTransfer list \<Rightarrow> int" where
  "outbound_nacho ts =
     foldl (\<lambda>acc x. saturating i64_min i64_max (acc + x)) 0
       (map kp_nacho_amount (filter (\<lambda>t. kp_status t \<noteq> TransferFailed) ts))"

text \<open>\<open>client\<close> answers at the start of the tick and the fee estimate, \<open>clients\<close>
  during the sweep.\<close>

definition krc20_run_locked ::
  "Krc20PayoutEngine \<Rightarrow> (string \<Rightarrow> (QuoteError, FloorPrice) outcome) \<Rightarrow> KasClient \<Rightarrow> (int \<Rightarrow> KasClient \<times> KasClient) \<Rightarrow> timestamp \<Rightarrow> world \<Rightarrow>
     (Krc20EngineError, Krc20TickReport) outcome \<times> world" where
  "krc20_run_locked en quote client clients now w =
     (let lib = ke_lib en; cfg = ke_config en in
      if \<not> kl_key_ok (kr_kaspa lib) then (Err KeKey, w) else
      st_bind (lift (map_err KeKaspad (virtual_daa_score client)) w) (\<lambda>virtual_daa w.
      let (daa_start, daa_end) = cycle_window virtual_daa (kec_cycle_span_daa cfg) in
      st_bind (st_map_err KeCycle (resume_or_plan_krc20_cycle lib quote now (kr_xonly lib) (kr_prefix lib (ke_treasury_address en))
          (cycle_params cfg daa_start daa_end) w)) (\<lambda>state w.
      let cycle_id = cy_id (ks_cycle state); outbound = outbound_nacho (ks_transfers state) in
      if over_spend_cap outbound (kec_max_nacho_base_units_per_cycle cfg)
      then (Err (KeSpendCapExceeded outbound (case kec_max_nacho_base_units_per_cycle cfg of Some c \<Rightarrow> c | None \<Rightarrow> 0)), w)
      else
      st_bind (st_map_err KeExecute (settle_pending lib clients now (live_fee_rate client) (ke_treasury_address en)
          (kec_batch_limit cfg) (kec_mode cfg) w)) (\<lambda>settle w.
      st_bind (if is_dry_run (kec_mode cfg) then (Ok CreditReport_default, w)
               else st_map_err KeCycle (credit_completed_transfers now (kec_batch_limit cfg) w)) (\<lambda>credit w.
      st_bind (st_map_err KeCycle (reconcile_krc20_cycle_status now cycle_id w)) (\<lambda>status w.
      (Ok \<lparr> ktr_cycle_id = cycle_id, ktr_virtual_daa = virtual_daa, ktr_daa_start = daa_start, ktr_daa_end = daa_end,
            ktr_settle = settle, ktr_credit = credit, ktr_status = status \<rparr>, w)))))))"

end
