(* ===== verification/Krc20Safety.thy ===== *)
theory Krc20Safety
  imports Krc20Engine PayoutSafety
begin

text \<open>
  What the KRC-20 engine may do to the payout rows and to the wire.  Every commit
  of the database keeps the transaction hashes already recorded on a payout, and
  every broadcast is one whose hash is recorded.
\<close>

section \<open>Transfers and hashes\<close>

definition transfer_of :: "db \<Rightarrow> int \<Rightarrow> Krc20PendingTransfer option" where
  "transfer_of d i = find_where (\<lambda>k. kp_payout_id k = i) (krc20_t d)"

abbreviation no_hashes :: "Payout \<Rightarrow> bool" where
  "no_hashes p \<equiv> po_krc20_commit_hash p = None \<and> po_krc20_reveal_hash p = None"

abbreviation same_hashes :: "Payout \<Rightarrow> Payout \<Rightarrow> bool" where
  "same_hashes p p' \<equiv> po_krc20_commit_hash p' = po_krc20_commit_hash p \<and> po_krc20_reveal_hash p' = po_krc20_reveal_hash p"

text \<open>Which hashes a payout can have, by the state of its transfer.\<close>

definition hashes_fit :: "Krc20PendingTransfer option \<Rightarrow> Payout \<Rightarrow> bool" where
  "hashes_fit t p \<longleftrightarrow>
     (case t of
        None \<Rightarrow> no_hashes p
      | Some k \<Rightarrow> (kp_status k = Pending \<longrightarrow> po_krc20_commit_hash p = None) \<and>
                  (kp_status k \<in> {Pending, CommitSubmitted} \<longrightarrow> po_krc20_reveal_hash p = None))"

definition hash_inv :: "db \<Rightarrow> bool" where
  "hash_inv d \<longleftrightarrow> (\<forall>i p. row_of d i = Some p \<longrightarrow> hashes_fit (transfer_of d i) p)"

definition keeps :: "'a option \<Rightarrow> 'a option \<Rightarrow> bool" where
  "keeps x y \<longleftrightarrow> x = None \<or> y = x"

text \<open>A recorded hash stays.\<close>

definition hashes_kept :: "db \<Rightarrow> db \<Rightarrow> bool" where
  "hashes_kept d d' \<longleftrightarrow>
     (\<forall>i p. row_of d i = Some p \<longrightarrow>
        (\<exists>p'. row_of d' i = Some p' \<and> keeps (po_krc20_commit_hash p) (po_krc20_commit_hash p') \<and>
           keeps (po_krc20_reveal_hash p) (po_krc20_reveal_hash p')))"

lemma keeps_refl [simp]: "keeps x x"
  by (simp add: keeps_def)

lemma keeps_None [simp]: "keeps None y"
  by (simp add: keeps_def)

lemma keeps_trans: "keeps x y \<Longrightarrow> keeps y z \<Longrightarrow> keeps x z"
  by (auto simp: keeps_def)

lemma hashes_kept_refl: "hashes_kept d d"
  by (simp add: hashes_kept_def)

lemma hashes_kept_trans: "hashes_kept d d1 \<Longrightarrow> hashes_kept d1 d2 \<Longrightarrow> hashes_kept d d2"
  unfolding hashes_kept_def by (meson keeps_trans)

lemma transfer_of_Some: "transfer_of d i = Some k \<Longrightarrow> k \<in> set (rows (krc20_t d)) \<and> kp_payout_id k = i"
  unfolding transfer_of_def by (rule find_where_Some)

lemma transfer_of_known:
  assumes "repo_inv d" and "k \<in> set (rows (krc20_t d))"
  shows "transfer_of d (kp_payout_id k) = Some k"
proof -
  have "inj_on kp_payout_id (set (rows (krc20_t d)))"
    using assms(1) by (simp add: repo_inv_def krc20s_inv_def distinct_map)
  moreover obtain k' where k': "transfer_of d (kp_payout_id k) = Some k'"
    using assms(2) find_where_None[of "\<lambda>x. kp_payout_id x = kp_payout_id k" "krc20_t d"] unfolding transfer_of_def by fastforce
  ultimately show ?thesis using transfer_of_Some[OF k'] assms(2) by (auto dest: inj_onD)
qed

section \<open>Quiet changes\<close>

text \<open>A change that records no hash and reopens no transfer.\<close>

definition rows_same :: "db \<Rightarrow> db \<Rightarrow> bool" where
  "rows_same d d' \<longleftrightarrow>
     (\<forall>i p. row_of d i = Some p \<longrightarrow> (\<exists>p'. row_of d' i = Some p' \<and> same_hashes p p')) \<and>
     (\<forall>i p'. row_of d i = None \<longrightarrow> row_of d' i = Some p' \<longrightarrow> no_hashes p')"

definition transfers_on :: "db \<Rightarrow> db \<Rightarrow> bool" where
  "transfers_on d d' \<longleftrightarrow>
     (\<forall>i k. transfer_of d i = Some k \<longrightarrow>
        (\<exists>k'. transfer_of d' i = Some k' \<and> (kp_status k' = kp_status k \<or> kp_status k' \<notin> {Pending, CommitSubmitted})))"

definition quiet_change :: "db \<Rightarrow> db \<Rightarrow> bool" where
  "quiet_change d d' \<longleftrightarrow> rows_same d d' \<and> transfers_on d d'"

lemma quiet_same: "payout_t d' = payout_t d \<Longrightarrow> krc20_t d' = krc20_t d \<Longrightarrow> quiet_change d d'"
  by (auto simp: quiet_change_def rows_same_def transfers_on_def row_of_def transfer_of_def)

lemma quiet_refl: "quiet_change d d"
  by (rule quiet_same) simp_all

lemma rows_same_trans:
  assumes "rows_same d d1" and "rows_same d1 d2"
  shows "rows_same d d2"
proof -
  have "\<exists>p'. row_of d2 i = Some p' \<and> same_hashes p p'" if i: "row_of d i = Some p" for i p
  proof -
    obtain p1 where p1: "row_of d1 i = Some p1" "same_hashes p p1" using assms(1) i unfolding rows_same_def by blast
    obtain p2 where "row_of d2 i = Some p2" "same_hashes p1 p2" using assms(2) p1(1) unfolding rows_same_def by blast
    then show ?thesis using p1(2) by simp
  qed
  moreover have "no_hashes p'" if i: "row_of d i = None" "row_of d2 i = Some p'" for i p'
  proof (cases "row_of d1 i")
    case None
    then show ?thesis using assms(2) i(2) unfolding rows_same_def by blast
  next
    case (Some p1)
    then have "no_hashes p1" using assms(1) i(1) unfolding rows_same_def by blast
    moreover have "same_hashes p1 p'" using assms(2) Some i(2) unfolding rows_same_def by fastforce
    ultimately show ?thesis by simp
  qed
  ultimately show ?thesis unfolding rows_same_def by blast
qed

lemma transfers_on_trans:
  assumes "transfers_on d d1" and "transfers_on d1 d2"
  shows "transfers_on d d2"
  unfolding transfers_on_def
proof (intro allI impI)
  fix i k assume k: "transfer_of d i = Some k"
  obtain k1 where k1: "transfer_of d1 i = Some k1" "kp_status k1 = kp_status k \<or> kp_status k1 \<notin> {Pending, CommitSubmitted}"
    using assms(1) k unfolding transfers_on_def by blast
  obtain k2 where "transfer_of d2 i = Some k2" "kp_status k2 = kp_status k1 \<or> kp_status k2 \<notin> {Pending, CommitSubmitted}"
    using assms(2) k1(1) unfolding transfers_on_def by blast
  then show "\<exists>k'. transfer_of d2 i = Some k' \<and> (kp_status k' = kp_status k \<or> kp_status k' \<notin> {Pending, CommitSubmitted})"
    using k1(2) by (intro exI[of _ k2]) auto
qed

lemma quiet_trans: "quiet_change d d1 \<Longrightarrow> quiet_change d1 d2 \<Longrightarrow> quiet_change d d2"
  unfolding quiet_change_def by (blast intro: rows_same_trans transfers_on_trans)

lemma quiet_hashes: "quiet_change d d' \<Longrightarrow> hashes_kept d d'"
  unfolding quiet_change_def rows_same_def hashes_kept_def by (metis keeps_refl)

lemma quiet_inv:
  assumes q: "quiet_change d d'" and inv: "hash_inv d"
  shows "hash_inv d'"
  unfolding hash_inv_def
proof (intro allI impI)
  fix i p' assume p': "row_of d' i = Some p'"
  show "hashes_fit (transfer_of d' i) p'"
  proof (cases "row_of d i")
    case None
    then have "no_hashes p'" using q p' unfolding quiet_change_def rows_same_def by blast
    then show ?thesis by (simp add: hashes_fit_def split: option.split)
  next
    case (Some p)
    have sh: "same_hashes p p'" using q p' Some unfolding quiet_change_def rows_same_def by fastforce
    have fit: "hashes_fit (transfer_of d i) p" using inv Some unfolding hash_inv_def by blast
    show ?thesis
    proof (cases "transfer_of d i")
      case None
      then show ?thesis using fit sh by (simp add: hashes_fit_def split: option.split)
    next
      case (Some k)
      then obtain k' where "transfer_of d' i = Some k'" "kp_status k' = kp_status k \<or> kp_status k' \<notin> {Pending, CommitSubmitted}"
        using q unfolding quiet_change_def transfers_on_def by blast
      then show ?thesis using fit sh Some by (auto simp: hashes_fit_def)
    qed
  qed
qed

text \<open>The table operations.\<close>

lemma transfer_of_update:
  assumes "\<And>k. kp_payout_id (f k) = kp_payout_id k"
  shows "transfer_of (d\<lparr> krc20_t := update_where P f (krc20_t d) \<rparr>) i = map_option (\<lambda>k. if P k then f k else k) (transfer_of d i)"
proof -
  have "find (\<lambda>k. kp_payout_id k = i) (map (\<lambda>k. if P k then f k else k) xs) =
      map_option (\<lambda>k. if P k then f k else k) (find (\<lambda>k. kp_payout_id k = i) xs)" for xs
    using assms by (induction xs) auto
  then show ?thesis by (simp add: transfer_of_def find_where_def update_where_def)
qed

lemma find_snoc: "find P (xs @ [x]) = (case find P xs of Some y \<Rightarrow> Some y | None \<Rightarrow> if P x then Some x else None)"
  by (induction xs) auto

lemma quiet_payout_update:
  assumes "\<And>p. po_id (f p) = po_id p" and "\<And>p. same_hashes p (f p)"
  shows "quiet_change d (d\<lparr> payout_t := update_where P f (payout_t d) \<rparr>)"
proof -
  have "transfers_on d (d\<lparr> payout_t := update_where P f (payout_t d) \<rparr>)" by (simp add: transfers_on_def transfer_of_def)
  moreover have "rows_same d (d\<lparr> payout_t := update_where P f (payout_t d) \<rparr>)"
    using assms(2) by (auto simp: rows_same_def row_of_update[OF assms(1)])
  ultimately show ?thesis by (simp add: quiet_change_def)
qed

lemma quiet_payout_insert:
  assumes "\<And>n. no_hashes (mk n)"
  shows "quiet_change d (d\<lparr> payout_t := insert_row mk (payout_t d) \<rparr>)"
  using assms by (auto simp: quiet_change_def transfers_on_def rows_same_def row_of_def transfer_of_def find_where_def
      tbl_simps find_snoc split: option.split_asm if_split_asm)

lemma quiet_payout_skip: "quiet_change d (d\<lparr> payout_t := skip_id (payout_t d) \<rparr>)"
  by (auto simp: quiet_change_def transfers_on_def rows_same_def row_of_def transfer_of_def find_where_def tbl_simps)

lemma quiet_krc20_update:
  assumes "\<And>k. kp_payout_id (f k) = kp_payout_id k"
    and "\<And>k. P k \<Longrightarrow> kp_status (f k) = kp_status k \<or> kp_status (f k) \<notin> {Pending, CommitSubmitted}"
  shows "quiet_change d (d\<lparr> krc20_t := update_where P f (krc20_t d) \<rparr>)"
proof -
  have "rows_same d (d\<lparr> krc20_t := update_where P f (krc20_t d) \<rparr>)" by (simp add: rows_same_def row_of_def)
  moreover have "transfers_on d (d\<lparr> krc20_t := update_where P f (krc20_t d) \<rparr>)"
    using assms(2) by (auto simp: transfers_on_def transfer_of_update[OF assms(1)])
  ultimately show ?thesis by (simp add: quiet_change_def)
qed

lemma quiet_krc20_insert: "quiet_change d (d\<lparr> krc20_t := insert_row mk (krc20_t d) \<rparr>)"
  by (auto simp: quiet_change_def transfers_on_def rows_same_def row_of_def transfer_of_def find_where_def tbl_simps find_snoc
      split: option.split)

lemma quiet_krc20_skip: "quiet_change d (d\<lparr> krc20_t := t \<rparr>) \<Longrightarrow> quiet_change d (d\<lparr> krc20_t := skip_id t \<rparr>)"
  by (simp add: quiet_change_def transfers_on_def rows_same_def row_of_def transfer_of_def find_where_def tbl_simps)

named_theorems quiet_tables

lemmas [quiet_tables] = quiet_payout_update quiet_payout_insert quiet_payout_skip quiet_krc20_update quiet_krc20_insert

section \<open>Quiet calls\<close>

lemma quiet_create_cycle: "create_cycle now kind s e d = Ok (c, d') \<Longrightarrow> quiet_change d d'"
  by (rule quiet_same) (auto simp: create_cycle_def Let_def split: if_split_asm option.split_asm)

lemma quiet_set_totals: "set_cycle_totals i s n d = Ok (u, d') \<Longrightarrow> quiet_change d d'"
  by (rule quiet_same) (auto simp: set_cycle_totals_def table_update_Ok)

lemma quiet_cycle_update: "cycle_update P f d = Ok (u, d') \<Longrightarrow> quiet_change d d'"
  by (rule quiet_same) (auto simp: table_update_Ok)

lemma quiet_audit: "audit_append now e d = Ok (a, d') \<Longrightarrow> quiet_change d d'"
  by (rule quiet_same) (auto dest: audit_same)

lemma quiet_ensure_payout: "ensure_payout now c w amount d = Ok (p, d') \<Longrightarrow> quiet_change d d'"
  by (auto simp: ensure_payout_def Let_def new_payout_def split: if_split_asm option.split_asm intro: quiet_tables)

lemma quiet_ensure_krc20: "ensure_krc20_pending now i s n a d = Ok (k, d') \<Longrightarrow> quiet_change d d'"
  by (auto simp: ensure_krc20_pending_def Let_def refresh_krc20_def split: if_split_asm option.split_asm
      intro!: quiet_krc20_skip intro: quiet_tables)

lemma quiet_confirm_once: "confirm_krc20_payout_once now i d = Ok (b, d') \<Longrightarrow> quiet_change d d'"
  by (auto simp: confirm_krc20_payout_once_def outcome_simps table_update_Ok intro: quiet_tables)

lemma quiet_completed: "mark_krc20_completed now i d = Ok (u, d') \<Longrightarrow> quiet_change d d'"
  by (auto simp: mark_krc20_completed_def krc20_advance_def table_update_Ok intro: quiet_tables)

lemma quiet_mark_paid: "mark_paid now w a d = Ok (r, d') \<Longrightarrow> quiet_change d d'"
  by (rule quiet_same) (auto simp: mark_paid_def rebate_write_def split: if_split_asm option.split_asm)

text \<open>So are the calls of the KAS engine.\<close>

lemma quiet_kas_calls:
  "mark_payout_submitted now i h d = Ok (u, d') \<Longrightarrow> quiet_change d d'"
  "mark_payout_accepted i n d = Ok (u, d') \<Longrightarrow> quiet_change d d'"
  "mark_payout_confirmed now i d = Ok (u, d') \<Longrightarrow> quiet_change d d'"
  "mark_payout_failed i reason d = Ok (u, d') \<Longrightarrow> quiet_change d d'"
  by (auto simp: mark_payout_submitted_def mark_payout_accepted_def mark_payout_confirmed_def mark_payout_failed_def
      table_update_Ok intro: quiet_tables)

section \<open>Recording an intent\<close>

text \<open>The amounts a transfer was planned with.\<close>

abbreviation terms_of :: "Krc20PendingTransfer \<Rightarrow> int \<times> int" where
  "terms_of k \<equiv> (kp_nacho_amount k, kp_sompi_to_miner k)"

lemma row_of_hit:
  assumes "\<And>p. po_id (f p) = po_id p"
  shows "row_of (d\<lparr> payout_t := update_where (\<lambda>p. po_id p = i) f (payout_t d) \<rparr>) j =
    (if j = i then map_option f (row_of d j) else row_of d j)"
  using row_of_update[of f, OF assms] row_of_Some[of d j] by (cases "row_of d j") auto

lemma commit_intent_effect:
  assumes "commit_intent now i cf rf h d = Ok (u, d')"
  shows "wallet_t d' = wallet_t d"
    and "row_of d' j = (if j = i then map_option (\<lambda>p. p\<lparr> po_krc20_commit_hash := Some h \<rparr>) (row_of d j) else row_of d j)"
    and "j \<noteq> i \<Longrightarrow> transfer_of d' j = transfer_of d j"
    and "transfer_of d i = Some k \<Longrightarrow> kp_status k = Pending \<Longrightarrow>
      \<exists>k'. transfer_of d' i = Some k' \<and> kp_status k' = CommitSubmitted \<and> terms_of k' = terms_of k"
    and "repo_step\<^sup>*\<^sup>* d d'"
proof -
  let ?P1 = "\<lambda>k. kp_payout_id k = i \<and> kp_commit_fee_sompi k = None \<and> kp_reveal_fee_sompi k = None"
  let ?f1 = "\<lambda>k. k\<lparr> kp_commit_fee_sompi := Some cf, kp_reveal_fee_sompi := Some rf, kp_updated_at := now \<rparr>"
  let ?g = "\<lambda>p. p\<lparr> po_krc20_commit_hash := Some h \<rparr>"
  let ?P2 = "\<lambda>k. kp_payout_id k = i \<and> kp_status k \<in> set [Pending, CommitSubmitted]"
  let ?f2 = "\<lambda>k. k\<lparr> kp_status := CommitSubmitted, kp_updated_at := now \<rparr>"
  obtain d1 d2 where s: "record_krc20_fees now i cf rf d = Ok ((), d1)" "record_krc20_commit_hash i h d1 = Ok ((), d2)"
    "mark_krc20_commit_submitted now i d2 = Ok ((), d')"
    using assms by (auto simp: commit_intent_def elim!: and_then_OkE)
  have d1: "d1 = d\<lparr> krc20_t := update_where ?P1 ?f1 (krc20_t d) \<rparr>" using s(1) by (simp add: record_krc20_fees_def table_update_Ok)
  have d2: "d2 = d1\<lparr> payout_t := update_where (\<lambda>p. po_id p = i) ?g (payout_t d1) \<rparr>"
    using s(2) by (simp add: record_krc20_commit_hash_def table_update_Ok)
  have d3: "d' = d2\<lparr> krc20_t := update_where ?P2 ?f2 (krc20_t d2) \<rparr>"
    using s(3) by (simp add: mark_krc20_commit_submitted_def krc20_advance_def table_update_Ok)
  have r2: "row_of d2 j = (if j = i then map_option ?g (row_of d1 j) else row_of d1 j)"
    unfolding d2 by (rule row_of_hit) simp
  have r: "row_of d1 = row_of d" "row_of d' = row_of d2" "transfer_of d2 = transfer_of d1"
    by (simp_all add: fun_eq_iff d1 d2 d3 row_of_def transfer_of_def)
  have t1: "transfer_of d1 x = map_option (\<lambda>k. if ?P1 k then ?f1 k else k) (transfer_of d x)" for x
    unfolding d1 by (rule transfer_of_update) simp
  have t2: "transfer_of d' x = map_option (\<lambda>k. if ?P2 k then ?f2 k else k) (transfer_of d2 x)" for x
    unfolding d3 by (rule transfer_of_update) simp
  show "wallet_t d' = wallet_t d" by (simp add: d1 d2 d3)
  show "row_of d' j = (if j = i then map_option ?g (row_of d j) else row_of d j)" using r2 by (simp add: r)
  show "transfer_of d' j = transfer_of d j" if "j \<noteq> i"
    using that transfer_of_Some[of d j] by (cases "transfer_of d j") (auto simp: t1 t2 r)
  show "\<exists>k'. transfer_of d' i = Some k' \<and> kp_status k' = CommitSubmitted \<and> terms_of k' = terms_of k"
    if "transfer_of d i = Some k" "kp_status k = Pending"
    using that transfer_of_Some[OF that(1)] by (auto simp: t1 t2 r)
  have "repo_step d d1" "repo_step d1 d2" "repo_step d2 d'" using s by (blast intro: repo_step.intros)+
  then show "repo_step\<^sup>*\<^sup>* d d'" by (meson converse_rtranclp_into_rtranclp rtranclp.rtrancl_refl)
qed

lemma reveal_intent_effect:
  assumes "reveal_intent now i h d = Ok (u, d')"
  shows "wallet_t d' = wallet_t d"
    and "row_of d' j = (if j = i then map_option (\<lambda>p. p\<lparr> po_krc20_reveal_hash := Some h \<rparr>) (row_of d j) else row_of d j)"
    and "j \<noteq> i \<Longrightarrow> transfer_of d' j = transfer_of d j"
    and "transfer_of d i = Some k \<Longrightarrow> kp_status k = CommitSubmitted \<Longrightarrow>
      \<exists>k'. transfer_of d' i = Some k' \<and> kp_status k' = RevealSubmitted \<and> terms_of k' = terms_of k"
    and "repo_step\<^sup>*\<^sup>* d d'"
proof -
  let ?g = "\<lambda>p. p\<lparr> po_krc20_reveal_hash := Some h \<rparr>"
  let ?P2 = "\<lambda>k. kp_payout_id k = i \<and> kp_status k \<in> set [CommitSubmitted, RevealSubmitted]"
  let ?f2 = "\<lambda>k. k\<lparr> kp_status := RevealSubmitted, kp_updated_at := now \<rparr>"
  obtain d2 where s: "record_krc20_reveal_hash i h d = Ok ((), d2)" "mark_krc20_reveal_submitted now i d2 = Ok ((), d')"
    using assms by (auto simp: reveal_intent_def elim!: and_then_OkE)
  have d2: "d2 = d\<lparr> payout_t := update_where (\<lambda>p. po_id p = i) ?g (payout_t d) \<rparr>"
    using s(1) by (simp add: record_krc20_reveal_hash_def table_update_Ok)
  have d3: "d' = d2\<lparr> krc20_t := update_where ?P2 ?f2 (krc20_t d2) \<rparr>"
    using s(2) by (simp add: mark_krc20_reveal_submitted_def krc20_advance_def table_update_Ok)
  have r2: "row_of d2 j = (if j = i then map_option ?g (row_of d j) else row_of d j)"
    unfolding d2 by (rule row_of_hit) simp
  have r: "row_of d' = row_of d2" "transfer_of d2 = transfer_of d"
    by (simp_all add: fun_eq_iff d2 d3 row_of_def transfer_of_def)
  have t2: "transfer_of d' x = map_option (\<lambda>k. if ?P2 k then ?f2 k else k) (transfer_of d2 x)" for x
    unfolding d3 by (rule transfer_of_update) simp
  show "wallet_t d' = wallet_t d" by (simp add: d2 d3)
  show "row_of d' j = (if j = i then map_option ?g (row_of d j) else row_of d j)" using r2 by (simp add: r)
  show "transfer_of d' j = transfer_of d j" if "j \<noteq> i"
    using that transfer_of_Some[of d j] by (cases "transfer_of d j") (auto simp: t2 r)
  show "\<exists>k'. transfer_of d' i = Some k' \<and> kp_status k' = RevealSubmitted \<and> terms_of k' = terms_of k"
    if "transfer_of d i = Some k" "kp_status k = CommitSubmitted"
    using that transfer_of_Some[OF that(1)] by (auto simp: t2 r)
  have "repo_step d d2" "repo_step d2 d'" using s by (blast intro: repo_step.intros)+
  then show "repo_step\<^sup>*\<^sup>* d d'" by (meson converse_rtranclp_into_rtranclp rtranclp.rtrancl_refl)
qed

text \<open>Both intents keep the invariant, from the state the handler found.\<close>

lemma commit_intent_keeps:
  assumes e: "commit_intent now i cf rf h d = Ok (u, d')" and inv: "hash_inv d"
    and k: "transfer_of d i = Some k" "kp_status k = Pending"
  shows "hash_inv d'" and "hashes_kept d d'"
proof -
  note E = commit_intent_effect[OF e]
  obtain k' where k': "transfer_of d' i = Some k'" "kp_status k' = CommitSubmitted" using E(4)[OF k] by blast
  have fit: "no_hashes p" if "row_of d i = Some p" for p using inv that k unfolding hash_inv_def hashes_fit_def by fastforce
  show "hash_inv d'"
    unfolding hash_inv_def
  proof (intro allI impI)
    fix j p' assume p': "row_of d' j = Some p'"
    show "hashes_fit (transfer_of d' j) p'"
    proof (cases "j = i")
      case True
      then obtain p where "row_of d i = Some p" "p' = p\<lparr> po_krc20_commit_hash := Some h \<rparr>"
        using p' E(2)[of j] by (cases "row_of d i") auto
      then show ?thesis using fit k' True by (simp add: hashes_fit_def)
    next
      case False
      then show ?thesis using p' E(2)[of j] E(3)[OF False] inv by (simp add: hash_inv_def)
    qed
  qed
  show "hashes_kept d d'" using fit by (auto simp: hashes_kept_def E(2))
qed

lemma reveal_intent_keeps:
  assumes e: "reveal_intent now i h d = Ok (u, d')" and inv: "hash_inv d"
    and k: "transfer_of d i = Some k" "kp_status k = CommitSubmitted"
  shows "hash_inv d'" and "hashes_kept d d'"
proof -
  note E = reveal_intent_effect[OF e]
  obtain k' where k': "transfer_of d' i = Some k'" "kp_status k' = RevealSubmitted" using E(4)[OF k] by blast
  have fit: "po_krc20_reveal_hash p = None" if "row_of d i = Some p" for p
    using inv that k unfolding hash_inv_def hashes_fit_def by fastforce
  show "hash_inv d'"
    unfolding hash_inv_def
  proof (intro allI impI)
    fix j p' assume p': "row_of d' j = Some p'"
    show "hashes_fit (transfer_of d' j) p'"
    proof (cases "j = i")
      case True
      then show ?thesis using k' by (simp add: hashes_fit_def)
    next
      case False
      then show ?thesis using p' E(2)[of j] E(3)[OF False] inv by (simp add: hash_inv_def)
    qed
  qed
  show "hashes_kept d d'" using fit by (auto simp: hashes_kept_def E(2))
qed

section \<open>Broadcasts\<close>

text \<open>A transaction without its signature scripts.  Signing changes nothing else,
  and a transaction id does not depend on them.\<close>

definition strip :: "Transaction \<Rightarrow> Transaction" where
  "strip tx = tx\<lparr> tx_inputs := map (\<lambda>i. i\<lparr> ti_signature_script := [] \<rparr>) (tx_inputs tx) \<rparr>"

definition scripts_only :: "kaspa_lib \<Rightarrow> bool" where
  "scripts_only lib \<longleftrightarrow>
     (\<forall>tx es. strip (kl_sign lib tx es) = strip tx) \<and> (\<forall>tx tx'. strip tx = strip tx' \<longrightarrow> kl_tx_id lib tx = kl_tx_id lib tx')"

text \<open>The commit of a payout: it locks the transfer's amount under the inscription
  that sends the transfer's NACHO to the payout's wallet, and its id is the
  recorded commit hash.\<close>

definition commit_for :: "krc20_lib \<Rightarrow> ScriptPublicKey \<Rightarrow> db \<Rightarrow> int \<Rightarrow> Transaction \<Rightarrow> bool" where
  "commit_for lib script d i tx \<longleftrightarrow>
     (\<exists>p k wal redeem change. row_of d i = Some p \<and> transfer_of d i = Some k \<and> wallet_get_by_id (po_wallet_id p) d = Ok wal \<and>
        build_transfer_inscription lib (kr_xonly lib)
          (Krc20Transfer_new NACHO_TICK (show_int (kp_nacho_amount k)) (wal_address wal)) = Ok redeem \<and>
        tx_outputs tx = commit_outputs (commit_script_public_key lib redeem) (kp_sompi_to_miner k) script change \<and>
        po_krc20_commit_hash p = Some (kl_tx_id (kr_kaspa lib) tx))"

text \<open>The reveal of a payout: it spends the recorded commit and returns to the
  treasury, and its id is the recorded reveal hash.\<close>

definition reveal_for :: "krc20_lib \<Rightarrow> ScriptPublicKey \<Rightarrow> db \<Rightarrow> int \<Rightarrow> Transaction \<Rightarrow> bool" where
  "reveal_for lib script d i tx \<longleftrightarrow>
     (\<exists>p h ret. row_of d i = Some p \<and> po_krc20_commit_hash p = Some h \<and>
        map ti_previous_outpoint (tx_inputs tx) = [\<lparr> op_transaction_id = h, op_index = COMMIT_P2SH_OUTPUT_INDEX \<rparr>] \<and>
        tx_outputs tx = [\<lparr> to_value = ret, to_script_public_key = script \<rparr>] \<and>
        po_krc20_reveal_hash p = Some (kl_tx_id (kr_kaspa lib) tx))"

definition expected :: "krc20_lib \<Rightarrow> ScriptPublicKey \<Rightarrow> db \<Rightarrow> int list \<Rightarrow> Transaction \<Rightarrow> bool" where
  "expected lib script d ids tx \<longleftrightarrow> (\<exists>i. ids = [i] \<and> (commit_for lib script d i tx \<or> reveal_for lib script d i tx))"

lemma strip_outputs: "strip tx = strip tx' \<Longrightarrow> tx_outputs tx = tx_outputs tx'"
proof -
  assume "strip tx = strip tx'"
  then have "tx_outputs (strip tx) = tx_outputs (strip tx')" by simp
  then show ?thesis by (simp add: strip_def)
qed

lemma sign_commit_tx:
  assumes "sign_commit lib plan script = Ok sc" and "scripts_only (kr_kaspa lib)"
  shows "tx_outputs (sc_tx sc) = commit_outputs (cr_commit_script_public_key plan) (cr_commit_amount_sompi plan) script
      (cr_commit_change_sompi plan)"
    and "commit_txid lib plan script = Ok (kl_tx_id (kr_kaspa lib) (sc_tx sc))"
proof -
  obtain tx es where u: "build_commit_unsigned lib plan script = Ok (tx, es)" and sc: "sc_tx sc = kl_sign (kr_kaspa lib) tx es"
    using assms(1) by (auto simp: sign_commit_def Let_def outcome_simps split: if_split_asm)
  have same: "strip (sc_tx sc) = strip tx" using assms(2) unfolding scripts_only_def sc by blast
  have "tx_outputs tx = commit_outputs (cr_commit_script_public_key plan) (cr_commit_amount_sompi plan) script
      (cr_commit_change_sompi plan)"
    using u by (auto simp: build_commit_unsigned_def split: if_split_asm)
  then show "tx_outputs (sc_tx sc) = commit_outputs (cr_commit_script_public_key plan) (cr_commit_amount_sompi plan) script
      (cr_commit_change_sompi plan)"
    using strip_outputs[OF same] by simp
  have "kl_tx_id (kr_kaspa lib) (sc_tx sc) = kl_tx_id (kr_kaspa lib) tx" using same assms(2) unfolding scripts_only_def by blast
  then show "commit_txid lib plan script = Ok (kl_tx_id (kr_kaspa lib) (sc_tx sc))" by (simp add: commit_txid_def u)
qed

lemma sign_reveal_tx:
  assumes "sign_reveal lib plan op script = Ok sr" and "scripts_only (kr_kaspa lib)"
  shows "map ti_previous_outpoint (tx_inputs (sr_tx sr)) = [op]"
    and "tx_outputs (sr_tx sr) = [\<lparr> to_value = cr_reveal_return_sompi plan, to_script_public_key = script \<rparr>]"
    and "reveal_txid lib plan op script = kl_tx_id (kr_kaspa lib) (sr_tx sr)"
proof -
  let ?u = "build_reveal_unsigned lib plan op script"
  obtain ss where sr: "sr_tx sr = ?u\<lparr> tx_inputs := map (\<lambda>i. i\<lparr> ti_signature_script := ss \<rparr>) (tx_inputs ?u) \<rparr>"
    using assms(1) by (auto simp: sign_reveal_def Let_def outcome_simps split: if_split_asm)
  show "map ti_previous_outpoint (tx_inputs (sr_tx sr)) = [op]"
    and "tx_outputs (sr_tx sr) = [\<lparr> to_value = cr_reveal_return_sompi plan, to_script_public_key = script \<rparr>]"
    by (simp_all add: sr build_reveal_unsigned_def)
  have "strip (sr_tx sr) = strip ?u" by (simp add: strip_def sr build_reveal_unsigned_def)
  then show "reveal_txid lib plan op script = kl_tx_id (kr_kaspa lib) (sr_tx sr)"
    using assms(2) unfolding scripts_only_def reveal_txid_def by metis
qed

lemma plan_shape:
  assumes "plan_from_utxos lib ctx utxos policy = Ok plan"
  shows "build_transfer_inscription lib (tc_xonly ctx) (tc_inscription ctx) = Ok (cr_redeem_script plan)"
    and "cr_commit_script_public_key plan = commit_script_public_key lib (cr_redeem_script plan)"
    and "cr_commit_amount_sompi plan = tc_commit_amount_sompi ctx"
  using assms unfolding plan_from_utxos_def plan_commit_reveal_def Let_def
  by (auto simp: outcome_simps split: if_split_asm)

section \<open>Safe logs\<close>

definition kinv :: "db \<Rightarrow> bool" where
  "kinv d \<longleftrightarrow> repo_inv d \<and> hash_inv d"

fun ksafe :: "krc20_lib \<Rightarrow> ScriptPublicKey \<Rightarrow> db \<Rightarrow> effect list \<Rightarrow> bool" where
  "ksafe lib script d [] = True"
| "ksafe lib script d (Committed d' # es) = (kinv d' \<and> hashes_kept d d' \<and> ksafe lib script d' es)"
| "ksafe lib script d (Sent ids tx # es) = (expected lib script d ids tx \<and> ksafe lib script d es)"

lemma ksafe_append: "ksafe lib script d (es @ fs) \<longleftrightarrow> ksafe lib script d es \<and> ksafe lib script (db_after d es) fs"
  by (induction es arbitrary: d rule: sent_rows.induct) auto

lemma ksafe_take: "ksafe lib script d es \<Longrightarrow> ksafe lib script d (take n es)"
  using ksafe_append[of lib script d "take n es" "drop n es"] by simp

lemma ksafe_db: "ksafe lib script d es \<Longrightarrow> kinv d \<Longrightarrow> kinv (db_after d es) \<and> hashes_kept d (db_after d es)"
proof (induction es arbitrary: d rule: sent_rows.induct)
  case (2 d' es)
  then show ?case using hashes_kept_trans by auto
qed (auto simp: hashes_kept_refl)

definition kextends :: "krc20_lib \<Rightarrow> ScriptPublicKey \<Rightarrow> world \<Rightarrow> world \<Rightarrow> effect list \<Rightarrow> bool" where
  "kextends lib script w w' es \<longleftrightarrow>
     wd_log w' = wd_log w @ es \<and> wd_db w' = db_after (wd_db w) es \<and> ksafe lib script (wd_db w) es"

lemma kextends_trans: "kextends lib script w w1 es \<Longrightarrow> kextends lib script w1 w2 fs \<Longrightarrow> kextends lib script w w2 (es @ fs)"
  by (simp add: kextends_def ksafe_append db_after_append)

lemma kextends_refl: "kextends lib script w w []"
  by (simp add: kextends_def)

lemma kextends_inv: "kextends lib script w w' es \<Longrightarrow> kinv (wd_db w) \<Longrightarrow> kinv (wd_db w')"
  using ksafe_db[of lib script "wd_db w" es] by (auto simp: kextends_def)

text \<open>A transaction that only makes quiet changes.\<close>

definition quiet_tx :: "(db \<Rightarrow> ('e, 'a \<times> db) outcome) \<Rightarrow> db \<Rightarrow> bool" where
  "quiet_tx f d \<longleftrightarrow> (\<forall>a d'. f d = Ok (a, d') \<longrightarrow> repo_inv d' \<and> quiet_change d d')"

lemma quiet_commit: "repo_inv d \<Longrightarrow> quiet_change (wd_db w) d \<Longrightarrow> kinv (wd_db w) \<Longrightarrow> kextends lib script w (commit d w) [Committed d]"
  using quiet_inv quiet_hashes by (simp add: kextends_def commit_def kinv_def)

lemma w_tx_quiet:
  assumes "w_tx f w = (m, w')" and "quiet_tx f (wd_db w)" and "kinv (wd_db w)"
  shows "\<exists>es. kextends lib script w w' es"
proof (cases "f (wd_db w)")
  case (Ok x)
  obtain a d where x: "x = (a, d)" by (cases x)
  have "w' = commit d w" using assms(1) Ok x by (simp add: w_tx_def)
  moreover have "repo_inv d" "quiet_change (wd_db w) d" using assms(2) Ok x unfolding quiet_tx_def by blast+
  ultimately show ?thesis using quiet_commit[OF _ _ assms(3)] by blast
qed (use assms(1) kextends_refl in \<open>auto simp: w_tx_def\<close>)

section \<open>One transfer\<close>

definition fits_ctx :: "krc20_lib \<Rightarrow> ScriptPublicKey \<Rightarrow> db \<Rightarrow> Krc20PendingTransfer \<Rightarrow> TransferCtx \<Rightarrow> Payout \<Rightarrow> bool" where
  "fits_ctx lib script d t ctx p \<longleftrightarrow>
     row_of d (kp_payout_id t) = Some p \<and> tc_payout_id ctx = kp_payout_id t \<and>
     (\<exists>wal. wallet_get_by_id (po_wallet_id p) d = Ok wal \<and>
        tc_inscription ctx = Krc20Transfer_new NACHO_TICK (show_int (kp_nacho_amount t)) (wal_address wal)) \<and>
     tc_commit_amount_sompi ctx = kp_sompi_to_miner t \<and> tc_treasury_script ctx = script \<and> tc_xonly ctx = kr_xonly lib"

lemma transfer_ctx_fits:
  "transfer_ctx lib addr fr t d = Ok (ctx, p) \<Longrightarrow> fits_ctx lib (kl_pay_to_address_script (kr_kaspa lib) addr) d t ctx p"
  by (auto simp: transfer_ctx_def fits_ctx_def Let_def row_of_def get_payout_def outcome_simps split: if_split_asm)

text \<open>What handling the transfer of payout \<open>i\<close> does.\<close>

definition moves :: "krc20_lib \<Rightarrow> ScriptPublicKey \<Rightarrow> int \<Rightarrow> world \<Rightarrow> world \<Rightarrow> bool" where
  "moves lib script i w w' \<longleftrightarrow>
     (\<exists>es. kextends lib script w w' es) \<and> (\<forall>j. j \<noteq> i \<longrightarrow> transfer_of (wd_db w') j = transfer_of (wd_db w) j)"

lemma moves_refl: "moves lib script i w w"
  using kextends_refl by (auto simp: moves_def)

lemma moves_send: "expected lib script (wd_db w) [i] tx \<Longrightarrow> moves lib script i w (send [i] tx w)"
  by (auto simp: moves_def kextends_def send_def intro!: exI[of _ "[Sent [i] tx]"])

lemma moves_intent:
  assumes "kinv d'" and "hashes_kept (wd_db w) d'" and "expected lib script d' [i] tx"
    and "\<And>j. j \<noteq> i \<Longrightarrow> transfer_of d' j = transfer_of (wd_db w) j"
  shows "moves lib script i w (send [i] tx (commit d' w))"
  using assms by (auto simp: moves_def kextends_def send_def commit_def intro!: exI[of _ "[Committed d', Sent [i] tx]"])

lemma lift_eqE: assumes "lift m w = (r, w')" obtains "m = r" "w' = w"
  using assms by (simp add: lift_def)

lemma submitE:
  assumes "submit client i tx w = (m, w')"
  obtains "w' = send [i] tx w"
  using assms by (simp add: submit_def)

text \<open>The commit of a plan is the one expected, once its id is recorded.\<close>

lemma commit_expected:
  assumes ctx: "fits_ctx lib script d t ctx p" and plan: "plan_from_utxos lib ctx utxos policy = Ok plan"
    and sg: "sign_commit lib plan script = Ok sc" and lib: "scripts_only (kr_kaspa lib)"
    and row: "row_of d' (kp_payout_id t) = Some p'" "po_wallet_id p' = po_wallet_id p"
      "po_krc20_commit_hash p' = Some (kl_tx_id (kr_kaspa lib) (sc_tx sc))"
    and k: "transfer_of d' (kp_payout_id t) = Some k" "terms_of k = terms_of t" and wal: "wallet_t d' = wallet_t d"
  shows "expected lib script d' [kp_payout_id t] (sc_tx sc)"
proof -
  obtain wal where wal': "wallet_get_by_id (po_wallet_id p) d = Ok wal"
    "tc_inscription ctx = Krc20Transfer_new NACHO_TICK (show_int (kp_nacho_amount t)) (wal_address wal)"
    using ctx unfolding fits_ctx_def by blast
  have ctx': "tc_commit_amount_sompi ctx = kp_sompi_to_miner t" "tc_xonly ctx = kr_xonly lib" using ctx by (simp_all add: fits_ctx_def)
  note S = plan_shape[OF plan] and T = sign_commit_tx[OF sg lib]
  have "commit_for lib script d' (kp_payout_id t) (sc_tx sc)"
    unfolding commit_for_def
    using row k wal' S T(1) ctx' wallet_get_cong[OF wal, of "po_wallet_id p"] by auto
  then show ?thesis by (auto simp: expected_def)
qed

lemma handle_pending_moves:
  assumes r: "handle_pending lib client now ctx mode ledger w = ((m, w'), l')" and ctx: "fits_ctx lib script (wd_db w) t ctx p"
    and t: "transfer_of (wd_db w) (kp_payout_id t) = Some t" "kp_status t = Pending" and inv: "kinv (wd_db w)"
    and lib: "scripts_only (kr_kaspa lib)"
  shows "moves lib script (kp_payout_id t) w w'"
proof (cases "w' = w")
  case False
  let ?prep = "and_then (fetch_spendable_utxos client (tc_treasury_address ctx) (wd_db w)) (\<lambda>utxos.
           and_then (plan_from_utxos lib ctx (ledger_reconcile ledger utxos) (Adaptive (tc_fee_rate ctx))) (\<lambda>plan.
           and_then (verify_p2sh lib ctx plan) (\<lambda>_.
           and_then (map_err KxSign (sign_commit lib plan (tc_treasury_script ctx))) (\<lambda>sc. Ok (plan, sc)))))"
  have ids: "tc_payout_id ctx = kp_payout_id t" "tc_treasury_script ctx = script" "row_of (wd_db w) (kp_payout_id t) = Some p"
    using ctx by (simp_all add: fits_ctx_def)
  obtain plan sc where prep: "?prep = Ok (plan, sc)"
    using r False by (cases ?prep) (auto simp: handle_pending_def)
  then obtain utxos where plan: "plan_from_utxos lib ctx utxos (Adaptive (tc_fee_rate ctx)) = Ok plan"
    and sg: "sign_commit lib plan script = Ok sc" unfolding ids(2) by (auto elim!: and_then_OkE simp: map_err_iff)
  let ?id = "kl_tx_id (kr_kaspa lib) (sc_tx sc)"
  obtain cf rf d' u where i: "commit_intent now (kp_payout_id t) cf rf ?id (wd_db w) = Ok (u, d')"
    and w': "w' = send [kp_payout_id t] (sc_tx sc) (commit d' w)"
    using r False prep ids(1)
    by (auto simp: handle_pending_def Let_def w_tx_def split: if_split_asm outcome.split_asm elim!: st_bindE st_map_errE liftE submitE)
  note E = commit_intent_effect[OF i] and K = commit_intent_keeps[OF i _ t]
  have "repo_inv d'" using repo_steps_tx[OF E(5)] inv by (simp add: kinv_def)
  then have kd: "kinv d'" "hashes_kept (wd_db w) d'" using K inv by (simp_all add: kinv_def)
  obtain k' where k': "transfer_of d' (kp_payout_id t) = Some k'" "terms_of k' = terms_of t" using E(4)[OF t] by blast
  have "expected lib script d' [kp_payout_id t] (sc_tx sc)"
    by (rule commit_expected[where p' = "p\<lparr> po_krc20_commit_hash := Some ?id \<rparr>", OF ctx plan sg lib _ _ _ k' E(1)])
      (simp_all add: E(2) ids(3))
  from moves_intent[OF kd this E(3)] show ?thesis unfolding w' .
qed (simp add: moves_refl)

lemma reveal_expected:
  assumes row: "row_of d i = Some p" "po_krc20_commit_hash p = Some h" "po_krc20_reveal_hash p = Some (kl_tx_id (kr_kaspa lib) (sr_tx sr))"
    and sg: "sign_reveal lib plan \<lparr> op_transaction_id = h, op_index = COMMIT_P2SH_OUTPUT_INDEX \<rparr> script = Ok sr"
    and lib: "scripts_only (kr_kaspa lib)"
  shows "expected lib script d [i] (sr_tx sr)"
  using row sign_reveal_tx[OF sg lib] by (auto simp: expected_def reveal_for_def)

lemma recorded_txid_Ok: "recorded_txid h i kind = Ok x \<Longrightarrow> h = Some x"
  by (auto simp: recorded_txid_def outcome_simps split: if_split_asm)

lemma broadcast_reveal_moves:
  assumes r: "broadcast_reveal lib client now ctx plan \<lparr> op_transaction_id = h, op_index = COMMIT_P2SH_OUTPUT_INDEX \<rparr> mode w = (m, w')"
    and ctx: "fits_ctx lib script (wd_db w) t ctx p" and h: "po_krc20_commit_hash p = Some h"
    and t: "transfer_of (wd_db w) (kp_payout_id t) = Some t" "kp_status t = CommitSubmitted" and inv: "kinv (wd_db w)"
    and lib: "scripts_only (kr_kaspa lib)"
  shows "moves lib script (kp_payout_id t) w w'"
proof (cases "w' = w")
  case False
  let ?op = "\<lparr> op_transaction_id = h, op_index = COMMIT_P2SH_OUTPUT_INDEX \<rparr>"
  have ids: "tc_payout_id ctx = kp_payout_id t" "tc_treasury_script ctx = script" "row_of (wd_db w) (kp_payout_id t) = Some p"
    using ctx by (simp_all add: fits_ctx_def)
  obtain sr where sg: "sign_reveal lib plan ?op script = Ok sr"
    using r False ids(2) by (auto simp: broadcast_reveal_def map_err_iff elim!: st_bindE lift_eqE)
  let ?id = "kl_tx_id (kr_kaspa lib) (sr_tx sr)"
  obtain d' u where i: "reveal_intent now (kp_payout_id t) ?id (wd_db w) = Ok (u, d')"
    and w': "w' = send [kp_payout_id t] (sr_tx sr) (commit d' w)"
    using r False sg ids(1,2)
    by (auto simp: broadcast_reveal_def lift_def Let_def w_tx_def split: if_split_asm outcome.split_asm
        elim!: st_bindE st_map_errE submitE)
  note E = reveal_intent_effect[OF i] and K = reveal_intent_keeps[OF i _ t]
  have "repo_inv d'" using repo_steps_tx[OF E(5)] inv by (simp add: kinv_def)
  then have kd: "kinv d'" "hashes_kept (wd_db w) d'" using K inv by (simp_all add: kinv_def)
  have "expected lib script d' [kp_payout_id t] (sr_tx sr)"
    by (rule reveal_expected[where p = "p\<lparr> po_krc20_reveal_hash := Some ?id \<rparr>", OF _ _ _ sg lib]) (simp_all add: E(2) ids(3) h)
  from moves_intent[OF kd this E(3)] show ?thesis unfolding w' .
qed (simp add: moves_refl)

lemma rebroadcast_commit_moves:
  assumes r: "rebroadcast_commit lib client ctx h w = (m, w')"
    and ctx: "fits_ctx lib script (wd_db w) t ctx p" and h: "po_krc20_commit_hash p = Some h"
    and t: "transfer_of (wd_db w) (kp_payout_id t) = Some t" and lib: "scripts_only (kr_kaspa lib)"
  shows "moves lib script (kp_payout_id t) w w'"
proof (cases "w' = w")
  case False
  have ids: "tc_payout_id ctx = kp_payout_id t" "tc_treasury_script ctx = script" "row_of (wd_db w) (kp_payout_id t) = Some p"
    using ctx by (simp_all add: fits_ctx_def)
  obtain utxos policy plan rebuilt where plan: "plan_from_utxos lib ctx utxos policy = Ok plan"
    and c: "commit_txid lib plan (tc_treasury_script ctx) = Ok rebuilt"
    and k: "(if rebuilt \<noteq> h then (Err (CommitDrift (tc_payout_id ctx) h rebuilt), w)
      else st_bind (lift (map_err KxSign (sign_commit lib plan (tc_treasury_script ctx))) w) (\<lambda>sc w.
        st_bind (submit client (tc_payout_id ctx) (sc_tx sc) w) (\<lambda>_ w. (Ok CommitRebroadcast, w)))) = (m, w')"
    using r False unfolding rebroadcast_commit_def by (auto simp: map_err_iff elim!: st_bindE lift_eqE)
  obtain sc where sg: "sign_commit lib plan script = Ok sc" and w': "w' = send [kp_payout_id t] (sc_tx sc) w" and eq: "rebuilt = h"
    using k False ids(1,2) by (auto simp: map_err_iff split: if_split_asm elim!: st_bindE lift_eqE submitE)
  have "h = kl_tx_id (kr_kaspa lib) (sc_tx sc)" using sign_commit_tx(2)[OF sg lib] c eq ids(2) by simp
  then have "expected lib script (wd_db w) [kp_payout_id t] (sc_tx sc)"
    using h by (intro commit_expected[OF ctx plan sg lib ids(3) refl _ t refl refl]) simp
  from moves_send[OF this] show ?thesis unfolding w' .
qed (simp add: moves_refl)

lemma handle_commit_submitted_moves:
  assumes r: "handle_commit_submitted lib clients now ctx p mode w = (m, w')"
    and ctx: "fits_ctx lib script (wd_db w) t ctx p"
    and t: "transfer_of (wd_db w) (kp_payout_id t) = Some t" "kp_status t = CommitSubmitted" and inv: "kinv (wd_db w)"
    and lib: "scripts_only (kr_kaspa lib)"
  shows "moves lib script (kp_payout_id t) w w'"
proof -
  have "w' = w \<or> (\<exists>h. po_krc20_commit_hash p = Some h \<and>
      ((\<exists>c plan m. broadcast_reveal lib c now ctx plan \<lparr> op_transaction_id = h, op_index = COMMIT_P2SH_OUTPUT_INDEX \<rparr> mode w = (m, w')) \<or>
       (\<exists>c m. rebroadcast_commit lib c ctx h w = (m, w'))))"
    using r unfolding handle_commit_submitted_def Let_def case_prod_unfold
    by (auto elim!: st_bindE lift_eqE dest!: recorded_txid_Ok split: option.split_asm if_split_asm)
  then show ?thesis
    using moves_refl broadcast_reveal_moves[OF _ ctx _ t inv lib] rebroadcast_commit_moves[OF _ ctx _ t(1) lib] by blast
qed

lemma rebroadcast_reveal_moves:
  assumes r: "rebroadcast_reveal lib client ctx p rh w = (m, w')"
    and ctx: "fits_ctx lib script (wd_db w) t ctx p" and rh: "po_krc20_reveal_hash p = Some rh" and lib: "scripts_only (kr_kaspa lib)"
  shows "moves lib script (kp_payout_id t) w w'"
proof (cases "w' = w")
  case False
  let ?op = "\<lambda>h. \<lparr> op_transaction_id = h, op_index = COMMIT_P2SH_OUTPUT_INDEX \<rparr>"
  have ids: "tc_payout_id ctx = kp_payout_id t" "tc_treasury_script ctx = script" "row_of (wd_db w) (kp_payout_id t) = Some p"
    using ctx by (simp_all add: fits_ctx_def)
  obtain h plan sr where h: "po_krc20_commit_hash p = Some h" and eq: "reveal_txid lib plan (?op h) (tc_treasury_script ctx) = rh"
    and sg: "sign_reveal lib plan (?op h) (tc_treasury_script ctx) = Ok sr" and w': "w' = send [tc_payout_id ctx] (sr_tx sr) w"
    using r False unfolding rebroadcast_reveal_def Let_def
    by (auto simp: map_err_iff split: if_split_asm elim!: st_bindE lift_eqE submitE dest!: recorded_txid_Ok)
  have "rh = kl_tx_id (kr_kaspa lib) (sr_tx sr)" using sign_reveal_tx(3)[OF sg lib] eq by simp
  then have "expected lib script (wd_db w) [kp_payout_id t] (sr_tx sr)"
    using rh sg ids(2) by (intro reveal_expected[OF ids(3) h _ _ lib]) simp_all
  from moves_send[OF this] show ?thesis unfolding w' ids(1) .
qed (simp add: moves_refl)

lemma completed_moves:
  assumes "w_tx (mark_krc20_completed now i) w = (m, w')" and "kinv (wd_db w)"
  shows "moves lib script i w w'"
proof -
  have rt: "repo_inv d'" if "mark_krc20_completed now i (wd_db w) = Ok (a, d')" for a d'
    using that repo_step_inv[of "wd_db w" d'] assms(2) by (auto simp: kinv_def intro: repo_step.intros)
  then have "quiet_tx (mark_krc20_completed now i) (wd_db w)" using quiet_completed unfolding quiet_tx_def by blast
  then have "\<exists>es. kextends lib script w w' es" by (rule w_tx_quiet[OF assms(1) _ assms(2)])
  moreover have "transfer_of (wd_db w') j = transfer_of (wd_db w) j" if "j \<noteq> i" for j
  proof -
    let ?P = "\<lambda>k. kp_payout_id k = i \<and> kp_status k \<in> set [RevealSubmitted, Completed]"
    let ?f = "\<lambda>k. k\<lparr> kp_status := Completed, kp_updated_at := now \<rparr>"
    have "wd_db w' = wd_db w \<or> wd_db w' = (wd_db w)\<lparr> krc20_t := update_where ?P ?f (krc20_t (wd_db w)) \<rparr>"
      using assms(1) by (auto simp: w_tx_def commit_def mark_krc20_completed_def krc20_advance_def table_update_Ok split: outcome.split_asm)
    moreover have "transfer_of ((wd_db w)\<lparr> krc20_t := update_where ?P ?f (krc20_t (wd_db w)) \<rparr>) j =
        map_option (\<lambda>k. if ?P k then ?f k else k) (transfer_of (wd_db w) j)" by (rule transfer_of_update) simp
    ultimately show ?thesis using that transfer_of_Some[of "wd_db w" j] by (cases "transfer_of (wd_db w) j") auto
  qed
  ultimately show ?thesis by (simp add: moves_def)
qed

lemma handle_reveal_submitted_moves:
  assumes r: "handle_reveal_submitted lib client now ctx p mode w = (m, w')"
    and ctx: "fits_ctx lib script (wd_db w) t ctx p" and inv: "kinv (wd_db w)" and lib: "scripts_only (kr_kaspa lib)"
  shows "moves lib script (kp_payout_id t) w w'"
proof -
  have id: "tc_payout_id ctx = kp_payout_id t" using ctx by (simp add: fits_ctx_def)
  have "w' = w \<or> (\<exists>rh. po_krc20_reveal_hash p = Some rh \<and> (\<exists>m. rebroadcast_reveal lib client ctx p rh w = (m, w'))) \<or>
      (\<exists>m. w_tx (mark_krc20_completed now (tc_payout_id ctx)) w = (m, w'))"
    using r unfolding handle_reveal_submitted_def Let_def
    by (auto elim!: st_bindE lift_eqE st_map_errE dest!: recorded_txid_Ok split: ConfirmationState.split_asm if_split_asm)
  then show ?thesis
    using moves_refl rebroadcast_reveal_moves[OF _ ctx _ lib] completed_moves[OF _ inv] unfolding id by blast
qed

lemma advance_moves:
  assumes r: "advance_transfer_inner lib clients now addr fr t mode ledger w = ((m, w'), l')"
    and t: "transfer_of (wd_db w) (kp_payout_id t) = Some t" and inv: "kinv (wd_db w)" and lib: "scripts_only (kr_kaspa lib)"
  shows "moves lib (kl_pay_to_address_script (kr_kaspa lib) addr) (kp_payout_id t) w w'"
proof (cases "w' = w")
  case False
  obtain ctx p where c: "transfer_ctx lib addr fr t (wd_db w) = Ok (ctx, p)"
    using r False by (cases "transfer_ctx lib addr fr t (wd_db w)") (auto simp: advance_transfer_inner_def split: if_split_asm)
  note ctx = transfer_ctx_fits[OF c]
  show ?thesis
  proof (cases "kp_status t")
    case Pending
    then show ?thesis using r c by (intro handle_pending_moves[OF _ ctx t _ inv lib]) (auto simp: advance_transfer_inner_def)
  next
    case CommitSubmitted
    then show ?thesis using r c by (intro handle_commit_submitted_moves[OF _ ctx t _ inv lib]) (auto simp: advance_transfer_inner_def)
  next
    case RevealSubmitted
    then show ?thesis using r c by (intro handle_reveal_submitted_moves[OF _ ctx inv lib]) (auto simp: advance_transfer_inner_def)
  qed (use r False c in \<open>auto simp: advance_transfer_inner_def\<close>)
qed (simp add: moves_refl)

lemma settle_loop_extends:
  assumes "settle_loop (\<lambda>t. advance_transfer_inner lib (clients (kp_id t)) now addr fr t mode) ts report errs ledger w = (m, w')"
    and "kinv (wd_db w)" and "scripts_only (kr_kaspa lib)"
    and "distinct (map kp_payout_id ts)" and "\<forall>t \<in> set ts. transfer_of (wd_db w) (kp_payout_id t) = Some t"
  shows "\<exists>es. kextends lib (kl_pay_to_address_script (kr_kaspa lib) addr) w w' es"
  using assms
proof (induction ts arbitrary: report errs ledger w)
  case Nil
  then show ?case using kextends_refl by auto
next
  case (Cons t ts)
  let ?E = "kextends lib (kl_pay_to_address_script (kr_kaspa lib) addr)"
  obtain x w1 l1 where a: "advance_transfer_inner lib (clients (kp_id t)) now addr fr t mode ledger w = ((x, w1), l1)"
    by (cases "advance_transfer_inner lib (clients (kp_id t)) now addr fr t mode ledger w") (metis surj_pair)
  have mv: "moves lib (kl_pay_to_address_script (kr_kaspa lib) addr) (kp_payout_id t) w w1"
    using Cons.prems by (intro advance_moves[OF a]) simp_all
  then obtain es where es: "?E w w1 es" unfolding moves_def by blast
  have inv1: "kinv (wd_db w1)" using kextends_inv[OF es] Cons.prems(2) .
  have rest: "\<forall>s \<in> set ts. transfer_of (wd_db w1) (kp_payout_id s) = Some s"
  proof
    fix s assume s: "s \<in> set ts"
    have "kp_payout_id t \<notin> kp_payout_id ` set ts" using Cons.prems(4) by simp
    then have "kp_payout_id s \<noteq> kp_payout_id t" using imageI[OF s, of kp_payout_id] by metis
    then show "transfer_of (wd_db w1) (kp_payout_id s) = Some s" using mv Cons.prems(5) s by (simp add: moves_def)
  qed
  have "\<exists>fs. ?E w1 w' fs"
  proof (cases x)
    case (Ok step)
    have "settle_loop (\<lambda>t. advance_transfer_inner lib (clients (kp_id t)) now addr fr t mode) ts (record_step step report) errs l1 w1 = (m, w')"
      using Cons.prems(1) a Ok by simp
    then show ?thesis by (rule Cons.IH[OF _ inv1 Cons.prems(3) _ rest]) (use Cons.prems(4) in simp)
  next
    case (Err e)
    have "settle_loop (\<lambda>t. advance_transfer_inner lib (clients (kp_id t)) now addr fr t mode) ts report (errs @ [(kp_id t, e)]) l1 w1 = (m, w')"
      using Cons.prems(1) a Err by simp
    then show ?thesis by (rule Cons.IH[OF _ inv1 Cons.prems(3) _ rest]) (use Cons.prems(4) in simp)
  next
    case Panic
    then show ?thesis using kextends_refl Cons.prems(1) a by auto
  qed
  with kextends_trans[OF es] show ?case by blast
qed

lemma settle_pending_extends:
  assumes "settle_pending lib clients now fr addr limit mode w = (m, w')" and "kinv (wd_db w)" and "scripts_only (kr_kaspa lib)"
  shows "\<exists>es. kextends lib (kl_pay_to_address_script (kr_kaspa lib) addr) w w' es"
proof (rule settle_loop_extends[OF assms(1)[unfolded settle_pending_def] assms(2,3)])
  let ?ts = "list_krc20_by_status [Pending, CommitSubmitted, RevealSubmitted] limit (wd_db w)"
  have sub: "set ?ts \<subseteq> set (rows (krc20_t (wd_db w)))"
    by (auto simp: list_krc20_by_status_def select_where_def dest!: in_set_takeD)
  then show "\<forall>t \<in> set ?ts. transfer_of (wd_db w) (kp_payout_id t) = Some t"
    using transfer_of_known assms(2) unfolding kinv_def by blast
  have "distinct (map kp_payout_id (rows (krc20_t (wd_db w))))" using assms(2) by (simp add: kinv_def repo_inv_def krc20s_inv_def)
  then have "distinct (map kp_payout_id (filter P (rows (krc20_t (wd_db w)))))" for P by (rule distinct_map_filter)
  then have "distinct (map kp_payout_id (sort_key kp_created_at (select_where P (krc20_t (wd_db w)))))" for P
    unfolding select_where_def by (metis mset_map mset_sort mset_eq_imp_distinct_iff)
  then show "distinct (map kp_payout_id ?ts)" unfolding list_krc20_by_status_def by (metis distinct_take take_map)
qed

section \<open>Planning, crediting, reconciling\<close>

definition calm :: "db \<Rightarrow> db \<Rightarrow> bool" where
  "calm d d' \<longleftrightarrow> (repo_inv d \<longrightarrow> repo_inv d') \<and> quiet_change d d'"

lemma calm_refl: "calm d d"
  by (simp add: calm_def quiet_refl)

lemma calm_trans: "calm d d1 \<Longrightarrow> calm d1 d2 \<Longrightarrow> calm d d2"
  unfolding calm_def using quiet_trans by blast

lemma calm_step: "repo_step d d' \<Longrightarrow> quiet_change d d' \<Longrightarrow> calm d d'"
  unfolding calm_def using repo_step_inv by blast

lemma calm_same: "payout_t d' = payout_t d \<Longrightarrow> cycle_t d' = cycle_t d \<Longrightarrow> krc20_t d' = krc20_t d \<Longrightarrow> calm d d'"
  unfolding calm_def using same_tables(1)[of d' d] quiet_same[of d' d] by blast

lemma calm_audit: "audit_append now e d = Ok (a, d') \<Longrightarrow> calm d d'"
  by (rule calm_same) (auto dest: audit_same)

lemma calm_mark_paid: "mark_paid now w a d = Ok (r, d') \<Longrightarrow> calm d d'"
  by (rule calm_same) (auto simp: mark_paid_def rebate_write_def split: if_split_asm option.split_asm)

lemma calm_calls:
  "create_cycle now kind s e d = Ok (c, d') \<Longrightarrow> calm d d'"
  "set_cycle_totals i x n d = Ok (u, d') \<Longrightarrow> calm d d'"
  "ensure_payout now ci w amount d = Ok (p, d') \<Longrightarrow> calm d d'"
  "ensure_krc20_pending now i x na a d = Ok (k, d') \<Longrightarrow> calm d d'"
  "confirm_krc20_payout_once now i d = Ok (b, d') \<Longrightarrow> calm d d'"
  "mark_cycle_broadcasting now i d = Ok (u, d') \<Longrightarrow> calm d d'"
  "mark_cycle_partially_settled i d = Ok (u, d') \<Longrightarrow> calm d d'"
  "mark_cycle_settled now i d = Ok (u, d') \<Longrightarrow> calm d d'"
  "mark_cycle_failed i d = Ok (u, d') \<Longrightarrow> calm d d'"
proof -
  show "create_cycle now kind s e d = Ok (c, d') \<Longrightarrow> calm d d'" using calm_step quiet_create_cycle repo_step.intros(1) by blast
  show "set_cycle_totals i x n d = Ok (u, d') \<Longrightarrow> calm d d'" using calm_step quiet_set_totals repo_step.intros(6) by blast
  show "ensure_payout now ci w amount d = Ok (p, d') \<Longrightarrow> calm d d'" using calm_step quiet_ensure_payout repo_step.intros(8) by blast
  show "ensure_krc20_pending now i x na a d = Ok (k, d') \<Longrightarrow> calm d d'" using calm_step quiet_ensure_krc20 repo_step.intros(17) by blast
  show "confirm_krc20_payout_once now i d = Ok (b, d') \<Longrightarrow> calm d d'" using calm_step quiet_confirm_once repo_step.intros(12) by blast
  show "mark_cycle_broadcasting now i d = Ok (u, d') \<Longrightarrow> calm d d'"
    using calm_step[OF repo_step.intros(2)] quiet_cycle_update unfolding mark_cycle_broadcasting_def by blast
  show "mark_cycle_partially_settled i d = Ok (u, d') \<Longrightarrow> calm d d'"
    using calm_step[OF repo_step.intros(3)] quiet_cycle_update unfolding mark_cycle_partially_settled_def by blast
  show "mark_cycle_settled now i d = Ok (u, d') \<Longrightarrow> calm d d'"
    using calm_step[OF repo_step.intros(4)] quiet_cycle_update unfolding mark_cycle_settled_def by blast
  show "mark_cycle_failed i d = Ok (u, d') \<Longrightarrow> calm d d'"
    using calm_step[OF repo_step.intros(5)] quiet_cycle_update unfolding mark_cycle_failed_def by blast
qed

lemma calm_tx:
  assumes "w_tx f w = (m, w')" and "\<And>a d'. f (wd_db w) = Ok (a, d') \<Longrightarrow> calm (wd_db w) d'" and "kinv (wd_db w)"
  shows "\<exists>es. kextends lib script w w' es"
  using assms(2,3) by (intro w_tx_quiet[OF assms(1) _ assms(3)]) (auto simp: quiet_tx_def calm_def kinv_def)

lemma plan_recipient_calm:
  "plan_recipient lib now xonly prefix params price amount c st k = Ok st' \<Longrightarrow> calm (pf_db st) (pf_db st')"
  unfolding plan_recipient_def
  by (auto simp: outcome_simps calm_refl split: if_split_asm) (blast intro: calm_trans calm_calls)

lemma plan_recipients_calm:
  "try_fold (plan_recipient lib now xonly prefix params price amount c) st ks = Ok st' \<Longrightarrow> calm (pf_db st) (pf_db st')"
proof (induction ks arbitrary: st)
  case (Cons k ks)
  then obtain st1 where "plan_recipient lib now xonly prefix params price amount c st k = Ok st1"
    "try_fold (plan_recipient lib now xonly prefix params price amount c) st1 ks = Ok st'"
    by (auto simp: outcome_simps)
  then show ?case using Cons.IH plan_recipient_calm calm_trans by blast
qed (simp add: calm_refl)

lemma plan_krc20_tx_calm:
  assumes "plan_krc20_tx lib now xonly prefix params price amount d = Ok (i, d')"
  shows "calm d d'"
proof -
  obtain c d1 ks st d2 where "create_cycle now Krc20Nacho (kcp_daa_start params) (kcp_daa_end params) d = Ok (c, d1)"
    and f: "try_fold (plan_recipient lib now xonly prefix params price amount (cy_id c))
        \<lparr> pf_db = d1, pf_total_sompi = 0, pf_recipients = 0, pf_planned = 0 \<rparr> ks = Ok st"
    and "set_cycle_totals (cy_id c) (pf_total_sompi st) (pf_recipients st) (pf_db st) = Ok ((), d2)"
    and "\<exists>e a. audit_append now e d2 = Ok (a, d')"
    using assms unfolding plan_krc20_tx_def by (auto elim!: and_then_OkE simp: map_err_iff) blast
  then have "calm d d1" "calm (pf_db st) d2" "calm d2 d'" using calm_calls(1,2) calm_audit by blast+
  moreover have "calm d1 (pf_db st)" using plan_recipients_calm[OF f] by simp
  ultimately show ?thesis by (blast intro: calm_trans)
qed

lemma credit_tx_calm: "credit_tx now t p d = Ok (b, d') \<Longrightarrow> calm d d'"
  unfolding credit_tx_def
  by (auto elim!: and_then_OkE split: if_split_asm dest!: calm_calls(5) calm_mark_paid calm_audit) (blast intro: calm_trans)

lemma persist_calm: "persist_status now i st d = Ok (u, d') \<Longrightarrow> calm d d'"
  unfolding persist_status_def
  by (cases st) (auto elim!: and_then_OkE simp: calm_refl dest!: calm_calls(6-9) intro: calm_trans)

lemma resume_or_plan_extends:
  assumes "resume_or_plan_krc20_cycle lib quote now xonly prefix params w = (m, w')" and "kinv (wd_db w)"
  shows "\<exists>es. kextends lib' script w w' es"
proof -
  have "w' = w \<or> (\<exists>e m. w_tx (audit_append now e) w = (m, w')) \<or>
      (\<exists>price a m. w_tx (plan_krc20_tx lib now xonly prefix params price a) w = (m, w'))"
    using assms(1) unfolding resume_or_plan_krc20_cycle_def plan_krc20_cycle_def Let_def
    by (auto elim!: st_bindE st_map_errE lift_eqE split: option.split_asm)
  then show ?thesis
  proof (elim disjE exE)
    show "\<exists>es. kextends lib' script w w' es" if "w' = w" using kextends_refl unfolding that by blast
  qed (erule calm_tx[OF _ _ assms(2)], erule calm_audit plan_krc20_tx_calm)+
qed

lemma credit_transfer_extends:
  assumes "credit_transfer now t report w = (m, w')" and "kinv (wd_db w)"
  shows "\<exists>es. kextends lib script w w' es"
proof -
  have "w' = w \<or> (\<exists>p d. credit_tx now t p (wd_db w) = Ok (True, d) \<and> w' = commit d w)"
    using assms(1) by (auto simp: credit_transfer_def split: outcome.split_asm prod.split_asm bool.split_asm)
  then show ?thesis
    using kextends_refl quiet_commit[OF _ _ assms(2)] credit_tx_calm assms(2) unfolding calm_def kinv_def by metis
qed

lemma credit_loop_extends:
  "credit_loop now ts report w = (m, w') \<Longrightarrow> kinv (wd_db w) \<Longrightarrow> \<exists>es. kextends lib script w w' es"
proof (induction ts arbitrary: report w)
  case Nil
  then show ?case using kextends_refl by auto
next
  case (Cons t ts)
  obtain x w1 where c: "credit_transfer now t report w = (x, w1)" by (cases "credit_transfer now t report w")
  obtain es where es: "kextends lib script w w1 es" using credit_transfer_extends[OF c Cons.prems(2)] by blast
  show ?case
  proof (cases x)
    case (Ok r)
    then obtain fs where "kextends lib script w1 w' fs"
      using Cons.IH[of r w1] Cons.prems(1) c kextends_inv[OF es Cons.prems(2)] by auto
    with kextends_trans[OF es] show ?thesis by blast
  qed (use es Cons.prems(1) c in auto)
qed

lemma reconcile_krc20_extends:
  assumes "reconcile_krc20_cycle_status now i w = (m, w')" and "kinv (wd_db w)"
  shows "\<exists>es. kextends lib script w w' es"
proof -
  obtain st e m1 where t: "w_tx (\<lambda>d. and_then (persist_status now i st d) (\<lambda>(_, d). audit_append now e d)) w = (m1, w')"
    using assms(1) unfolding reconcile_krc20_cycle_status_def Let_def by (auto elim!: st_map_errE st_bindE)
  show ?thesis
    by (rule calm_tx[OF t _ assms(2)]) (auto elim!: and_then_OkE dest!: persist_calm calm_audit intro: calm_trans)
qed

section \<open>A whole tick\<close>

lemma krc20_tick_extends:
  assumes r: "krc20_run_locked en quote client clients now w = (m, w')" and inv: "kinv (wd_db w)"
    and lib: "scripts_only (kr_kaspa (ke_lib en))"
  shows "\<exists>es. kextends (ke_lib en) (kl_pay_to_address_script (kr_kaspa (ke_lib en)) (ke_treasury_address en)) w w' es"
proof -
  let ?E = "\<lambda>w w'. \<exists>es. kextends (ke_lib en) (kl_pay_to_address_script (kr_kaspa (ke_lib en)) (ke_treasury_address en)) w w' es"
  have trans: "?E w w2 \<and> kinv (wd_db w2)" if "?E w w1" "kinv (wd_db w1)" "?E w1 w2" for w1 w2
    using that kextends_trans kextends_inv by blast
  have refl: "?E w1 w1" for w1 using kextends_refl by blast
  have step: "?E w1 w2 \<and> kinv (wd_db w2)" if "kinv (wd_db w1)" "?E w1 w2" for w1 w2 using that kextends_inv by blast
  note D = krc20_run_locked_def Let_def lift_def case_prod_unfold
  show ?thesis
  proof (cases "w' = w")
    case False
    then have key: "kl_key_ok (kr_kaspa (ke_lib en))" using r by (auto simp: D split: if_split_asm)
    obtain v where v: "virtual_daa_score client = Ok v" using r False key by (cases "virtual_daa_score client") (auto simp: D)
    let ?cw = "cycle_window v (kec_cycle_span_daa (ke_config en))"
    let ?res = "resume_or_plan_krc20_cycle (ke_lib en) quote now (kr_xonly (ke_lib en)) (kr_prefix (ke_lib en) (ke_treasury_address en))
        (cycle_params (ke_config en) (fst ?cw) (snd ?cw)) w"
    obtain x w1 where res: "?res = (x, w1)" by (cases ?res)
    have e1: "?E w w1 \<and> kinv (wd_db w1)" using step[OF inv resume_or_plan_extends[OF res inv]] .
    show ?thesis
    proof (cases "\<exists>cs. x = Ok cs \<and> \<not> over_spend_cap (outbound_nacho (ks_transfers cs)) (kec_max_nacho_base_units_per_cycle (ke_config en))")
      case True
      then obtain cs where cs: "x = Ok cs" "\<not> over_spend_cap (outbound_nacho (ks_transfers cs)) (kec_max_nacho_base_units_per_cycle (ke_config en))"
        by blast
      let ?set = "settle_pending (ke_lib en) clients now (live_fee_rate client) (ke_treasury_address en)
          (kec_batch_limit (ke_config en)) (kec_mode (ke_config en)) w1"
      obtain y w2 where set: "?set = (y, w2)" by (cases ?set)
      have e2: "?E w w2 \<and> kinv (wd_db w2)" using trans[OF _ _ settle_pending_extends[OF set _ lib]] e1 by blast
      show ?thesis
      proof (cases y)
        case (Ok sr)
        let ?cr = "if is_dry_run (kec_mode (ke_config en)) then (Ok CreditReport_default, w2)
            else st_map_err KeCycle (credit_completed_transfers now (kec_batch_limit (ke_config en)) w2)"
        obtain z w3 where cr: "?cr = (z, w3)" by (cases ?cr)
        have "?E w2 w3"
          using cr e2 refl credit_loop_extends
          by (auto simp: credit_completed_transfers_def split: if_split_asm elim!: st_map_errE)
        then have e3: "?E w w3 \<and> kinv (wd_db w3)" using trans e2 by blast
        show ?thesis
        proof (cases z)
          fix rep assume z: "z = Ok rep"
          obtain q w4 where rc: "reconcile_krc20_cycle_status now (cy_id (ks_cycle cs)) w3 = (q, w4)"
            by (cases "reconcile_krc20_cycle_status now (cy_id (ks_cycle cs)) w3")
          have "w' = w4" using r key v res cs set Ok cr z rc by (cases q) (simp_all add: D)
          then show ?thesis using trans[OF _ _ reconcile_krc20_extends[OF rc]] e3 by blast
        qed (use r key v res cs set Ok cr e3 in \<open>simp_all add: D\<close>)
      qed (use r key v res cs set e2 in \<open>simp_all add: D\<close>)
    next
      case False
      then have "w' = w1" using r key v res by (cases x) (auto simp: D)
      then show ?thesis using e1 by blast
    qed
  qed (simp add: refl)
qed

end
