(* ===== verification/Tier.thy ===== *)
theory Tier
  imports FeeModel Domain Breaker
begin

text \<open>
  The tier classifier, \<open>src/accountant/src/tier.rs\<close> and \<open>tier_kasplex.rs\<close>: three
  upstream queries behind a cache and a circuit breaker.  The HTTP client and
  the JSON decoder are third-party code; a reply is the argument \<open>http\<close>, a
  function from the URL: a transport error, or a status with the decoded rows
  when the body decodes.
\<close>

section \<open>Configuration\<close>

record KasplexConfig =
  kc_nft_base :: string
  kc_krc20_base :: string
  kc_nft_ticker :: string
  kc_katclaim_nft_ticker :: string
  kc_krc20_ticker :: string
  kc_elite_krc20_threshold_base_units :: int
  kc_ttl :: int
  kc_breaker_threshold :: int
  kc_breaker_cooldown :: int

definition DEFAULT_ELITE_KRC20_THRESHOLD :: int where "DEFAULT_ELITE_KRC20_THRESHOLD = 10000000000000000"
definition DEFAULT_TTL :: int where "DEFAULT_TTL = 300000000000"

definition KasplexConfig_default :: KasplexConfig where
  "KasplexConfig_default =
     \<lparr> kc_nft_base = ''https://krc721.kat.foundation'', kc_krc20_base = ''https://api.kasplex.org'',
       kc_nft_ticker = ''NACHO'', kc_katclaim_nft_ticker = ''KATCLAIM'', kc_krc20_ticker = ''NACHO'',
       kc_elite_krc20_threshold_base_units = DEFAULT_ELITE_KRC20_THRESHOLD, kc_ttl = DEFAULT_TTL,
       kc_breaker_threshold = DEFAULT_BREAKER_THRESHOLD, kc_breaker_cooldown = DEFAULT_BREAKER_COOLDOWN \<rparr>"

datatype ClassifierError = Upstream | Malformed

section \<open>Upstream replies\<close>

datatype 'row reply = Transport_error | Reply int "'row list option"

record Krc20Row =
  k20_balance :: string
  k20_locked :: string

record upstream =
  nft_get :: "string \<Rightarrow> unit reply"
  krc20_get :: "string \<Rightarrow> Krc20Row reply"

definition parse_base_units :: "string \<Rightarrow> (unit, int) outcome" where
  "parse_base_units s =
     (if s = [] then Err ()
      else if s \<noteq> ''0'' \<and> hd s = CHR ''0'' then Err ()
      else if \<not> list_all is_ascii_digit s then Err ()
      else ok_or () (parse_uint u128_max s))"

definition reply_rows :: "'row reply \<Rightarrow> (ClassifierError, 'row list) outcome" where
  "reply_rows r =
     (case r of
        Transport_error \<Rightarrow> Err Upstream
      | Reply status body \<Rightarrow> if status \<noteq> 200 then Err Upstream else ok_or Malformed body)"

definition fetch_nft :: "KasplexConfig \<Rightarrow> upstream \<Rightarrow> string \<Rightarrow> string \<Rightarrow> (ClassifierError, bool) outcome" where
  "fetch_nft cfg http wallet ticker =
     and_then (reply_rows (nft_get http
       (kc_nft_base cfg @ ''/api/v1/krc721/mainnet/address/'' @ wallet @ ''/'' @ ticker))) (\<lambda>result.
     Ok (result \<noteq> []))"

fun sum_holdings :: "int \<Rightarrow> int \<Rightarrow> Krc20Row list \<Rightarrow> (ClassifierError, bool) outcome" where
  "sum_holdings threshold acc [] = Ok (threshold \<le> acc)"
| "sum_holdings threshold acc (row # rest) =
     and_then (map_err (\<lambda>_. Malformed) (parse_base_units (k20_balance row))) (\<lambda>bal.
     and_then (map_err (\<lambda>_. Malformed) (parse_base_units (k20_locked row))) (\<lambda>locked.
     and_then (ok_or Malformed (checked 0 u128_max (acc + bal))) (\<lambda>a.
     and_then (ok_or Malformed (checked 0 u128_max (a + locked))) (\<lambda>total'.
     if threshold \<le> total' then Ok True else sum_holdings threshold total' rest))))"

definition fetch_krc20 :: "KasplexConfig \<Rightarrow> upstream \<Rightarrow> string \<Rightarrow> (ClassifierError, bool) outcome" where
  "fetch_krc20 cfg http wallet =
     and_then (reply_rows (krc20_get http
       (kc_krc20_base cfg @ ''/v1/krc20/address/'' @ wallet @ ''/token/'' @ kc_krc20_ticker cfg))) (\<lambda>result.
     sum_holdings (kc_elite_krc20_threshold_base_units cfg) 0 result)"

section \<open>The classifier\<close>

record CacheEntry =
  ce_tier :: WalletTier
  ce_expires_at :: int

record KasplexTierClassifier =
  kt_cfg :: KasplexConfig
  kt_cache :: "string \<Rightarrow> CacheEntry option"
  kt_breaker :: Breaker

definition KasplexTierClassifier_new :: "KasplexConfig \<Rightarrow> KasplexTierClassifier" where
  "KasplexTierClassifier_new cfg =
     \<lparr> kt_cfg = cfg, kt_cache = (\<lambda>_. None),
       kt_breaker = Breaker_new (kc_breaker_threshold cfg) (kc_breaker_cooldown cfg) \<rparr>"

definition clear_cache :: "KasplexTierClassifier \<Rightarrow> KasplexTierClassifier" where
  "clear_cache c = c\<lparr> kt_cache := (\<lambda>_. None) \<rparr>"

definition cached :: "int \<Rightarrow> string \<Rightarrow> KasplexTierClassifier \<Rightarrow> WalletTier option \<times> KasplexTierClassifier" where
  "cached now key c =
     (case kt_cache c key of
        None \<Rightarrow> (None, c)
      | Some entry \<Rightarrow>
          if now < ce_expires_at entry then (Some (ce_tier entry), c)
          else (None, c\<lparr> kt_cache := (kt_cache c)(key := None) \<rparr>))"

definition store :: "int \<Rightarrow> string \<Rightarrow> WalletTier \<Rightarrow> KasplexTierClassifier \<Rightarrow> KasplexTierClassifier" where
  "store now key tier c =
     c\<lparr> kt_cache := (kt_cache c)(key \<mapsto> \<lparr> ce_tier = tier, ce_expires_at = now + kc_ttl (kt_cfg c) \<rparr>) \<rparr>"

text \<open>The three queries of one call, and what the call makes of them.\<close>

definition triggers :: "KasplexConfig \<Rightarrow> upstream \<Rightarrow> string \<Rightarrow> (ClassifierError, bool) outcome list" where
  "triggers cfg http wallet =
     [fetch_nft cfg http wallet (kc_nft_ticker cfg),
      fetch_nft cfg http wallet (kc_katclaim_nft_ticker cfg),
      fetch_krc20 cfg http wallet]"

definition any_elite :: "(ClassifierError, bool) outcome list \<Rightarrow> bool" where
  "any_elite rs = list_ex (\<lambda>r. r = Ok True) rs"

definition any_err :: "(ClassifierError, bool) outcome list \<Rightarrow> bool" where
  "any_err rs = list_ex (\<lambda>r. \<not> is_ok r) rs"

text \<open>\<open>Instant::now()\<close> is read up to three times in a call: at the cache, at
  the breaker, and when the result is stored or the failure recorded.\<close>

definition classify ::
  "upstream \<Rightarrow> int \<times> int \<times> int \<Rightarrow> string \<Rightarrow> KasplexTierClassifier \<Rightarrow> WalletTier \<times> KasplexTierClassifier" where
  "classify http clock wallet c0 =
     (case clock of (t0, t1, t2) \<Rightarrow>
      case cached t0 wallet c0 of
        (Some tier, c) \<Rightarrow> (tier, c)
      | (None, c) \<Rightarrow>
          if \<not> Breaker_allows_request (kt_breaker c) t1 then (Standard, c) else
          let rs = triggers (kt_cfg c) http wallet in
          if any_elite rs
          then (Elite, store t2 wallet Elite (c\<lparr> kt_breaker := Breaker_on_success (kt_breaker c) \<rparr>))
          else if \<not> any_err rs
          then (Standard, store t2 wallet Standard (c\<lparr> kt_breaker := Breaker_on_success (kt_breaker c) \<rparr>))
          else (Standard, c\<lparr> kt_breaker := Breaker_on_failure t2 (kt_breaker c) \<rparr>))"

section \<open>A run of calls\<close>

type_synonym call = "upstream \<times> (int \<times> int \<times> int) \<times> string"

fun classify_all :: "call list \<Rightarrow> KasplexTierClassifier \<Rightarrow> (call \<times> WalletTier) list \<times> KasplexTierClassifier" where
  "classify_all [] c = ([], c)"
| "classify_all ((http, clock, wallet) # calls) c =
     (case classify http clock wallet c of (tier, c') \<Rightarrow>
      case classify_all calls c' of (rest, c'') \<Rightarrow> (((http, clock, wallet), tier) # rest, c''))"

definition observed_elite :: "KasplexConfig \<Rightarrow> string \<Rightarrow> call \<Rightarrow> bool" where
  "observed_elite cfg wallet c = (case c of (http, clock, w) \<Rightarrow> w = wallet \<and> any_elite (triggers cfg http w))"

definition stored_at :: "call \<Rightarrow> int" where
  "stored_at c = (case c of (http, (t0, t1, t2), w) \<Rightarrow> t2)"

definition asked_at :: "call \<Rightarrow> int" where
  "asked_at c = (case c of (http, (t0, t1, t2), w) \<Rightarrow> t0)"

text \<open>Every Elite entry of the cache was put there by an observation.\<close>

definition cache_justified :: "call list \<Rightarrow> KasplexTierClassifier \<Rightarrow> bool" where
  "cache_justified past c \<longleftrightarrow>
     (\<forall>w e. kt_cache c w = Some e \<and> ce_tier e = Elite \<longrightarrow>
        (\<exists>p \<in> set past. observed_elite (kt_cfg c) w p \<and> ce_expires_at e = stored_at p + kc_ttl (kt_cfg c)))"

lemma classify_cfg: "kt_cfg (snd (classify http clock wallet c)) = kt_cfg c"
  by (auto simp: classify_def cached_def store_def Let_def split: prod.splits option.splits)

lemma cached_effect:
  "kt_cfg (snd (cached t w c)) = kt_cfg c"
  "kt_breaker (snd (cached t w c)) = kt_breaker c"
  "kt_cache (snd (cached t w c)) v = Some e \<Longrightarrow> kt_cache c v = Some e"
  by (auto simp: cached_def split: option.split_asm if_split_asm option.split)

lemma cached_hit: "fst (cached t w c) = Some tier \<longleftrightarrow>
    (\<exists>e. kt_cache c w = Some e \<and> ce_tier e = tier \<and> t < ce_expires_at e)"
  by (auto simp: cached_def split: option.splits)

lemma cached_miss: "fst (cached t w c) = None \<Longrightarrow> kt_cache (snd (cached t w c)) w = None"
  by (auto simp: cached_def split: option.splits if_splits)

text \<open>One call, by the branch it takes.\<close>

lemma classify_cases:
  assumes "classify http (t0, t1, t2) w c = (tier, c')"
  obtains (hit) "fst (cached t0 w c) = Some tier" "c' = snd (cached t0 w c)"
  | (refused) "fst (cached t0 w c) = None" "\<not> Breaker_allows_request (kt_breaker c) t1"
      "tier = Standard" "c' = snd (cached t0 w c)"
  | (elite) "Breaker_allows_request (kt_breaker c) t1" "any_elite (triggers (kt_cfg c) http w)" "tier = Elite"
      "c' = store t2 w Elite ((snd (cached t0 w c))\<lparr> kt_breaker := Breaker_on_success (kt_breaker c) \<rparr>)"
  | (standard) "Breaker_allows_request (kt_breaker c) t1" "\<not> any_err (triggers (kt_cfg c) http w)" "tier = Standard"
      "c' = store t2 w Standard ((snd (cached t0 w c))\<lparr> kt_breaker := Breaker_on_success (kt_breaker c) \<rparr>)"
  | (degraded) "\<not> any_elite (triggers (kt_cfg c) http w)" "tier = Standard"
      "c' = (snd (cached t0 w c))\<lparr> kt_breaker := Breaker_on_failure t2 (kt_breaker c) \<rparr>"
proof -
  obtain h c1 where c1: "cached t0 w c = (h, c1)" by (cases "cached t0 w c")
  have same: "kt_cfg c1 = kt_cfg c" "kt_breaker c1 = kt_breaker c"
    using cached_effect(1,2)[of t0 w c] c1 by simp_all
  note eq = assms[unfolded classify_def, simplified c1 same Let_def prod.case]
  show thesis
  proof (cases h)
    case (Some t)
    then show thesis using eq c1 by (intro hit) simp_all
  next
    case None
    consider "\<not> Breaker_allows_request (kt_breaker c) t1"
      | "Breaker_allows_request (kt_breaker c) t1" "any_elite (triggers (kt_cfg c) http w)"
      | "Breaker_allows_request (kt_breaker c) t1" "\<not> any_elite (triggers (kt_cfg c) http w)"
          "\<not> any_err (triggers (kt_cfg c) http w)"
      | "Breaker_allows_request (kt_breaker c) t1" "\<not> any_elite (triggers (kt_cfg c) http w)"
          "any_err (triggers (kt_cfg c) http w)" by blast
    then show thesis
    proof cases
      case 1
      then show thesis using eq c1 None by (intro refused) simp_all
    next
      case 2
      then show thesis using eq c1 None by (intro elite) simp_all
    next
      case 3
      then show thesis using eq c1 None by (intro standard) simp_all
    next
      case 4
      then show thesis using eq c1 None by (intro degraded) simp_all
    qed
  qed
qed

definition justified :: "KasplexConfig \<Rightarrow> call list \<Rightarrow> call \<Rightarrow> string \<Rightarrow> bool" where
  "justified cfg past now wallet \<longleftrightarrow>
     observed_elite cfg wallet now \<or>
     (\<exists>p \<in> set past. observed_elite cfg wallet p \<and> asked_at now < stored_at p + kc_ttl cfg)"

lemma cache_justified_shrink:
  assumes "cache_justified past c" "kt_cfg c' = kt_cfg c"
    "\<And>v e. kt_cache c' v = Some e \<Longrightarrow> kt_cache c v = Some e"
  shows "cache_justified past c'"
  unfolding cache_justified_def assms(2)
proof (intro allI impI, elim conjE)
  fix v e
  assume "kt_cache c' v = Some e" "ce_tier e = Elite"
  with assms(3) have "kt_cache c v = Some e \<and> ce_tier e = Elite" by blast
  with assms(1) show "\<exists>p\<in>set past. observed_elite (kt_cfg c) v p \<and> ce_expires_at e = stored_at p + kc_ttl (kt_cfg c)"
    unfolding cache_justified_def by blast
qed

lemma cache_justified_sub:
  assumes "cache_justified past c" "kt_cfg c' = kt_cfg c"
    "\<And>v e. kt_cache c' v = Some e \<Longrightarrow> kt_cache c v = Some e"
  shows "cache_justified (past @ [p]) c'"
proof -
  have "cache_justified past c'" by (rule cache_justified_shrink[OF assms])
  then show ?thesis unfolding cache_justified_def by simp
qed

lemma cache_justified_store:
  assumes "cache_justified past c" "tier = Elite \<longrightarrow> observed_elite (kt_cfg c) w p" "stored_at p = t"
  shows "cache_justified (past @ [p]) (store t w tier c)"
  using assms unfolding cache_justified_def store_def by (auto split: if_split_asm)

lemma classify_justified:
  assumes just: "cache_justified past c" and cl: "classify http clock w c = (tier, c')"
  shows "cache_justified (past @ [(http, clock, w)]) c'"
    and "tier = Elite \<Longrightarrow> justified (kt_cfg c) past (http, clock, w) w"
proof -
  obtain t0 t1 t2 where clock: "clock = (t0, t1, t2)" by (cases clock)
  have obs: "observed_elite (kt_cfg c) w (http, clock, w) = any_elite (triggers (kt_cfg c) http w)"
    by (simp add: observed_elite_def)
  have keep: "cache_justified past (c1\<lparr> kt_breaker := b \<rparr>)" if "c1 = snd (cached t0 w c)" for b c1
    unfolding that by (rule cache_justified_shrink[OF just]) (use cached_effect(1,2) in simp, use cached_effect(3)[of t0 w c] in simp)
  have sub: "cache_justified (past @ [(http, clock, w)]) ((snd (cached t0 w c))\<lparr> kt_breaker := b \<rparr>)" for b
    by (rule cache_justified_sub[OF just]) (use cached_effect(1,2) in simp, use cached_effect(3)[of t0 w c] in simp)
  have same: "cache_justified (past @ [(http, clock, w)]) (snd (cached t0 w c))"
    by (rule cache_justified_sub[OF just]) (use cached_effect(1,2) in simp, use cached_effect(3)[of t0 w c] in simp)
  from cl[unfolded clock]
  have "cache_justified (past @ [(http, clock, w)]) c' \<and> (tier = Elite \<longrightarrow> justified (kt_cfg c) past (http, clock, w) w)"
  proof (cases rule: classify_cases)
    case hit
    then obtain e where e: "kt_cache c w = Some e" "ce_tier e = tier" "t0 < ce_expires_at e"
      by (auto simp: cached_hit)
    have "justified (kt_cfg c) past (http, clock, w) w" if "tier = Elite"
    proof -
      from just e that obtain p where "p \<in> set past" "observed_elite (kt_cfg c) w p"
        "ce_expires_at e = stored_at p + kc_ttl (kt_cfg c)"
        unfolding cache_justified_def by blast
      with e(3) have "observed_elite (kt_cfg c) w p \<and> asked_at (http, clock, w) < stored_at p + kc_ttl (kt_cfg c)"
        by (simp add: asked_at_def clock)
      with \<open>p \<in> set past\<close> show ?thesis unfolding justified_def by blast
    qed
    moreover have "cache_justified (past @ [(http, clock, w)]) c'"
      unfolding hit(2) by (rule same)
    ultimately show ?thesis by simp
  next
    case refused
    have "cache_justified (past @ [(http, clock, w)]) c'" unfolding refused(4) by (rule same)
    with refused(3) show ?thesis by simp
  next
    case elite
    have "cache_justified (past @ [(http, clock, w)]) c'"
      unfolding elite(4)
      by (rule cache_justified_store[OF keep[OF refl]])
        (simp_all add: elite(2) observed_elite_def cached_effect(1) stored_at_def clock)
    with elite obs show ?thesis by (simp add: justified_def)
  next
    case standard
    have "cache_justified (past @ [(http, clock, w)]) c'"
      unfolding standard(4)
      by (rule cache_justified_store[OF keep[OF refl]]) (simp_all add: stored_at_def clock)
    with standard show ?thesis by simp
  next
    case degraded
    have "cache_justified (past @ [(http, clock, w)]) c'" unfolding degraded(3) by (rule sub)
    with degraded(2) show ?thesis by simp
  qed
  then show "cache_justified (past @ [(http, clock, w)]) c'"
    and "tier = Elite \<Longrightarrow> justified (kt_cfg c) past (http, clock, w) w" by simp_all
qed

lemma classify_all_justified:
  "cache_justified past c \<Longrightarrow> classify_all calls c = (answers, c') \<Longrightarrow>
   i < length answers \<Longrightarrow> answers ! i = ((http, clock, w), Elite) \<Longrightarrow>
   justified (kt_cfg c) (past @ take i calls) (http, clock, w) w"
proof (induction calls arbitrary: past c answers c' i)
  case Nil
  then show ?case by simp
next
  case (Cons x calls)
  obtain h cl v where x: "x = (h, cl, v)" by (cases x)
  obtain tier c1 where one: "classify h cl v c = (tier, c1)" by (cases "classify h cl v c")
  obtain rest c2 where more': "classify_all calls c1 = (rest, c2)" by (cases "classify_all calls c1")
  have answers: "answers = (x, tier) # rest" using Cons.prems(2) one more' x by simp
  have cfg: "kt_cfg c1 = kt_cfg c" using classify_cfg[of h cl v c] one by simp
  show ?case
  proof (cases i)
    case 0
    with Cons.prems(4) answers x have "(h, cl, v) = (http, clock, w)" "tier = Elite" by simp_all
    with classify_justified(2)[OF Cons.prems(1) one] 0 show ?thesis by simp
  next
    case (Suc j)
    have "justified (kt_cfg c1) ((past @ [x]) @ take j calls) (http, clock, w) w"
      by (rule Cons.IH[OF _ more'])
        (use classify_justified(1)[OF Cons.prems(1) one] Cons.prems(3,4) Suc answers x in simp_all)
    with Suc cfg show ?thesis by simp
  qed
qed

lemma classify_all_calls: "classify_all calls c = (answers, c') \<Longrightarrow> map fst answers = calls"
  by (induction calls arbitrary: c answers) (auto split: prod.splits)

section \<open>Properties\<close>

text \<open>C21. Whatever calls were made and whatever the three services answered, a
  wallet is reported Elite only on evidence: in this call, or in an earlier
  call for the same wallet whose result was stored less than the cache
  lifetime before, one of the three services confirmed a trigger (an NFT, or
  holdings at the threshold).  An outage, a malformed reply or an open breaker
  never promotes a wallet.\<close>

theorem elite_is_observed:
  assumes "classify_all calls (KasplexTierClassifier_new cfg) = (answers, c)"
    and "i < length calls" and "calls ! i = (http, clock, w)" and "snd (answers ! i) = Elite"
  shows "\<exists>j \<le> i. observed_elite cfg w (calls ! j) \<and>
           (j = i \<or> asked_at (calls ! i) < stored_at (calls ! j) + kc_ttl cfg)"
proof -
  have keys: "map fst answers = calls" by (rule classify_all_calls[OF assms(1)])
  then have len: "length answers = length calls" by (metis length_map)
  have fresh: "cache_justified [] (KasplexTierClassifier_new cfg)"
    by (simp add: cache_justified_def KasplexTierClassifier_new_def)
  have "fst (answers ! i) = calls ! i"
    using keys nth_map[of i answers fst] assms(2) len by simp
  then have ans: "answers ! i = ((http, clock, w), Elite)"
    using assms(3,4) by (metis prod.collapse)
  have "justified cfg (take i calls) (http, clock, w) w"
    using classify_all_justified[OF fresh assms(1) _ ans] assms(2) len
    by (simp add: KasplexTierClassifier_new_def)
  then consider "observed_elite cfg w (calls ! i)"
    | p where "p \<in> set (take i calls)" "observed_elite cfg w p" "asked_at (calls ! i) < stored_at p + kc_ttl cfg"
    unfolding justified_def assms(3) by blast
  then show ?thesis
  proof cases
    case 1
    then show ?thesis by blast
  next
    case (2 p)
    then obtain j where "j < i" "j < length calls" "p = calls ! j"
      by (auto simp: in_set_conv_nth)
    with 2 show ?thesis by (intro exI[of _ j]) simp
  qed
qed


lemma parse_base_units_Ok:
  assumes "parse_base_units s = Ok n"
  shows "0 \<le> n \<and> n \<le> u128_max \<and> s = show_nat (nat n)"
proof -
  from assms have p: "parse_uint u128_max s = Some n" and ne: "s \<noteq> []"
    and z: "s = ''0'' \<or> hd s \<noteq> CHR ''0''" and ds: "list_all is_ascii_digit s"
    by (auto simp: parse_base_units_def outcome_simps split: if_splits)
  obtain c cs where s: "s = c # cs" using ne by (cases s) auto
  have d: "is_ascii_digit c" using ds s by simp
  then have plus: "c \<noteq> CHR ''+''" by (auto simp: is_ascii_digit_def)
  have pd: "parse_digits u128_max (digit_value c) cs = Some n"
    using p s d plus digit_value_range[OF d] by (simp add: Let_def)
  have one: "show_nat (nat (digit_value c)) = [c]"
    using digit_value_range[OF d] digit_char_value[OF d] by (simp add: show_nat.simps nat_less_iff)
  have "s = show_nat (nat n)"
  proof (cases "digit_value c = 0")
    case True
    then have "c = CHR ''0''" using digit_char_value[OF d] digit_char_0 by simp
    with z s have "cs = []" by auto
    with pd one s show ?thesis by simp
  next
    case False
    then have "0 < digit_value c" using digit_value_range[OF d] by simp
    from parse_digits_canonical[OF pd this] one s show ?thesis by simp
  qed
  with parse_uint_bounds[OF p] show ?thesis by simp
qed

text \<open>C36. The reader of token amounts is exact: it accepts a string precisely
  when it is the canonical decimal form of an integer in the range of \<open>u128\<close>,
  and returns that integer.  Signs, leading zeros, separators, empty strings
  and larger values are all refused.\<close>

theorem parse_base_units_exact:
  "parse_base_units s = Ok n \<longleftrightarrow> 0 \<le> n \<and> n \<le> u128_max \<and> s = show_nat (nat n)"
proof
  assume "parse_base_units s = Ok n"
  then show "0 \<le> n \<and> n \<le> u128_max \<and> s = show_nat (nat n)" by (rule parse_base_units_Ok)
next
  assume n: "0 \<le> n \<and> n \<le> u128_max \<and> s = show_nat (nat n)"
  obtain d cs where c: "show_nat (nat n) = d # cs" using show_nat_Cons by metis
  have "parse_uint u128_max s = Some n" using n parse_uint_show_nat[of "nat n" u128_max] by simp
  moreover have "s = ''0'' \<or> hd s \<noteq> CHR ''0''"
  proof (cases "nat n = 0")
    case True
    then show ?thesis using n by (simp add: show_nat.simps)
  next
    case False
    then show ?thesis using n show_nat_first by simp
  qed
  ultimately show "parse_base_units s = Ok n"
    using n c show_nat_all_digits[of "nat n"] by (auto simp: parse_base_units_def)
qed

section \<open>Witnesses\<close>

text \<open>A wallet that holds one NFT, then an outage.\<close>

definition demo_up :: upstream where
  "demo_up = \<lparr> nft_get = (\<lambda>_. Reply 200 (Some [()])), krc20_get = (\<lambda>_. Transport_error) \<rparr>"

definition demo_down :: upstream where
  "demo_down = \<lparr> nft_get = (\<lambda>_. Reply 503 None), krc20_get = (\<lambda>_. Transport_error) \<rparr>"

definition demo_calls :: "call list" where
  "demo_calls = [(demo_up, (0, 0, 1), ''kaspa:a''), (demo_down, (100, 100, 101), ''kaspa:a'')]"

lemma demo_answers:
  "map snd (fst (classify_all demo_calls (KasplexTierClassifier_new KasplexConfig_default))) = [Elite, Elite]"
  by code_simp

theorem elite_is_observed_witness:
  "\<exists>j \<le> 1. observed_elite KasplexConfig_default ''kaspa:a'' (demo_calls ! j) \<and>
     (j = 1 \<or> asked_at (demo_calls ! 1) < stored_at (demo_calls ! j) + kc_ttl KasplexConfig_default)"
proof -
  have "snd (fst (classify_all demo_calls (KasplexTierClassifier_new KasplexConfig_default)) ! 1) = Elite"
    using demo_answers nth_map[of 1 "fst (classify_all demo_calls (KasplexTierClassifier_new KasplexConfig_default))" snd]
    by (metis One_nat_def length_map length_Cons lessI list.size(3) nth_Cons_0 nth_Cons_Suc)
  then show ?thesis
    using elite_is_observed[OF surjective_pairing, of 1 demo_calls demo_down "(100, 100, 101)" "''kaspa:a''"]
    by (simp add: demo_calls_def)
qed

lemma demo_degraded:
  "fst (classify demo_down (0, 0, 1) ''kaspa:a'' (KasplexTierClassifier_new KasplexConfig_default)) = Standard"
  "any_elite (triggers KasplexConfig_default demo_down ''kaspa:a'') = False"
  "any_err (triggers KasplexConfig_default demo_down ''kaspa:a'') = True"
  by code_simp+


end
