(* ===== verification/Allocation.thy ===== *)
theory Allocation
  imports Window
begin

text \<open>
  The allocation engine, \<open>src/accountant/src/allocation.rs\<close>: the
  proportional split of one matured coinbase reward over the wallets of its
  share window.  The tier classifier is the trait object the engine holds; it
  enters as a function from an address to a tier, \<open>None\<close> for an error.
\<close>

section \<open>Pro-rating\<close>

definition pro_rate :: "int \<Rightarrow> f64 \<Rightarrow> f64 \<Rightarrow> int" where
  "pro_rate block_reward weight total_weight =
     (if f64_eq weight (Fin 0) \<or> f64_le total_weight (Fin 0) then 0 else
      let ratio = f64_div weight total_weight;
          portion = f64_mul (int_as_f64 block_reward) ratio;
          floored = f64_floor portion in
      if f64_le floored (Fin 0) then 0
      else if f64_le (int_as_f64 block_reward) floored then block_reward
      else f64_as_int i64_min i64_max floored)"

text \<open>The index of the smallest wallet id, first in a stable sort.\<close>

definition residue_slot :: "ShareWindow list \<Rightarrow> nat" where
  "residue_slot windows = hd (sort_key (\<lambda>i. sw_wallet_id (windows ! i)) [0..<length windows])"

definition award_residue :: "ShareWindow list \<Rightarrow> int \<Rightarrow> int list \<Rightarrow> int list" where
  "award_residue windows residue grosses =
     (if windows = [] then grosses else
      let first = residue_slot windows in
      grosses[first := saturating i64_min i64_max (grosses ! first + residue)])"

section \<open>The engine\<close>

datatype AllocationOutcome =
    Allocated int int int int int
  | AlreadyAllocated
  | NoContributingWallets int

datatype AllocationEngineError =
    Db DbError
  | Sqlx
  | Math AllocationError
  | UnknownReward int
  | InvalidWindowWeight f64
  | InvalidWalletAddress string

record AllocationEngine =
  ae_fee :: FeeConfig
  ae_classifier :: "string \<Rightarrow> WalletTier option"
  ae_instance_id :: string

definition lookup_wallet_addr :: "int \<Rightarrow> db \<Rightarrow> (AllocationEngineError, string) outcome" where
  "lookup_wallet_addr wallet_id d =
     and_then (ok_or Sqlx (find_where (\<lambda>w. wal_id w = wallet_id) (wallet_t d))) (\<lambda>w.
     map_err (\<lambda>_. InvalidWalletAddress (wal_address w)) (WalletAddress_new (wal_address w)))"

definition classify_wallet :: "AllocationEngine \<Rightarrow> db \<Rightarrow> ShareWindow \<Rightarrow> (AllocationEngineError, WalletTier) outcome" where
  "classify_wallet en d w =
     and_then (lookup_wallet_addr (sw_wallet_id w) d) (\<lambda>addr.
     Ok (case ae_classifier en addr of Some t \<Rightarrow> t | None \<Rightarrow> Standard))"

record Totals =
  tot_pool_fee :: int
  tot_nacho :: int
  tot_net :: int

definition add_totals :: "Totals \<Rightarrow> Allocation \<Rightarrow> Totals" where
  "add_totals t a =
     \<lparr> tot_pool_fee = saturating i64_min i64_max (tot_pool_fee t + pool_fee_sompi a),
       tot_nacho = saturating i64_min i64_max (tot_nacho t + nacho_accrual_sompi a),
       tot_net = saturating i64_min i64_max (tot_net t + net_payout_sompi a) \<rparr>"

definition sum_totals :: "Allocation list \<Rightarrow> Totals" where
  "sum_totals allocations = foldl add_totals \<lparr> tot_pool_fee = 0, tot_nacho = 0, tot_net = 0 \<rparr> allocations"

text \<open>\<open>i16::try_from(\<dots>).unwrap_or(i16::MAX)\<close>.\<close>

definition u16_to_i16 :: "int \<Rightarrow> int" where
  "u16_to_i16 x = (if x \<le> i16_max then x else i16_max)"

definition new_allocation :: "f64 \<Rightarrow> ShareWindow \<Rightarrow> Allocation \<Rightarrow> NewAllocation" where
  "new_allocation total_weight w a =
     \<lparr> na_wallet_id = sw_wallet_id w, na_weight = sw_total_weight w, na_window_total = total_weight,
       na_gross_share_sompi = gross_sompi a, na_pool_fee_sompi = pool_fee_sompi a,
       na_nacho_accrual_sompi = nacho_accrual_sompi a, na_net_payout_sompi = net_payout_sompi a,
       na_applied_topline_bps = u16_to_i16 (applied_topline_bps a),
       na_applied_rebate_bps = u16_to_i16 (applied_rebate_bps a),
       na_applied_tier = applied_tier a \<rparr>"

definition accrue_all :: "timestamp \<Rightarrow> db \<Rightarrow> (ShareWindow \<times> Allocation) list \<Rightarrow> (DbError, db) outcome" where
  "accrue_all now d pairs =
     try_fold (\<lambda>d (w, a). if nacho_accrual_sompi a > 0
        then and_then (accrue now (sw_wallet_id w) (nacho_accrual_sompi a) d) (\<lambda>r. Ok (snd r))
        else Ok d) d pairs"

text \<open>The gate shared by both final transactions: the locked row must exist,
  and an allocated one ends the call without a write.\<close>

definition gated_on_reward ::
  "int \<Rightarrow> (db \<Rightarrow> (AllocationEngineError, AllocationOutcome \<times> db) outcome) \<Rightarrow> db \<Rightarrow>
     (AllocationEngineError, AllocationOutcome \<times> db) outcome" where
  "gated_on_reward reward_id k d =
     and_then (ok_or (UnknownReward reward_id) (lock_for_allocation reward_id d)) (\<lambda>row.
     if cr_allocated_at row \<noteq> None then Ok (AlreadyAllocated, d) else k d)"

definition finalise_empty ::
  "AllocationEngine \<Rightarrow> timestamp \<Rightarrow> int \<Rightarrow> int \<Rightarrow> db \<Rightarrow> (AllocationEngineError, AllocationOutcome) outcome \<times> db" where
  "finalise_empty en now reward_id reward d =
     run_tx (gated_on_reward reward_id (\<lambda>d.
       map_err Db (
       and_then (mark_allocated now reward_id d) (\<lambda>(_, d).
       and_then (audit_append now ((NewEntry_subject ''coinbase_reward'' reward_id
                   (NewEntry_new (ae_instance_id en) ''coinbase_reward.allocated_empty''))
                   \<lparr> ne_payload := [(''coinbase_reward_id'', JInt reward_id), (''reward_sompi'', JInt reward)] \<rparr>) d)
         (\<lambda>(_, d).
       Ok (NoContributingWallets reward, d)))))) d"

definition finalise ::
  "AllocationEngine \<Rightarrow> timestamp \<Rightarrow> int \<Rightarrow> int \<Rightarrow> int \<Rightarrow> f64 \<Rightarrow> ShareWindow list \<Rightarrow> Allocation list \<Rightarrow> db \<Rightarrow>
     (AllocationEngineError, AllocationOutcome) outcome \<times> db" where
  "finalise en now reward_id reward residue total_weight windows allocations d =
     run_tx (gated_on_reward reward_id (\<lambda>d.
       map_err Db (
       and_then (insert_batch now reward_id (map2 (new_allocation total_weight) windows allocations) d) (\<lambda>(_, d).
       and_then (accrue_all now d (zip windows allocations)) (\<lambda>d.
       and_then (mark_allocated now reward_id d) (\<lambda>(_, d).
       let totals = sum_totals allocations in
       and_then (audit_append now ((NewEntry_subject ''coinbase_reward'' reward_id
                   (NewEntry_new (ae_instance_id en) ''coinbase_reward.allocated''))
                   \<lparr> ne_payload := [(''coinbase_reward_id'', JInt reward_id), (''reward_sompi'', JInt reward),
                       (''wallet_count'', JInt (int (length windows))),
                       (''total_pool_fee_sompi'', JInt (tot_pool_fee totals)),
                       (''total_nacho_accrual_sompi'', JInt (tot_nacho totals)),
                       (''total_net_payout_sompi'', JInt (tot_net totals)),
                       (''rounding_residue_sompi'', JInt residue),
                       (''applied_topline_bps'', JInt (topline_bps (ae_fee en)))] \<rparr>) d)
         (\<lambda>(_, d).
       Ok (Allocated (int (length windows)) (tot_net totals) (tot_nacho totals) (tot_pool_fee totals) residue,
           d)))))))) d"

text \<open>The pure middle of the cycle: pro-rate, award the residue, classify,
  split.\<close>

definition gross_shares :: "int \<Rightarrow> f64 \<Rightarrow> ShareWindow list \<Rightarrow> ('e, int \<times> int list) outcome" where
  "gross_shares reward total_weight windows =
     (let grosses = map (\<lambda>w. pro_rate reward (sw_total_weight w) total_weight) windows in
      and_then (sum_i64 grosses) (\<lambda>summed.
      let residue = saturating i64_min i64_max (reward - summed) in
      Ok (residue, award_residue windows residue grosses)))"

definition compute_allocations ::
  "AllocationEngine \<Rightarrow> int \<Rightarrow> f64 \<Rightarrow> ShareWindow list \<Rightarrow> db \<Rightarrow>
     (AllocationEngineError, int \<times> Allocation list) outcome" where
  "compute_allocations en reward total_weight windows d =
     and_then (gross_shares reward total_weight windows) (\<lambda>(residue, grosses).
     and_then (traverse (classify_wallet en d) windows) (\<lambda>tiers.
     and_then (map_err Math (traverse (\<lambda>(gross, tier). compute_allocation (ae_fee en) gross tier)
                 (zip grosses tiers))) (\<lambda>allocations.
     Ok (residue, allocations))))"

definition allocate_coinbase_reward ::
  "AllocationEngine \<Rightarrow> timestamp \<Rightarrow> int \<Rightarrow> int \<Rightarrow> int \<Rightarrow> int \<Rightarrow> db \<Rightarrow>
     (AllocationEngineError, AllocationOutcome) outcome \<times> db" where
  "allocate_coinbase_reward en now reward_id reward daa_start daa_end d =
     (if reward < 0 then (Err (Math (NegativeGross reward)), d) else
      st_bind (st_map_err Db (close_window daa_start daa_end now d)) (\<lambda>_ d.
      let windows = list_for_window daa_start daa_end d in
      if windows = [] then finalise_empty en now reward_id reward d else
      let total_weight = f64_sum (map sw_total_weight windows) in
      if \<not> f64_is_finite total_weight \<or> f64_le total_weight (Fin 0)
      then (Err (InvalidWindowWeight total_weight), d) else
      st_bind (compute_allocations en reward total_weight windows d, d) (\<lambda>(residue, allocations) d.
      finalise en now reward_id reward residue total_weight windows allocations d)))"

definition demo_engine :: AllocationEngine where
  "demo_engine = \<lparr> ae_fee = \<lparr> topline_bps = 1000 \<rparr>,
     ae_classifier = (\<lambda>a. if a = ''kaspa:qypczcz0'' then Some Elite else None), ae_instance_id = ''a'' \<rparr>"

section \<open>Facts on pro-rating\<close>

lemma rnd64_i64_range:
  assumes "0 \<le> n" and "n \<le> i64_max"
  shows "0 \<le> rnd64 (of_int n)" and "rnd64 (of_int n) < f64_limit"
proof -
  have ex: "rnd64 (2 powi 63) = 2 powi 63"
    using rnd_pos_exact[of 1 63] by (simp add: rnd64_def)
  have "(of_int n :: rat) \<le> of_int (2 ^ 63)" using assms by (simp only: of_int_le_iff) simp
  then have "(of_int n :: rat) \<le> 2 powi 63" by simp
  then have "rnd64 (of_int n) \<le> 2 powi 63" using f64r.le_fixed[OF ex] by simp
  also have "\<dots> < f64_limit"
    using powi2_less_iff[of 63 1024] by (simp add: f64_limit_def)
  finally show "rnd64 (of_int n) < f64_limit" .
  show "0 \<le> rnd64 (of_int n)" using assms by (intro f64r.nonneg) simp
qed

lemma int_as_f64_Fin: "0 \<le> n \<Longrightarrow> n \<le> i64_max \<Longrightarrow> int_as_f64 n = Fin (rnd64 (of_int n))"
  using rnd64_i64_range[of n] by (simp add: int_as_f64_def to_f64_def Let_def)

lemma f64_mul_FinD: "f64_mul a b = Fin x \<Longrightarrow> \<exists>p. x = rnd64 p"
  by (cases a; cases b) (auto dest: to_f64_FinD split: if_splits)

text \<open>The clamp at the end of \<open>pro_rate\<close>.\<close>

definition settle :: "int \<Rightarrow> int \<Rightarrow> int" where
  "settle reward n = (if n \<le> 0 then 0 else if rnd64 (of_int reward) \<le> of_int n then reward else n)"

lemma settle_le: "n = \<lfloor>rnd64 p\<rfloor> \<Longrightarrow> \<not> rnd64 (of_int reward) \<le> of_int n \<Longrightarrow> n \<le> reward"
  using f64r.floor_le_int[of p reward] by (simp add: not_le)

lemma settle_range:
  assumes "0 \<le> reward" and "n = \<lfloor>rnd64 p\<rfloor>"
  shows "0 \<le> settle reward n \<and> settle reward n \<le> reward"
  using assms(1) settle_le[OF assms(2), of reward] by (auto simp: settle_def)

lemma settle_mono:
  assumes "m \<le> n" and "0 \<le> reward" and "m = \<lfloor>rnd64 p\<rfloor>"
  shows "settle reward m \<le> settle reward n"
proof -
  have "rnd64 (of_int reward) \<le> of_int n" if "rnd64 (of_int reward) \<le> of_int m"
    using that assms(1) by (meson of_int_le_iff order_trans)
  then show ?thesis using assms(1,2) settle_le[OF assms(3), of reward] by (auto simp: settle_def)
qed

lemma pro_rate_settle:
  assumes "0 \<le> reward" and "reward \<le> i64_max"
    and "f64_mul (int_as_f64 reward) (f64_div weight tw) = Fin x"
    and "\<not> f64_eq weight (Fin 0)" and "\<not> f64_le tw (Fin 0)"
  shows "pro_rate reward weight tw = settle reward \<lfloor>x\<rfloor>"
proof -
  obtain p where x: "x = rnd64 p" using f64_mul_FinD[OF assms(3)] by blast
  define n where n: "n = \<lfloor>rnd64 p\<rfloor>"
  have "truncate_rat (of_int n) = n" by (simp add: truncate_rat_def)
  then show ?thesis
    using assms settle_le[OF n, of reward] unfolding x n[symmetric]
    by (auto simp: pro_rate_def Let_def settle_def int_as_f64_Fin n[symmetric])
qed

lemma pro_rate_range:
  assumes "0 \<le> reward" and "reward \<le> i64_max"
  shows "0 \<le> pro_rate reward weight tw \<and> pro_rate reward weight tw \<le> reward"
proof (cases "f64_eq weight (Fin 0) \<or> f64_le tw (Fin 0)")
  case True
  then show ?thesis using assms by (simp add: pro_rate_def)
next
  case False
  show ?thesis
  proof (cases "f64_mul (int_as_f64 reward) (f64_div weight tw)")
    case (Fin x)
    then show ?thesis
      using False pro_rate_settle[OF assms Fin] settle_range[OF assms(1)] f64_mul_FinD[OF Fin] by auto
  next
    case (Inf s)
    then show ?thesis using False assms by (auto simp: pro_rate_def Let_def int_as_f64_Fin)
  next
    case NaN
    then show ?thesis using False assms by (auto simp: pro_rate_def Let_def int_as_f64_Fin)
  qed
qed

lemma pro_rate_Fin:
  assumes "0 \<le> reward" and "reward \<le> i64_max" and "0 \<le> w" and "w \<le> t" and "0 < t"
  shows "pro_rate reward (Fin w) (Fin t) = settle reward \<lfloor>rnd64 (rnd64 (of_int reward) * rnd64 (w / t))\<rfloor>"
proof -
  let ?R = "rnd64 (of_int reward)" and ?q = "rnd64 (w / t)"
  have q: "0 \<le> ?q" "?q \<le> 1" using f64r.ratio_range[of w t] assms by auto
  note R = rnd64_i64_range[OF assms(1,2)]
  have lim: "1 < f64_limit" by (simp add: f64_limit_def)
  have x: "0 \<le> rnd64 (?R * ?q)" "rnd64 (?R * ?q) \<le> ?R"
    using f64r.scaled_range[OF q R(1)] by (auto simp: rnd64_idem)
  have div: "f64_div (Fin w) (Fin t) = Fin ?q"
    using assms q lim by (auto simp: to_f64_def Let_def)
  have mul: "f64_mul (int_as_f64 reward) (f64_div (Fin w) (Fin t)) = Fin (rnd64 (?R * ?q))"
    unfolding div using x R by (simp add: int_as_f64_Fin assms(1,2) to_f64_def Let_def)
  show ?thesis
  proof (cases "w = 0")
    case True
    then show ?thesis by (simp add: pro_rate_def settle_def)
  next
    case False
    then show ?thesis using pro_rate_settle[OF assms(1,2) mul] assms by simp
  qed
qed

text \<open>Rounding moves a number by at most half a unit in the last place.\<close>

lemma rne_error: "\<bar>of_int (rne q) - q\<bar> \<le> 1 / 2"
proof -
  have "of_int \<lfloor>q\<rfloor> \<le> q" "q < of_int \<lfloor>q\<rfloor> + 1" by linarith+
  then show ?thesis by (auto simp: rne_def Let_def)
qed

lemma rnd64_error:
  assumes "0 \<le> q" and "q < 2 powi (e + 53)" and "- 1074 \<le> e"
  shows "\<bar>rnd64 q - q\<bar> \<le> 2 powi e / 2"
proof (cases "q = 0")
  case False
  then have pos: "0 < q" using assms by simp
  let ?u = "(2 :: rat) powi (ulp_exp q)"
  have "(2 :: rat) powi (flog2 q) < 2 powi (e + 53)"
    using flog2_bounds(1)[OF pos] assms(2) by linarith
  then have "ulp_exp q \<le> e" using assms(3) by (simp add: ulp_exp_def)
  then have u: "?u \<le> 2 powi e" unfolding powi2_le_iff .
  have "rnd64 q - q = (of_int (rne (q / ?u)) - q / ?u) * ?u"
    using pos by (simp add: rnd64_def rnd_pos_eq left_diff_distrib)
  then have "\<bar>rnd64 q - q\<bar> = \<bar>of_int (rne (q / ?u)) - q / ?u\<bar> * ?u" by (simp add: abs_mult)
  also have "\<dots> \<le> 1 / 2 * ?u" by (intro mult_right_mono rne_error) simp
  also have "\<dots> \<le> 2 powi e / 2" using u by simp
  finally show ?thesis .
qed simp

text \<open>For rewards up to \<open>2 ^ 52\<close> sompi the two roundings together stay within
  one sompi of the exact share.\<close>

lemma portion_error:
  assumes "0 \<le> reward" and "reward \<le> 2 ^ 52" and "0 \<le> w" and "w \<le> t" and "0 < t"
  shows "\<bar>rnd64 (rnd64 (of_int reward) * rnd64 (w / t)) - of_int reward * (w / t)\<bar> \<le> 1"
proof -
  let ?r = "of_int reward :: rat" and ?q = "rnd64 (w / t)"
  have r: "rnd64 ?r = ?r" using assms(1,2) by (intro rnd64_int_small) auto
  have r': "0 \<le> ?r" "?r \<le> 2 ^ 52" using assms(1,2) by (simp_all only: of_int_0_le_iff) (metis of_int_le_iff of_int_numeral of_int_power)
  have q: "0 \<le> ?q" "?q \<le> 1" using f64r.ratio_range[of w t] assms by auto
  have ratio: "0 \<le> w / t" "w / t \<le> 1" using assms by auto
  then have "\<bar>?q - w / t\<bar> \<le> 2 powi (- 52) / 2"
    by (intro rnd64_error) auto
  then have "?r * \<bar>?q - w / t\<bar> \<le> 2 ^ 52 * (2 powi (- 52) / 2)"
    using r' by (intro mult_mono) auto
  also have "\<dots> = 1 / 2" by (simp add: power_int_minus)
  finally have half: "?r * \<bar>?q - w / t\<bar> \<le> 1 / 2" .
  have "?r * ?q - ?r * (w / t) = ?r * (?q - w / t)" by (simp only: right_diff_distrib)
  then have e1: "\<bar>?r * ?q - ?r * (w / t)\<bar> \<le> 1 / 2" using half r'(1) by (simp only: abs_mult abs_of_nonneg)
  have "?r * ?q \<le> ?r * 1" using r' q by (intro mult_left_mono) auto
  then have "?r * ?q < 2 powi (0 + 53)" using r'(2) by simp
  then have e2: "\<bar>rnd64 (?r * ?q) - ?r * ?q\<bar> \<le> 1 / 2"
    using rnd64_error[of "?r * ?q" 0] r' q by simp
  show ?thesis unfolding r using e1 e2 by linarith
qed

lemma floor_close:
  fixes x e :: rat
  assumes "\<bar>x - e\<bar> \<le> 1" and "0 \<le> e"
  shows "e - 2 < of_int (max 0 \<lfloor>x\<rfloor>)" and "of_int (max 0 \<lfloor>x\<rfloor>) \<le> e + 1"
proof -
  have fl: "of_int \<lfloor>x\<rfloor> \<le> x" "x - 1 < of_int \<lfloor>x\<rfloor>" by linarith+
  have ab: "x - e \<le> 1" "e - x \<le> 1" using assms(1) by linarith+
  have "(of_int (max 0 \<lfloor>x\<rfloor>) :: rat) = max 0 (of_int \<lfloor>x\<rfloor>)" by (simp add: max_def)
  then show "e - 2 < of_int (max 0 \<lfloor>x\<rfloor>)" "of_int (max 0 \<lfloor>x\<rfloor>) \<le> e + 1"
    using fl ab assms(2) by linarith+
qed

lemma settle_exact:
  assumes "0 \<le> reward" and "reward \<le> 2 ^ 53" and "n \<le> reward"
  shows "settle reward n = max 0 n"
proof -
  have "rnd64 (of_int reward) = (of_int reward :: rat)" using assms by (intro rnd64_int_small) auto
  then show ?thesis using assms by (auto simp: settle_def)
qed

section \<open>Facts on the gross shares\<close>

text \<open>The state of the window table that the constraints guarantee, seen by
  the engine through \<open>list_for_window\<close>.\<close>

definition weights_ok :: "ShareWindow list \<Rightarrow> bool" where
  "weights_ok ws \<longleftrightarrow>
     list_all (\<lambda>w. f64_valid (sw_total_weight w) \<and> \<not> f64_lt (sw_total_weight w) (Fin 0)) ws \<and>
     distinct (map sw_wallet_id ws)"

lemma residue_slot_bound: "ws \<noteq> [] \<Longrightarrow> residue_slot ws < length ws"
proof -
  assume "ws \<noteq> []"
  let ?s = "sort_key (\<lambda>i. sw_wallet_id (ws ! i)) [0..<length ws]"
  have "?s \<noteq> []" using \<open>ws \<noteq> []\<close> by (metis length_0_conv length_sort length_upt minus_nat.diff_0)
  then have "hd ?s \<in> set ?s" by (rule hd_in_set)
  then show ?thesis by (simp add: residue_slot_def)
qed

lemma residue_slot_min: "i < length ws \<Longrightarrow> sw_wallet_id (ws ! residue_slot ws) \<le> sw_wallet_id (ws ! i)"
proof -
  assume i: "i < length ws"
  let ?k = "\<lambda>i. sw_wallet_id (ws ! i)"
  let ?s = "sort_key ?k [0..<length ws]"
  have mem: "i \<in> set ?s" using i by simp
  then obtain x xs where s: "?s = x # xs" by (cases ?s) auto
  have "sorted (map ?k ?s)" by simp
  then have "\<forall>y \<in> set xs. ?k x \<le> ?k y" unfolding s by simp
  then show ?thesis using mem s by (auto simp: residue_slot_def)
qed

text \<open>Whatever the floats did, the gross shares add up to the reward.\<close>

lemma gross_shares_sum:
  assumes "gross_shares reward tw ws = Ok (residue, grosses)"
    and "0 \<le> reward" and "reward \<le> i64_max" and "ws \<noteq> []"
  shows "length grosses = length ws" and "sum_list grosses = reward"
    and "\<forall>i < length ws. i \<noteq> residue_slot ws \<longrightarrow>
           grosses ! i = pro_rate reward (sw_total_weight (ws ! i)) tw"
    and "\<forall>g \<in> set grosses. g \<le> reward"
    and "residue = reward - sum_list (map (\<lambda>w. pro_rate reward (sw_total_weight w) tw) ws)"
proof -
  define gs where "gs = map (\<lambda>w. pro_rate reward (sw_total_weight w) tw) ws"
  define k where "k = residue_slot ws"
  obtain summed where summed: "sum_i64 gs = (Ok summed :: ('a, int) outcome)"
    and res: "residue = saturating i64_min i64_max (reward - summed)"
    and grosses: "grosses = award_residue ws residue gs"
    using assms(1) by (auto simp: gross_shares_def Let_def outcome_simps gs_def)
  have sum: "summed = sum_list gs" using sum_from_Ok[OF summed] by simp
  have range: "\<forall>g \<in> set gs. 0 \<le> g \<and> g \<le> reward" using pro_rate_range[OF assms(2,3)] by (auto simp: gs_def)
  have k: "k < length gs" using residue_slot_bound[OF assms(4)] by (simp add: k_def gs_def)
  have pos: "0 \<le> summed" unfolding sum using range by (intro sum_list_nonneg) auto
  have le: "summed \<le> i64_max"
    using sum_from_range[OF summed] by simp
  show res': "residue = reward - sum_list (map (\<lambda>w. pro_rate reward (sw_total_weight w) tw) ws)"
    using res pos le assms(2,3) sum by (simp add: gs_def)
  have elem: "gs ! k \<le> summed" unfolding sum using range k by (intro sum_list_member_le) auto
  have gk: "0 \<le> gs ! k" "gs ! k \<le> reward" using range k by (auto simp: nth_mem)
  have slot: "saturating i64_min i64_max (gs ! k + residue) = gs ! k + (reward - summed)"
    using res' elem pos le assms(2,3) gk sum by (simp add: gs_def[symmetric])
  have g: "grosses = gs[k := gs ! k + (reward - summed)]"
    unfolding grosses award_residue_def using assms(4) slot by (simp add: k_def Let_def)
  show "length grosses = length ws" using g by (simp add: gs_def)
  show "sum_list grosses = reward" unfolding g using k by (simp add: sum_list_set sum)
  show "\<forall>i < length ws. i \<noteq> residue_slot ws \<longrightarrow> grosses ! i = pro_rate reward (sw_total_weight (ws ! i)) tw"
    unfolding g by (auto simp: k_def gs_def)
  show "\<forall>g \<in> set grosses. g \<le> reward"
    using range elem set_update_subset_insert[of gs k "gs ! k + (reward - summed)"] unfolding g by fastforce
qed


section \<open>Facts on the final transaction\<close>

definition accrued :: "int \<Rightarrow> db \<Rightarrow> int" where
  "accrued w d = (case rebate_get w d of None \<Rightarrow> 0 | Some r \<Rightarrow> nr_accrued_sompi r)"

definition paid :: "int \<Rightarrow> db \<Rightarrow> int" where
  "paid w d = (case rebate_get w d of None \<Rightarrow> 0 | Some r \<Rightarrow> nr_paid_sompi r)"

lemma rebate_write_effect:
  assumes "rebate_write r d = Ok (r', d')" and "rebate_get (nr_wallet_id r) d = Some r0"
  shows "\<exists>t. d' = d\<lparr> rebate_t := t \<rparr>" and "r' = r"
    and "rebate_get v d' = (if v = nr_wallet_id r then Some r else rebate_get v d)"
proof -
  let ?g = "\<lambda>x. if nr_wallet_id x = nr_wallet_id r then r else x"
  have d': "d' = d\<lparr> rebate_t := update_where (\<lambda>x. nr_wallet_id x = nr_wallet_id r) (\<lambda>_. r) (rebate_t d) \<rparr>"
    and r': "r' = r"
    using assms(1) by (auto simp: rebate_write_def split: if_splits)
  show "\<exists>t. d' = d\<lparr> rebate_t := t \<rparr>" "r' = r" using d' r' by blast+
  have "find (\<lambda>x. nr_wallet_id x = v) (map ?g (rows (rebate_t d))) =
      map_option ?g (find (\<lambda>x. nr_wallet_id x = v) (rows (rebate_t d)))"
    by (rule find_map_same) simp
  then have get: "rebate_get v d' = map_option ?g (rebate_get v d)"
    unfolding d' by (simp add: rebate_get_def find_where_def rows_update_where)
  show "rebate_get v d' = (if v = nr_wallet_id r then Some r else rebate_get v d)"
  proof (cases "rebate_get v d")
    case None
    then show ?thesis using get assms(2) by auto
  next
    case (Some x)
    then have "nr_wallet_id x = v" unfolding rebate_get_def by (auto dest: find_where_Some)
    then show ?thesis using get Some by auto
  qed
qed

lemma accrue_effect:
  assumes "accrue now w delta d = Ok (r, d')"
  shows "\<exists>t. d' = d\<lparr> rebate_t := t \<rparr>"
    and "accrued v d' = accrued v d + (if v = w then delta else 0)" and "paid v d' = paid v d"
proof -
  have up: "rebate_upsert (\<lambda>a. a + delta) now w delta d = Ok (r, d')"
    using assms by (auto simp: accrue_def split: if_splits)
  have "(\<exists>t. d' = d\<lparr> rebate_t := t \<rparr>) \<and>
    accrued v d' = accrued v d + (if v = w then delta else 0) \<and> paid v d' = paid v d"
  proof (cases "rebate_get w d")
    case None
    let ?r = "\<lparr> nr_wallet_id = w, nr_accrued_sompi = delta, nr_paid_sompi = 0, nr_updated_at = now \<rparr>"
    have d': "d' = d\<lparr> rebate_t := (rebate_t d)\<lparr> rows := rows (rebate_t d) @ [?r] \<rparr> \<rparr>"
      using up None by (auto simp: rebate_upsert_def Let_def split: if_splits)
    have "rebate_get v d' = (if v = w then Some ?r else rebate_get v d)"
      using None by (cases "find (\<lambda>x. nr_wallet_id x = v) (rows (rebate_t d))")
        (auto simp: d' rebate_get_def find_tbl)
    then show ?thesis using None d' by (auto simp: accrued_def paid_def)
  next
    case (Some r0)
    then have w: "nr_wallet_id r0 = w" by (auto simp: rebate_get_def dest: find_where_Some)
    let ?r = "r0\<lparr> nr_accrued_sompi := nr_accrued_sompi r0 + delta, nr_updated_at := now \<rparr>"
    have wr: "rebate_write ?r d = Ok (r, d')" using up Some by (simp add: rebate_upsert_def)
    have key: "rebate_get (nr_wallet_id ?r) d = Some r0" using Some w by simp
    show ?thesis
      using rebate_write_effect(1)[OF wr key] rebate_write_effect(3)[OF wr key, of v] Some w by (auto simp: accrued_def paid_def)
  qed
  then show "\<exists>t. d' = d\<lparr> rebate_t := t \<rparr>"
    "accrued v d' = accrued v d + (if v = w then delta else 0)" "paid v d' = paid v d" by auto
qed

lemma accrue_all_effect:
  assumes "accrue_all now d pairs = Ok d'" and "list_all (\<lambda>(w, a). 0 \<le> nacho_accrual_sompi a) pairs"
  shows "(\<exists>t. d' = d\<lparr> rebate_t := t \<rparr>) \<and> paid v d' = paid v d \<and>
    accrued v d' = accrued v d + (\<Sum>(w, a) \<leftarrow> pairs. if sw_wallet_id w = v then nacho_accrual_sompi a else 0)"
  using assms unfolding accrue_all_def
proof (induction pairs arbitrary: d)
  case Nil
  then have "d' = d\<lparr> rebate_t := rebate_t d \<rparr>" by simp
  then have "\<exists>t. d' = d\<lparr> rebate_t := t \<rparr>" by blast
  then show ?case using Nil by simp
next
  case (Cons p ps)
  obtain w a where p: "p = (w, a)" by (cases p)
  show ?case
  proof (cases "nacho_accrual_sompi a > 0")
    case True
    then obtain r d1 where d1: "accrue now (sw_wallet_id w) (nacho_accrual_sompi a) d = Ok (r, d1)"
      and rest: "try_fold (\<lambda>d (w, a). if nacho_accrual_sompi a > 0
        then and_then (accrue now (sw_wallet_id w) (nacho_accrual_sompi a) d) (\<lambda>r. Ok (snd r))
        else Ok d) d1 ps = Ok d'"
      using Cons.prems(1) p by (auto simp: outcome_simps)
    note eff = accrue_effect[OF d1]
    have "list_all (\<lambda>(w, a). 0 \<le> nacho_accrual_sompi a) ps" using Cons.prems(2) by simp
    note IH = Cons.IH[OF rest this]
    obtain t1 t2 where "d1 = d\<lparr> rebate_t := t1 \<rparr>" "d' = d1\<lparr> rebate_t := t2 \<rparr>" using eff(1) IH by blast
    then have "d' = d\<lparr> rebate_t := t2 \<rparr>" by simp
    moreover have "paid v d' = paid v d" using IH eff(3)[of v] by simp
    moreover have "accrued v d' = accrued v d +
        (\<Sum>(w, a) \<leftarrow> p # ps. if sw_wallet_id w = v then nacho_accrual_sompi a else 0)"
      using IH eff(2)[of v] p by simp
    ultimately show ?thesis by blast
  next
    case False
    moreover from this have "nacho_accrual_sompi a = 0" using Cons.prems(2) p by simp
    ultimately show ?thesis using Cons.IH[of d] Cons.prems p by simp
  qed
qed

lemma insert_allocation_rows:
  assumes "try_fold (insert_allocation_row now rid) d news = Ok d'"
  shows "\<exists>new t. d' = d\<lparr> allocation_t := t \<rparr> \<and> rows t = rows (allocation_t d) @ new \<and>
    map sa_new new = news \<and> list_all (\<lambda>x. sa_coinbase_reward_id x = rid) new \<and>
    list_all allocation_check news"
  using assms
proof (induction news arbitrary: d)
  case Nil
  show ?case
    by (rule exI[of _ "[]"], rule exI[of _ "allocation_t d"]) (use Nil in simp)
next
  case (Cons a news)
  then obtain d1 where d1: "insert_allocation_row now rid d a = Ok d1"
    "try_fold (insert_allocation_row now rid) d1 news = Ok d'" by (auto simp: outcome_simps)
  let ?mk = "\<lambda>i. \<lparr> sa_id = i, sa_coinbase_reward_id = rid, sa_new = a, sa_computed_at = now \<rparr>"
  have chk: "allocation_check a" and d1': "d1 = d\<lparr> allocation_t := insert_row ?mk (allocation_t d) \<rparr>"
    using d1(1) by (auto simp: insert_allocation_row_def split: if_splits)
  obtain new t where IH: "d' = d1\<lparr> allocation_t := t \<rparr>" "rows t = rows (allocation_t d1) @ new"
    "map sa_new new = news" "list_all (\<lambda>x. sa_coinbase_reward_id x = rid) new" "list_all allocation_check news"
    using Cons.IH[OF d1(2)] by blast
  show ?case
    by (rule exI[of _ "?mk (nextval (allocation_t d)) # new"], rule exI[of _ t])
      (use IH chk d1' in \<open>simp add: tbl_simps\<close>)
qed


lemma insert_batch_rows:
  assumes "insert_batch now rid news d = Ok (n, d')"
  shows "\<exists>new t. d' = d\<lparr> allocation_t := t \<rparr> \<and> rows t = rows (allocation_t d) @ new \<and>
    map sa_new new = news \<and> list_all (\<lambda>x. sa_coinbase_reward_id x = rid) new \<and>
    list_all allocation_check news"
proof (cases "news = []")
  case True
  show ?thesis
    by (rule exI[of _ "[]"], rule exI[of _ "allocation_t d"]) (use True assms in \<open>simp add: insert_batch_def\<close>)
next
  case False
  then show ?thesis using assms insert_allocation_rows[of now rid d news d']
    by (auto simp: insert_batch_def outcome_simps)
qed

definition mark_row :: "timestamp \<Rightarrow> int \<Rightarrow> db \<Rightarrow> CoinbaseReward tbl" where
  "mark_row now rid d = update_where (\<lambda>r. cr_id r = rid)
     (\<lambda>r. r\<lparr> cr_allocated_at := coalesce (cr_allocated_at r) now \<rparr>) (reward_t d)"

lemma lock_mark_row:
  assumes "lock_for_allocation rid d = Some row" and "reward_t d' = mark_row now rid d"
  shows "lock_for_allocation rid d' =
    Some (row\<lparr> cr_allocated_at := coalesce (cr_allocated_at row) now \<rparr>)"
proof -
  let ?g = "\<lambda>r. if cr_id r = rid then r\<lparr> cr_allocated_at := coalesce (cr_allocated_at r) now \<rparr> else r"
  have "find (\<lambda>r. cr_id r = rid) (map ?g (rows (reward_t d))) =
      map_option ?g (find (\<lambda>r. cr_id r = rid) (rows (reward_t d)))"
    by (rule find_map_same) simp
  moreover have "cr_id row = rid" using assms(1) by (auto simp: lock_for_allocation_def dest: find_where_Some)
  ultimately show ?thesis using assms
    by (simp add: lock_for_allocation_def find_where_def mark_row_def rows_update_where)
qed

text \<open>What the final transaction leaves behind when it allocates.\<close>

lemma finalise_Allocated:
  assumes "finalise en now rid reward residue tw ws allocs d = (Ok (Allocated n net nacho fee res), d')"
  obtains row new d2 t where
    "lock_for_allocation rid d = Some row" "cr_allocated_at row = None"
    "accrue_all now (d\<lparr> allocation_t := t \<rparr>) (zip ws allocs) = Ok d2"
    "rows t = rows (allocation_t d) @ new" "map sa_new new = map2 (new_allocation tw) ws allocs"
    "list_all (\<lambda>x. sa_coinbase_reward_id x = rid) new"
    "list_all allocation_check (map2 (new_allocation tw) ws allocs)"
    "\<exists>au. d' = d2\<lparr> reward_t := mark_row now rid d2, audit_t := au \<rparr>"
    "n = int (length ws)" "net = tot_net (sum_totals allocs)" "nacho = tot_nacho (sum_totals allocs)"
    "fee = tot_pool_fee (sum_totals allocs)" "res = residue"
proof -
  obtain row where row: "lock_for_allocation rid d = Some row" "cr_allocated_at row = None"
    using assms by (cases "lock_for_allocation rid d")
      (auto simp: finalise_def gated_on_reward_def split: if_splits outcome.splits)
  from assms row obtain cnt d1 d2 where
    d1: "insert_batch now rid (map2 (new_allocation tw) ws allocs) d = Ok (cnt, d1)"
    and d2: "accrue_all now d1 (zip ws allocs) = Ok d2"
    and fin: "\<exists>au. d' = d2\<lparr> reward_t := mark_row now rid d2, audit_t := au \<rparr>"
    and tot: "n = int (length ws)" "net = tot_net (sum_totals allocs)" "nacho = tot_nacho (sum_totals allocs)"
      "fee = tot_pool_fee (sum_totals allocs)" "res = residue"
    by (auto simp: finalise_def gated_on_reward_def outcome_simps mark_allocated_def audit_append_def
        Let_def mark_row_def split: outcome.splits prod.splits)
  from insert_batch_rows[OF d1] obtain new t where nt: "d1 = d\<lparr> allocation_t := t \<rparr>"
    "rows t = rows (allocation_t d) @ new" "map sa_new new = map2 (new_allocation tw) ws allocs"
    "list_all (\<lambda>x. sa_coinbase_reward_id x = rid) new"
    "list_all allocation_check (map2 (new_allocation tw) ws allocs)" by blast
  show thesis by (rule that[OF row d2[unfolded nt(1)] nt(2-5) fin tot])
qed

section \<open>Facts on the splits\<close>

lemma compute_allocations_Ok:
  assumes "compute_allocations en reward tw ws d = Ok (residue, allocs)"
    and "FeeConfig_ok (ae_fee en)" and "0 \<le> reward" and "reward \<le> i64_max" and "ws \<noteq> []"
  shows "length allocs = length ws" and "sum_list (map gross_sompi allocs) = reward"
    and "\<forall>a \<in> set allocs. 0 \<le> pool_fee_sompi a \<and> 0 \<le> nacho_accrual_sompi a \<and> 0 \<le> net_payout_sompi a \<and>
      gross_sompi a = pool_fee_sompi a + nacho_accrual_sompi a + net_payout_sompi a"
    and "\<exists>grosses. gross_shares reward tw ws = (Ok (residue, grosses) :: (AllocationEngineError, int \<times> int list) outcome)
      \<and> map gross_sompi allocs = grosses"
proof -
  obtain grosses tiers where
    g: "gross_shares reward tw ws = (Ok (residue, grosses) :: (AllocationEngineError, int \<times> int list) outcome)"
    and t: "traverse (classify_wallet en d) ws = Ok tiers"
    and al: "traverse (\<lambda>(gross, tier). compute_allocation (ae_fee en) gross tier) (zip grosses tiers) = Ok allocs"
    using assms(1) by (auto simp: compute_allocations_def outcome_simps)
  note gs = gross_shares_sum[OF g assms(3-5)]
  have lens: "length tiers = length ws" "length grosses = length ws" "length allocs = length ws"
    using traverse_Ok_length[OF t] gs(1) traverse_Ok_length[OF al] by auto
  then show "length allocs = length ws" by simp
  have each: "compute_allocation (ae_fee en) (grosses ! i) (tiers ! i) = Ok (allocs ! i)" if "i < length ws" for i
    using traverse_Ok_nth[OF al, of i] that lens by simp
  have split: "0 \<le> grosses ! i \<and> allocs ! i = split_of (ae_fee en) (grosses ! i) (tiers ! i)" if "i < length ws" for i
  proof -
    have "grosses ! i \<le> i64_max" using gs(4) that lens assms(4) nth_mem[of i grosses] by fastforce
    from compute_allocation_eq[OF assms(2) this, of "tiers ! i"] show ?thesis
      using each[OF that] by (auto split: if_splits)
  qed
  then have "map gross_sompi allocs = grosses"
    using lens by (intro nth_equalityI) (auto simp: split_of_def)
  then show "sum_list (map gross_sompi allocs) = reward"
    and "\<exists>grosses. gross_shares reward tw ws = (Ok (residue, grosses) :: (AllocationEngineError, int \<times> int list) outcome)
      \<and> map gross_sompi allocs = grosses"
    using gs(2) g by auto
  show "\<forall>a \<in> set allocs. 0 \<le> pool_fee_sompi a \<and> 0 \<le> nacho_accrual_sompi a \<and> 0 \<le> net_payout_sompi a \<and>
      gross_sompi a = pool_fee_sompi a + nacho_accrual_sompi a + net_payout_sompi a"
  proof
    fix a assume "a \<in> set allocs"
    then obtain i where i: "i < length ws" "a = allocs ! i" using lens by (metis in_set_conv_nth)
    then show "0 \<le> pool_fee_sompi a \<and> 0 \<le> nacho_accrual_sompi a \<and> 0 \<le> net_payout_sompi a \<and>
      gross_sompi a = pool_fee_sompi a + nacho_accrual_sompi a + net_payout_sompi a"
      using split[OF i(1)] fee_share_of_bounds[OF assms(2), of "grosses ! i"]
        rebate_of_bounds[OF assms(2), of "grosses ! i" "tiers ! i"] by (auto simp: split_of_def)
  qed
qed

lemma foldl_add_totals:
  assumes "0 \<le> tot_pool_fee t" and "0 \<le> tot_nacho t" and "0 \<le> tot_net t"
    and "\<forall>a \<in> set allocs. 0 \<le> pool_fee_sompi a \<and> 0 \<le> nacho_accrual_sompi a \<and> 0 \<le> net_payout_sompi a"
    and "tot_pool_fee t + sum_list (map pool_fee_sompi allocs) \<le> i64_max"
    and "tot_nacho t + sum_list (map nacho_accrual_sompi allocs) \<le> i64_max"
    and "tot_net t + sum_list (map net_payout_sompi allocs) \<le> i64_max"
  shows "foldl add_totals t allocs =
    \<lparr> tot_pool_fee = tot_pool_fee t + sum_list (map pool_fee_sompi allocs),
      tot_nacho = tot_nacho t + sum_list (map nacho_accrual_sompi allocs),
      tot_net = tot_net t + sum_list (map net_payout_sompi allocs) \<rparr>"
  using assms
proof (induction allocs arbitrary: t)
  case Nil
  then show ?case by simp
next
  case (Cons a allocs)
  have nn: "0 \<le> sum_list (map f allocs)" if "\<forall>x \<in> set allocs. 0 \<le> f x" for f :: "Allocation \<Rightarrow> int"
    using that by (intro sum_list_nonneg) auto
  have "0 \<le> sum_list (map pool_fee_sompi allocs)" "0 \<le> sum_list (map nacho_accrual_sompi allocs)"
    "0 \<le> sum_list (map net_payout_sompi allocs)" using Cons.prems(4) by (auto intro!: nn)
  then have step: "add_totals t a = \<lparr> tot_pool_fee = tot_pool_fee t + pool_fee_sompi a,
      tot_nacho = tot_nacho t + nacho_accrual_sompi a, tot_net = tot_net t + net_payout_sompi a \<rparr>"
    using Cons.prems by (simp add: add_totals_def)
  show ?case
    unfolding foldl_Cons step by (subst Cons.IH) (use Cons.prems in \<open>auto simp: add.assoc\<close>)
qed


lemma sum_totals_exact:
  assumes "\<forall>a \<in> set allocs. 0 \<le> pool_fee_sompi a \<and> 0 \<le> nacho_accrual_sompi a \<and> 0 \<le> net_payout_sompi a \<and>
      gross_sompi a = pool_fee_sompi a + nacho_accrual_sompi a + net_payout_sompi a"
    and "sum_list (map gross_sompi allocs) \<le> i64_max"
  shows "sum_totals allocs =
      \<lparr> tot_pool_fee = sum_list (map pool_fee_sompi allocs), tot_nacho = sum_list (map nacho_accrual_sompi allocs),
        tot_net = sum_list (map net_payout_sompi allocs) \<rparr>"
    and "sum_list (map net_payout_sompi allocs) + sum_list (map nacho_accrual_sompi allocs) +
         sum_list (map pool_fee_sompi allocs) = sum_list (map gross_sompi allocs)"
proof -
  have parts: "map gross_sompi allocs = map (\<lambda>a. pool_fee_sompi a + nacho_accrual_sompi a + net_payout_sompi a) allocs"
    using assms(1) by simp
  show tot: "sum_list (map net_payout_sompi allocs) + sum_list (map nacho_accrual_sompi allocs) +
         sum_list (map pool_fee_sompi allocs) = sum_list (map gross_sompi allocs)"
    unfolding parts sum_list_addf by simp
  have nn: "0 \<le> sum_list (map f allocs)" if "\<forall>x \<in> set allocs. 0 \<le> f x" for f :: "Allocation \<Rightarrow> int"
    using that by (intro sum_list_nonneg) auto
  have "0 \<le> sum_list (map pool_fee_sompi allocs)" "0 \<le> sum_list (map nacho_accrual_sompi allocs)"
    "0 \<le> sum_list (map net_payout_sompi allocs)" using assms(1) by (auto intro!: nn)
  then show "sum_totals allocs =
      \<lparr> tot_pool_fee = sum_list (map pool_fee_sompi allocs), tot_nacho = sum_list (map nacho_accrual_sompi allocs),
        tot_net = sum_list (map net_payout_sompi allocs) \<rparr>"
    unfolding sum_totals_def using tot assms by (subst foldl_add_totals) auto
qed

text \<open>The path through \<open>allocate_coinbase_reward\<close> that ends in \<open>finalise\<close>.\<close>

lemma allocate_Allocated:
  assumes "allocate_coinbase_reward en now rid reward daa_start daa_end d = (Ok (Allocated n net nacho fee res), d')"
  obtains c d1 ws tw residue allocs where
    "0 \<le> reward" "close_window daa_start daa_end now d = (Ok c, d1)" "ws = list_for_window daa_start daa_end d1"
    "ws \<noteq> []" "tw = f64_sum (map sw_total_weight ws)" "f64_is_finite tw" "\<not> f64_le tw (Fin 0)"
    "compute_allocations en reward tw ws d1 = Ok (residue, allocs)"
    "finalise en now rid reward residue tw ws allocs d1 = (Ok (Allocated n net nacho fee res), d')"
proof -
  obtain m d1 where cw: "close_window daa_start daa_end now d = (m, d1)" by fastforce
  define ws where "ws = list_for_window daa_start daa_end d1"
  define tw where "tw = f64_sum (map sw_total_weight ws)"
  from assms cw obtain c where m: "m = Ok c" and r: "0 \<le> reward"
    by (cases m) (auto simp: allocate_coinbase_reward_def split: if_splits)
  have ne: "ws \<noteq> []"
    using assms cw m r by (auto simp: allocate_coinbase_reward_def ws_def[symmetric] finalise_empty_def
        gated_on_reward_def outcome_simps split: if_splits outcome.splits prod.splits)
  from assms cw m r ne have
    fin: "f64_is_finite tw" "\<not> f64_le tw (Fin 0)" and
    rest: "st_bind (compute_allocations en reward tw ws d1, d1) (\<lambda>(residue, allocations) d.
      finalise en now rid reward residue tw ws allocations d) = (Ok (Allocated n net nacho fee res), d')"
    by (auto simp: allocate_coinbase_reward_def ws_def[symmetric] tw_def[symmetric] Let_def split: if_splits)
  from rest obtain p where "compute_allocations en reward tw ws d1 = Ok p"
    by (cases "compute_allocations en reward tw ws d1") auto
  moreover obtain residue allocs where "p = (residue, allocs)" by fastforce
  ultimately show thesis using that[OF r _ ws_def ne tw_def fin] cw m rest by simp
qed


lemma new_rows_map:
  "map sa_new new = map2 (new_allocation tw) ws allocs \<Longrightarrow>
     map (\<lambda>x. h (sa_new x)) new = map (\<lambda>(w, a). h (new_allocation tw w a)) (zip ws allocs)"
proof -
  assume "map sa_new new = map2 (new_allocation tw) ws allocs"
  then have "map h (map sa_new new) = map h (map2 (new_allocation tw) ws allocs)" by simp
  then show ?thesis by (simp add: comp_def case_prod_unfold)
qed

lemma map_snd_allocs: "length allocs = length ws \<Longrightarrow> map (\<lambda>(w, a). g a) (zip ws allocs) = map g allocs"
  by (metis (no_types, lifting) case_prod_beta' map_eq_conv map_map map_snd_zip comp_def)

lemma gated_allocated:
  "lock_for_allocation rid d = Some row \<Longrightarrow> cr_allocated_at row \<noteq> None \<Longrightarrow>
     run_tx (gated_on_reward rid k) d = (Ok AlreadyAllocated, d)"
  by (simp add: gated_on_reward_def)

lemma gated_Ok:
  assumes "run_tx (gated_on_reward rid k) d = (Ok out, d')" and "out \<noteq> AlreadyAllocated"
  obtains row where "lock_for_allocation rid d = Some row" "cr_allocated_at row = None" "k d = Ok (out, d')"
proof (cases "lock_for_allocation rid d")
  case (Some row)
  then have un: "cr_allocated_at row = None"
    using gated_allocated[OF Some, of k] assms by (cases "cr_allocated_at row") auto
  then have "k d = Ok (out, d')"
    using assms(1) Some by (simp add: gated_on_reward_def split: outcome.splits prod.splits)
  then show thesis by (rule that[OF Some un])
qed (use assms in \<open>simp add: gated_on_reward_def\<close>)

lemma accrue_all_frame: "accrue_all now d pairs = Ok d' \<Longrightarrow> reward_t d' = reward_t d"
  unfolding accrue_all_def
  by (erule try_fold_invariant[where P = "\<lambda>x. reward_t x = reward_t d"])
    (auto simp: outcome_simps split: if_splits prod.splits dest!: accrue_effect(1))

lemma lock_stamped:
  assumes "lock_for_allocation rid d = Some row" and "cr_allocated_at row = None"
    and "reward_t d2 = reward_t d" and "reward_t d' = mark_row now rid d2"
  shows "lock_for_allocation rid d' = Some (row\<lparr> cr_allocated_at := Some now \<rparr>)"
proof -
  have "lock_for_allocation rid d2 = Some row" using assms(1,3) by (simp add: lock_for_allocation_def)
  from lock_mark_row[OF this assms(4)] show ?thesis using assms(2) by (simp add: coalesce_def)
qed

text \<open>Both final transactions find the reward unallocated and stamp it.\<close>

definition stamps :: "int \<Rightarrow> timestamp \<Rightarrow> db \<Rightarrow> db \<Rightarrow> bool" where
  "stamps rid now d d' \<longleftrightarrow>
     (case lock_for_allocation rid d of
        None \<Rightarrow> False
      | Some row \<Rightarrow> cr_allocated_at row = None \<and>
          lock_for_allocation rid d' = Some (row\<lparr> cr_allocated_at := Some now \<rparr>))"

lemma finalise_stamps:
  assumes "finalise en now rid reward residue tw ws allocs d = (Ok out, d')" and "out \<noteq> AlreadyAllocated"
  shows "stamps rid now d d'"
proof -
  from assms obtain row where row: "lock_for_allocation rid d = Some row" "cr_allocated_at row = None"
    unfolding finalise_def by (rule gated_Ok)
  obtain n net nacho fee res where out: "out = Allocated n net nacho fee res"
    using assms row by (cases out)
      (auto simp: finalise_def gated_on_reward_def outcome_simps mark_allocated_def audit_append_def Let_def
        split: outcome.splits prod.splits)
  from assms(1)[unfolded out] obtain d2 t where
    acc: "accrue_all now (d\<lparr> allocation_t := t \<rparr>) (zip ws allocs) = Ok d2"
    and d': "\<exists>au. d' = d2\<lparr> reward_t := mark_row now rid d2, audit_t := au \<rparr>"
    by (rule finalise_Allocated)
  obtain au where "d' = d2\<lparr> reward_t := mark_row now rid d2, audit_t := au \<rparr>" using d' by blast
  then show ?thesis
    using lock_stamped[OF row, of d2 d' now] accrue_all_frame[OF acc] row by (simp add: stamps_def)
qed

lemma finalise_empty_stamps:
  assumes "finalise_empty en now rid reward d = (Ok out, d')" and "out \<noteq> AlreadyAllocated"
  shows "stamps rid now d d'"
proof -
  from assms obtain row where row: "lock_for_allocation rid d = Some row" "cr_allocated_at row = None"
    unfolding finalise_empty_def by (rule gated_Ok)
  have "reward_t d' = mark_row now rid d"
    using assms row by (auto simp: finalise_empty_def gated_on_reward_def mark_allocated_def audit_append_def mark_row_def)
  then show ?thesis using lock_stamped[OF row, of d d' now] row by (simp add: stamps_def)
qed

lemma stamps_window: "stamps rid now (d\<lparr> window_t := t \<rparr>) d' = stamps rid now d d'"
  by (simp add: stamps_def lock_for_allocation_def)

text \<open>After the window is closed, the call ends in an early return or in one
  of the two final transactions.\<close>

lemma allocate_tail:
  assumes "allocate_coinbase_reward en now rid reward daa_start daa_end d = (m, d')"
  obtains (1) t where "d' = d\<lparr> window_t := t \<rparr>" "\<forall>x. m \<noteq> Ok x"
  | (2) t where "finalise_empty en now rid reward (d\<lparr> window_t := t \<rparr>) = (m, d')"
  | (3) t residue tw ws allocs where
      "finalise en now rid reward residue tw ws allocs (d\<lparr> window_t := t \<rparr>) = (m, d')"
proof -
  obtain m1 d1 where cw: "close_window daa_start daa_end now d = (m1, d1)" by fastforce
  obtain t where d1: "d1 = d\<lparr> window_t := t \<rparr>" using close_window_frame[OF cw] by blast
  have early: thesis if "d' = d1" "\<forall>x. m \<noteq> Ok x" using 1[of t] that d1 by simp
  show thesis
  proof (cases "reward < 0")
    case True
    then have "d' = d\<lparr> window_t := window_t d \<rparr>" "m = Err (Math (NegativeGross reward))"
      using assms by (auto simp: allocate_coinbase_reward_def)
    then show thesis using 1 by blast
  next
    case nonneg: False
    define ws where "ws = list_for_window daa_start daa_end d1"
    define tw where "tw = f64_sum (map sw_total_weight ws)"
    have eq: "st_bind (st_map_err Db (m1, d1)) (\<lambda>_ d.
      if ws = [] then finalise_empty en now rid reward d
      else if \<not> f64_is_finite tw \<or> f64_le tw (Fin 0) then (Err (InvalidWindowWeight tw), d)
      else st_bind (compute_allocations en reward tw ws d, d) (\<lambda>(residue, allocs) d.
        finalise en now rid reward residue tw ws allocs d)) = (m, d')"
      using assms nonneg cw unfolding allocate_coinbase_reward_def ws_def tw_def
      by (cases m1) (auto simp: Let_def)
    show thesis
      using eq early 2[of t, folded d1] 3[of _ _ _ _ t, folded d1]
      by (cases m1; cases "compute_allocations en reward tw ws d1") (auto split: if_splits prod.splits)
  qed
qed

section \<open>Properties\<close>

text \<open>C17.  The pro-rated share of any wallet lies between zero and the reward,
  for every non-negative \<open>i64\<close> reward and every pair of floats, NaN and the
  infinities included: although the reward itself may not be representable,
  the floored product never exceeds it.\<close>

theorem pro_rate_bounds:
  assumes "0 \<le> reward" and "reward \<le> i64_max"
  shows "0 \<le> pro_rate reward weight tw \<and> pro_rate reward weight tw \<le> reward"
  by (rule pro_rate_range[OF assms])

theorem pro_rate_bounds_witness:
  "0 \<le> pro_rate 9007199254740993 (Fin 3) (Fin 4) \<and> pro_rate 9007199254740993 (Fin 3) (Fin 4) \<le> 9007199254740993"
  using pro_rate_bounds[of 9007199254740993 "Fin 3" "Fin 4"] by simp

text \<open>C16.  Pro-rating is fair: with the same total, a wallet of greater weight
  never gets less, and for rewards up to \<open>2 ^ 52\<close> sompi (45 million KAS) the
  share is less than two sompi below and at most one above the exact
  quotient.  A wallet that holds the whole weight gets the whole reward.\<close>

theorem pro_rate_fair:
  assumes "0 \<le> reward" and "reward \<le> 2 ^ 52" and "0 \<le> w" and "w \<le> v" and "v \<le> t" and "0 < t"
  shows "pro_rate reward (Fin w) (Fin t) \<le> pro_rate reward (Fin v) (Fin t) \<and>
    of_int reward * (w / t) - 2 < of_int (pro_rate reward (Fin w) (Fin t)) \<and>
    of_int (pro_rate reward (Fin w) (Fin t)) \<le> of_int reward * (w / t) + 1 \<and>
    pro_rate reward (Fin t) (Fin t) = reward"
proof -
  have r: "reward \<le> i64_max" using assms(2) by simp
  let ?x = "\<lambda>w. rnd64 (rnd64 (of_int reward) * rnd64 (w / t))"
  have mono: "pro_rate reward (Fin w) (Fin t) \<le> pro_rate reward (Fin v) (Fin t)"
  proof -
    have "rnd64 (w / t) \<le> rnd64 (v / t)" using assms by (intro rnd64_mono divide_right_mono) auto
    then have "?x w \<le> ?x v"
      using rnd64_i64_range[OF assms(1) r] by (intro rnd64_mono[OF mult_left_mono]) auto
    then show ?thesis
      using assms r by (simp add: pro_rate_Fin settle_mono[OF floor_mono])
  qed
  have err: "\<bar>?x w - of_int reward * (w / t)\<bar> \<le> 1" using assms by (intro portion_error) auto
  have e0: "0 \<le> of_int reward * (w / t)" using assms by simp
  have "?x w \<le> rnd64 (of_int reward)"
    using f64r.scaled_range(2)[of "rnd64 (w / t)" "rnd64 (of_int reward)"] f64r.ratio_range[of w t] assms
      rnd64_i64_range[OF assms(1) r] by (auto simp: rnd64_idem)
  also have "rnd64 (of_int reward) = of_int reward" using assms(1,2) by (intro rnd64_int_small) auto
  finally have fl: "\<lfloor>?x w\<rfloor> \<le> reward" by (simp add: floor_le_iff)
  then have p: "pro_rate reward (Fin w) (Fin t) = max 0 \<lfloor>?x w\<rfloor>"
    using assms r by (simp add: pro_rate_Fin settle_exact)
  note prec = floor_close[OF err e0]
  have "rnd64 (of_int reward) = of_int reward" using assms(1,2) by (intro rnd64_int_small) auto
  then have "pro_rate reward (Fin t) (Fin t) = reward"
    using assms r by (simp add: pro_rate_Fin settle_def)
  then show ?thesis using mono p prec by simp
qed

theorem pro_rate_fair_witness:
  "pro_rate 500000001 (Fin 1) (Fin 3) \<le> pro_rate 500000001 (Fin 2) (Fin 3) \<and>
   pro_rate 500000001 (Fin 3) (Fin 3) = 500000001 \<and>
   166666665 < pro_rate 500000001 (Fin 1) (Fin 3) \<and> pro_rate 500000001 (Fin 1) (Fin 3) \<le> 166666668"
  using pro_rate_fair[of 500000001 1 2 3] by simp


lemma allocate_Allocated_effect:
  assumes "allocate_coinbase_reward en now rid reward daa_start daa_end d =
      (Ok (Allocated n net nacho fee residue), d')"
    and "FeeConfig_ok (ae_fee en)" and "reward \<le> i64_max"
  shows "net + nacho + fee = reward \<and>
    (\<exists>new. rows (allocation_t d') = rows (allocation_t d) @ new \<and> int (length new) = n \<and> 0 < n \<and>
       list_all (\<lambda>x. sa_coinbase_reward_id x = rid \<and> allocation_check (sa_new x)) new \<and>
       (\<Sum>x \<leftarrow> new. na_gross_share_sompi (sa_new x)) = reward \<and>
       (\<Sum>x \<leftarrow> new. na_net_payout_sompi (sa_new x)) = net \<and>
       (\<Sum>x \<leftarrow> new. na_nacho_accrual_sompi (sa_new x)) = nacho \<and>
       (\<Sum>x \<leftarrow> new. na_pool_fee_sompi (sa_new x)) = fee \<and>
       (\<forall>v. paid v d' = paid v d \<and> accrued v d' = accrued v d +
          (\<Sum>x \<leftarrow> new. if na_wallet_id (sa_new x) = v then na_nacho_accrual_sompi (sa_new x) else 0))) \<and>
    (\<exists>row. lock_for_allocation rid d = Some row \<and> cr_allocated_at row = None \<and>
       lock_for_allocation rid d' = Some (row\<lparr> cr_allocated_at := Some now \<rparr>))"
proof -
  from assms(1) obtain c d1 ws tw residue' allocs where
    r0: "0 \<le> reward" and cw: "close_window daa_start daa_end now d = (Ok c, d1)" and ne: "ws \<noteq> []"
    and ca: "compute_allocations en reward tw ws d1 = Ok (residue', allocs)"
    and fin: "finalise en now rid reward residue' tw ws allocs d1 = (Ok (Allocated n net nacho fee residue), d')"
    by (rule allocate_Allocated)
  note al = compute_allocations_Ok[OF ca assms(2) r0 assms(3) ne]
  note tot = sum_totals_exact[OF al(3), unfolded al(2), OF assms(3)]
  obtain t0 where d1: "d1 = d\<lparr> window_t := t0 \<rparr>" using close_window_frame[OF cw] by blast
  from fin obtain row new d2 t where
    row: "lock_for_allocation rid d1 = Some row" "cr_allocated_at row = None"
    and acc: "accrue_all now (d1\<lparr> allocation_t := t \<rparr>) (zip ws allocs) = Ok d2"
    and new: "rows t = rows (allocation_t d1) @ new" "map sa_new new = map2 (new_allocation tw) ws allocs"
      "list_all (\<lambda>x. sa_coinbase_reward_id x = rid) new"
      "list_all allocation_check (map2 (new_allocation tw) ws allocs)"
    and d': "\<exists>au. d' = d2\<lparr> reward_t := mark_row now rid d2, audit_t := au \<rparr>"
    and out: "n = int (length ws)" "net = tot_net (sum_totals allocs)" "nacho = tot_nacho (sum_totals allocs)"
      "fee = tot_pool_fee (sum_totals allocs)"
    by (rule finalise_Allocated)
  have nn: "list_all (\<lambda>(w, a). 0 \<le> nacho_accrual_sompi a) (zip ws allocs)"
    using al(3) by (auto simp: list_all_iff dest: set_zip_rightD)
  note eff = accrue_all_effect[OF acc nn]
  then obtain rt where d2: "d2 = d1\<lparr> allocation_t := t, rebate_t := rt \<rparr>" by auto
  obtain au where d'': "d' = d2\<lparr> reward_t := mark_row now rid d2, audit_t := au \<rparr>" using d' by blast
  note col = new_rows_map[OF new(2)] and snd_col = map_snd_allocs[OF al(1)]
  have sums: "(\<Sum>x \<leftarrow> new. na_gross_share_sompi (sa_new x)) = reward"
    "(\<Sum>x \<leftarrow> new. na_net_payout_sompi (sa_new x)) = net"
    "(\<Sum>x \<leftarrow> new. na_nacho_accrual_sompi (sa_new x)) = nacho"
    "(\<Sum>x \<leftarrow> new. na_pool_fee_sompi (sa_new x)) = fee"
    unfolding col using al(2) tot(1) out by (simp_all add: snd_col new_allocation_def)
  have base: "rows t = rows (allocation_t d) @ new" "lock_for_allocation rid d = Some row"
    "lock_for_allocation rid d2 = Some row" using new(1) row(1) by (simp_all add: d1 d2 lock_for_allocation_def)
  have len: "length new = length ws" using arg_cong[OF new(2), of length] al(1) by simp
  have "paid v d' = paid v d \<and> accrued v d' = accrued v d +
      (\<Sum>x \<leftarrow> new. if na_wallet_id (sa_new x) = v then na_nacho_accrual_sompi (sa_new x) else 0)" for v
    using accrue_all_effect[OF acc nn, of v] unfolding d''
      col[of "\<lambda>a. if na_wallet_id a = v then na_nacho_accrual_sompi a else 0"]
    by (simp add: d1 accrued_def paid_def rebate_get_def new_allocation_def case_prod_unfold cong: if_cong)
  moreover have "list_all (\<lambda>x. sa_coinbase_reward_id x = rid \<and> allocation_check (sa_new x)) new"
    using new(3) new(4)[folded new(2)] by (auto simp: list_all_iff)
  moreover have "lock_for_allocation rid d' = Some (row\<lparr> cr_allocated_at := Some now \<rparr>)"
    using lock_mark_row[OF base(3), of d' now] row(2) unfolding d'' by (simp add: coalesce_def)
  moreover have "rows (allocation_t d') = rows (allocation_t d) @ new" unfolding d'' d2 using base(1) by simp
  moreover have "net + nacho + fee = reward" using tot out by simp
  ultimately show ?thesis using sums base(2) row(2) len out(1) ne by auto
qed



lemma demo_allocate:
  "fst (allocate_coinbase_reward demo_engine 9 1 1001 100 150 (demo_db None)) = Ok (Allocated 2 901 49 51 1)"
  by code_simp



lemma demo_lock: "lock_for_allocation 1 (demo_db a) = Some (demo_reward a)"
  by (simp add: lock_for_allocation_def find_where_def demo_db_def demo_reward_def)


text \<open>The residue is not bounded by the number of wallets less one: 49 wallets
  of equal weight share a reward of 49 sompi, the quotient \<open>1/49\<close> rounds down,
  every floored share is zero, and the whole reward is residue.\<close>

lemma pro_rate_49: "pro_rate 49 (Fin 1) (Fin 49) = 0"
  by code_simp

lemma sum_i64_49: "sum_i64 (replicate 49 0) = Ok 0"
  using i64.sum_from_nonneg[of "replicate 49 0" 0] by (simp add: sum_list_replicate)

lemma residue_can_equal_wallet_count:
  assumes "length ws = 49" and "list_all (\<lambda>w. sw_total_weight w = Fin 1) ws"
  shows "\<exists>gs. gross_shares 49 (Fin 49) ws = Ok (49, gs)"
proof -
  have "map (\<lambda>w. pro_rate 49 (sw_total_weight w) (Fin 49)) ws = replicate 49 0"
    using assms by (intro nth_equalityI) (auto simp: list_all_iff pro_rate_49)
  then show ?thesis by (simp add: gross_shares_def Let_def sum_i64_49)
qed

text \<open>Nor is it non-negative: at \<open>2 ^ 58\<close> sompi, five equal wallets are
  pro-rated 16 sompi more than the reward, which the first wallet gives
  back.\<close>

lemma pro_rate_58: "pro_rate 288230376151711744 (Fin 1) (Fin 5) = 57646075230342352"
  by code_simp

lemma sum_i64_58: "sum_i64 (replicate 5 57646075230342352) = Ok 288230376151711760"
  using i64.sum_from_nonneg[of "replicate 5 57646075230342352" 0] by (simp add: sum_list_replicate)

lemma residue_can_be_negative:
  assumes "length ws = 5" and "list_all (\<lambda>w. sw_total_weight w = Fin 1) ws"
  shows "\<exists>gs. gross_shares 288230376151711744 (Fin 5) ws = Ok (- 16, gs)"
proof -
  have "map (\<lambda>w. pro_rate 288230376151711744 (sw_total_weight w) (Fin 5)) ws = replicate 5 57646075230342352"
    using assms by (intro nth_equalityI) (auto simp: list_all_iff pro_rate_58)
  then show ?thesis by (simp add: gross_shares_def Let_def sum_i64_58)
qed

end
