(* ===== verification/Ledger.thy ===== *)
theory Ledger
  imports Allocation
begin

text \<open>
  The ledger the pool keeps in \<open>coinbase_reward\<close>, \<open>share_allocation\<close> and
  \<open>nacho_rebate_accrual\<close>: the invariant that ties the three tables together,
  and that allocation keeps it.
\<close>

definition allocations_of :: "int \<Rightarrow> db \<Rightarrow> ShareAllocation list" where
  "allocations_of rid d = filter (\<lambda>x. sa_coinbase_reward_id x = rid) (rows (allocation_t d))"

definition gross_of :: "ShareAllocation list \<Rightarrow> int" where
  "gross_of xs = (\<Sum>x \<leftarrow> xs. na_gross_share_sompi (sa_new x))"

definition nacho_of :: "int \<Rightarrow> ShareAllocation list \<Rightarrow> int" where
  "nacho_of v xs = (\<Sum>x \<leftarrow> xs. if na_wallet_id (sa_new x) = v then na_nacho_accrual_sompi (sa_new x) else 0)"

text \<open>A reward that is not stamped has no allocation; a reward with
  allocations has been split exactly; every allocation belongs to a recorded
  reward; every wallet's accrued rebate is the sum over its allocations.\<close>

definition reward_settled :: "db \<Rightarrow> CoinbaseReward \<Rightarrow> bool" where
  "reward_settled d r \<longleftrightarrow> cr_amount_sompi r \<le> i64_max \<and>
     (cr_allocated_at r = None \<longrightarrow> allocations_of (cr_id r) d = []) \<and>
     (allocations_of (cr_id r) d \<noteq> [] \<longrightarrow> gross_of (allocations_of (cr_id r) d) = cr_amount_sompi r)"

definition ledger_ok :: "db \<Rightarrow> bool" where
  "ledger_ok d \<longleftrightarrow>
     keyed cr_id (reward_t d) \<and>
     (\<forall>r \<in> set (rows (reward_t d)). reward_settled d r) \<and>
     (\<forall>x \<in> set (rows (allocation_t d)). sa_coinbase_reward_id x \<in> cr_id ` set (rows (reward_t d)) \<and>
        allocation_check (sa_new x)) \<and>
     (\<forall>v. accrued v d = nacho_of v (rows (allocation_t d)))"

lemma ledger_okI:
  assumes "keyed cr_id (reward_t d)" and "\<And>r. r \<in> set (rows (reward_t d)) \<Longrightarrow> reward_settled d r"
    and "\<And>x. x \<in> set (rows (allocation_t d)) \<Longrightarrow>
      sa_coinbase_reward_id x \<in> cr_id ` set (rows (reward_t d)) \<and> allocation_check (sa_new x)"
    and "\<And>v. accrued v d = nacho_of v (rows (allocation_t d))"
  shows "ledger_ok d"
  using assms by (simp add: ledger_ok_def)

lemma ledger_okD:
  assumes "ledger_ok d"
  shows "keyed cr_id (reward_t d)" and "r \<in> set (rows (reward_t d)) \<Longrightarrow> reward_settled d r"
    and "x \<in> set (rows (allocation_t d)) \<Longrightarrow>
      sa_coinbase_reward_id x \<in> cr_id ` set (rows (reward_t d)) \<and> allocation_check (sa_new x)"
    and "accrued v d = nacho_of v (rows (allocation_t d))"
  using assms unfolding ledger_ok_def by blast+

text \<open>The invariant reads three tables only.\<close>

lemma accrued_cong: "rebate_t d' = rebate_t d \<Longrightarrow> accrued v d' = accrued v d"
  by (simp add: accrued_def rebate_get_def)

lemma reward_settled_cong: "allocation_t d' = allocation_t d \<Longrightarrow> reward_settled d' r = reward_settled d r"
  by (simp add: reward_settled_def allocations_of_def)

lemma ledger_ok_cong:
  assumes "reward_t d' = reward_t d" and "allocation_t d' = allocation_t d" and "rebate_t d' = rebate_t d"
  shows "ledger_ok d' \<longleftrightarrow> ledger_ok d"
  unfolding ledger_ok_def assms(1,2) accrued_cong[OF assms(3)] reward_settled_cong[OF assms(2)] ..

lemma ledger_ok_empty: "ledger_ok empty_db"
  by (rule ledger_okI) (simp_all add: empty_db_def empty_tbl_def keyed_def nacho_of_def accrued_def rebate_get_def find_where_def)

section \<open>Recording a reward\<close>

definition reward_key :: "CoinbaseReward \<Rightarrow> int \<times> hash_bytes \<times> int \<times> int \<times> int" where
  "reward_key r = (cr_id r, cr_outpoint_transaction_id r, cr_outpoint_index r, cr_amount_sompi r, cr_block_daa_score r)"

abbreviation reward_keys :: "db \<Rightarrow> (int \<times> hash_bytes \<times> int \<times> int \<times> int) list" where
  "reward_keys d \<equiv> map reward_key (rows (reward_t d))"

lemma fresh_allocations:
  assumes "ledger_ok d" and "nextval (reward_t d) \<le> i"
  shows "allocations_of i d = []"
proof -
  have "sa_coinbase_reward_id x \<noteq> i" if x: "x \<in> set (rows (allocation_t d))" for x
  proof -
    obtain r where "r \<in> set (rows (reward_t d))" "sa_coinbase_reward_id x = cr_id r"
      using ledger_okD(3)[OF assms(1) x] by auto
    moreover have "cr_id r < nextval (reward_t d)" if "r \<in> set (rows (reward_t d))" for r
      using ledger_okD(1)[OF assms(1)] that by (auto simp: keyed_def list_all_iff)
    ultimately show ?thesis using assms(2) by fastforce
  qed
  then show ?thesis by (simp add: allocations_of_def filter_empty_conv)
qed

lemma reward_ensure_cases:
  assumes "reward_ensure now txid index amount daa d = Ok ((i, out), d')"
  obtains (existed) r where "out = AlreadyExisted" "d' = d\<lparr> reward_t := skip_id (reward_t d) \<rparr>"
      "r \<in> set (rows (reward_t d))" "cr_outpoint_transaction_id r = txid" "cr_outpoint_index r = u32_as_i32 index"
  | (inserted) mk where "out = Inserted" "d' = d\<lparr> reward_t := insert_row mk (reward_t d) \<rparr>"
      "\<And>j. mk j = \<lparr> cr_id = j, cr_outpoint_transaction_id = txid, cr_outpoint_index = u32_as_i32 index,
         cr_amount_sompi = amount, cr_block_daa_score = u64_as_i64 daa, cr_discovered_at = now, cr_allocated_at = None \<rparr>"
      "\<forall>r \<in> set (rows (reward_t d)). \<not> (cr_outpoint_transaction_id r = txid \<and> cr_outpoint_index r = u32_as_i32 index)"
proof -
  let ?P = "\<lambda>r. cr_outpoint_transaction_id r = txid \<and> cr_outpoint_index r = u32_as_i32 index"
  let ?mk = "\<lambda>j. \<lparr> cr_id = j, cr_outpoint_transaction_id = txid, cr_outpoint_index = u32_as_i32 index,
         cr_amount_sompi = amount, cr_block_daa_score = u64_as_i64 daa, cr_discovered_at = now, cr_allocated_at = None \<rparr>"
  show thesis
  proof (cases "find_where ?P (reward_t d)")
    case None
    then have "out = Inserted \<and> d' = d\<lparr> reward_t := insert_row ?mk (reward_t d) \<rparr>"
      using assms by (auto simp: reward_ensure_def Let_def split: if_splits)
    then show thesis using None by (intro inserted[of ?mk]) (auto simp: find_where_None)
  next
    case (Some r)
    then have "out = AlreadyExisted \<and> d' = d\<lparr> reward_t := skip_id (reward_t d) \<rparr>"
      using assms by (auto simp: reward_ensure_def Let_def split: if_splits)
    then show thesis using find_where_Some[OF Some] by (intro existed) auto
  qed
qed

lemma reward_ensure_ledger:
  assumes ok: "ledger_ok d" and en: "reward_ensure now txid index amount daa d = Ok ((i, out), d')"
    and am: "amount \<le> i64_max"
  shows "ledger_ok d'"
  using en
proof (cases rule: reward_ensure_cases)
  case (existed r)
  let ?d = "d\<lparr> reward_t := skip_id (reward_t d) \<rparr>"
  have sc: "reward_settled ?d r = reward_settled d r" for r by (rule reward_settled_cong) simp
  have ac: "accrued v ?d = accrued v d" for v by (rule accrued_cong) simp
  have "ledger_ok ?d"
    unfolding ledger_ok_def sc ac using ok by (simp add: ledger_ok_def keyed_skip_id tbl_simps)
  with existed show ?thesis by simp
next
  case (inserted mk)
  let ?d = "d\<lparr> reward_t := insert_row mk (reward_t d) \<rparr>"
  have sc: "reward_settled ?d r = reward_settled d r" for r by (rule reward_settled_cong) simp
  have ac: "accrued v ?d = accrued v d" for v by (rule accrued_cong) simp
  have "reward_settled d (mk (nextval (reward_t d)))"
    using fresh_allocations[OF ok order_refl] inserted(3) am by (simp add: reward_settled_def)
  moreover have "keyed cr_id (reward_t ?d)"
    using ledger_okD(1)[OF ok] inserted(3) by (simp add: keyed_insert_row)
  ultimately have "ledger_ok ?d"
    unfolding ledger_ok_def sc ac using ok by (auto simp: ledger_ok_def tbl_simps)
  with inserted show ?thesis by simp
qed

section \<open>Allocating a reward\<close>

lemma finalise_empty_result:
  assumes "finalise_empty en now rid reward d = (m, d')"
  shows "d' = d \<or> (\<exists>au. d' = d\<lparr> reward_t := mark_row now rid d, audit_t := au \<rparr>)"
  using assms
  by (cases "lock_for_allocation rid d")
    (auto simp: finalise_empty_def gated_on_reward_def mark_allocated_def audit_append_def mark_row_def split: if_splits)

lemma finalise_result:
  assumes "finalise en now rid reward residue tw ws allocs d = (m, d')"
  shows "d' = d \<or> (\<exists>n net nacho fee res. m = Ok (Allocated n net nacho fee res))"
proof (cases m)
  case (Ok out)
  show ?thesis
  proof (cases "lock_for_allocation rid d")
    case None
    then show ?thesis using assms by (simp add: finalise_def gated_on_reward_def)
  next
    case (Some row)
    show ?thesis
    proof (cases "cr_allocated_at row = None")
      case False
      then show ?thesis using assms gated_allocated[OF Some] by (simp add: finalise_def)
    next
      case True
      then show ?thesis using assms Some Ok
        by (auto simp: finalise_def gated_on_reward_def outcome_simps mark_allocated_def audit_append_def Let_def
            split: outcome.splits prod.splits)
    qed
  qed
qed (use assms in \<open>auto simp: finalise_def split: outcome.splits prod.splits\<close>)

lemma allocate_result:
  assumes "allocate_coinbase_reward en now rid reward daa_start daa_end d = (m, d')"
  obtains (unchanged) "reward_t d' = reward_t d" "allocation_t d' = allocation_t d" "rebate_t d' = rebate_t d"
  | (empty) "reward_t d' = mark_row now rid d" "allocation_t d' = allocation_t d" "rebate_t d' = rebate_t d"
  | (allocated) n net nacho fee res where "m = Ok (Allocated n net nacho fee res)" "reward_t d' = mark_row now rid d"
  using assms
proof (cases rule: allocate_tail)
  case (1 t)
  then show thesis by (intro unchanged) simp_all
next
  case (2 t)
  then show thesis
    using finalise_empty_result[OF 2] unchanged empty by (auto simp: mark_row_def)
next
  case (3 t residue tw ws allocs)
  show thesis
  proof (cases "d' = d\<lparr> window_t := t \<rparr>")
    case True
    then show thesis by (intro unchanged) simp_all
  next
    case False
    with finalise_result[OF 3] obtain n net nacho fee res where m: "m = Ok (Allocated n net nacho fee res)" by blast
    from 3[unfolded m] obtain d2 t' where
      acc: "accrue_all now (d\<lparr> window_t := t, allocation_t := t' \<rparr>) (zip ws allocs) = Ok d2"
      and d': "\<exists>au. d' = d2\<lparr> reward_t := mark_row now rid d2, audit_t := au \<rparr>"
      by (rule finalise_Allocated) simp
    from d' have "reward_t d' = mark_row now rid d"
      using accrue_all_frame[OF acc] by (auto simp: mark_row_def)
    with m show thesis by (intro allocated)
  qed
qed

lemma rows_mark_row: "rows (mark_row now rid d) = map (\<lambda>r. if cr_id r = rid
    then r\<lparr> cr_allocated_at := coalesce (cr_allocated_at r) now \<rparr> else r) (rows (reward_t d))"
  by (simp add: mark_row_def rows_update_where)

lemma mark_row_keys: "reward_t d' = mark_row now rid d \<Longrightarrow> reward_keys d' = reward_keys d"
  by (auto simp: rows_mark_row reward_key_def)

lemma mark_row_keyed: "keyed cr_id (reward_t d) \<Longrightarrow> keyed cr_id (mark_row now rid d)"
  unfolding mark_row_def by (rule keyed_update_where) simp_all

lemma mark_row_ids: "cr_id ` set (rows (mark_row now rid d)) = cr_id ` set (rows (reward_t d))"
  unfolding rows_mark_row set_map image_image by (rule image_cong) simp_all

lemma mark_row_in:
  assumes "r \<in> set (rows (mark_row now rid d))"
  obtains r0 where "r0 \<in> set (rows (reward_t d))" "cr_id r = cr_id r0" "cr_amount_sompi r = cr_amount_sompi r0"
    "cr_id r0 = rid \<longrightarrow> cr_allocated_at r \<noteq> None" "cr_id r0 \<noteq> rid \<longrightarrow> r = r0"
proof -
  from assms obtain r0 where r0: "r0 \<in> set (rows (reward_t d))"
    "r = (if cr_id r0 = rid then r0\<lparr> cr_allocated_at := coalesce (cr_allocated_at r0) now \<rparr> else r0)"
    by (auto simp: rows_mark_row)
  show thesis by (rule that[OF r0(1)]) (use r0(2) in \<open>simp_all add: coalesce_def\<close>)
qed

lemma stamp_ledger:
  assumes ok: "ledger_ok d" and r: "reward_t d' = mark_row now rid d"
    and a: "allocation_t d' = allocation_t d" and b: "rebate_t d' = rebate_t d"
  shows "ledger_ok d'"
proof (rule ledger_okI)
  show "keyed cr_id (reward_t d')" unfolding r by (rule mark_row_keyed[OF ledger_okD(1)[OF ok]])
  fix x assume "x \<in> set (rows (reward_t d'))"
  then obtain x0 where x0: "x0 \<in> set (rows (reward_t d))" "cr_id x = cr_id x0" "cr_amount_sompi x = cr_amount_sompi x0"
    "cr_id x0 = rid \<longrightarrow> cr_allocated_at x \<noteq> None" "cr_id x0 \<noteq> rid \<longrightarrow> x = x0"
    unfolding r by (rule mark_row_in)
  have "reward_settled d x" using ledger_okD(2)[OF ok x0(1)] x0(2-5) by (auto simp: reward_settled_def)
  then show "reward_settled d' x" by (simp add: reward_settled_cong[OF a])
next
  fix x assume "x \<in> set (rows (allocation_t d'))"
  then show "sa_coinbase_reward_id x \<in> cr_id ` set (rows (reward_t d')) \<and> allocation_check (sa_new x)"
    unfolding r mark_row_ids a by (rule ledger_okD(3)[OF ok])
next
  fix v show "accrued v d' = nacho_of v (rows (allocation_t d'))"
    unfolding a accrued_cong[OF b] by (rule ledger_okD(4)[OF ok])
qed

lemma allocated_ledger:
  assumes ok: "ledger_ok d" and row: "r \<in> set (rows (reward_t d))"
    and al: "allocate_coinbase_reward en now (cr_id r) (cr_amount_sompi r) daa_start daa_end d =
      (Ok (Allocated n net nacho fee res), d')"
    and cfg: "FeeConfig_ok (ae_fee en)" and rt: "reward_t d' = mark_row now (cr_id r) d"
  shows "ledger_ok d'"
proof -
  have am: "cr_amount_sompi r \<le> i64_max" using ledger_okD(2)[OF ok row] by (simp add: reward_settled_def)
  from allocate_Allocated_effect[OF al cfg am] obtain new row' where
    app: "rows (allocation_t d') = rows (allocation_t d) @ new"
    and mine: "list_all (\<lambda>x. sa_coinbase_reward_id x = cr_id r \<and> allocation_check (sa_new x)) new"
    and gross: "gross_of new = cr_amount_sompi r"
    and acc: "\<And>v. accrued v d' = accrued v d + nacho_of v new"
    and lock: "lock_for_allocation (cr_id r) d = Some row'" "cr_allocated_at row' = None"
    unfolding gross_of_def nacho_of_def by blast
  have "row' = r"
    using lock(1) find_where_key[OF ledger_okD(1)[OF ok] row] by (simp add: lock_for_allocation_def)
  with lock(2) ledger_okD(2)[OF ok row] have none: "allocations_of (cr_id r) d = []" by (simp add: reward_settled_def)
  have of: "allocations_of i d' = (if i = cr_id r then new else allocations_of i d)" for i
    using mine none by (auto simp: allocations_of_def app list_all_iff filter_empty_conv intro!: filter_True)
  show ?thesis
  proof (rule ledger_okI)
    show "keyed cr_id (reward_t d')" unfolding rt by (rule mark_row_keyed[OF ledger_okD(1)[OF ok]])
    fix x assume "x \<in> set (rows (reward_t d'))"
    then obtain x0 where x0: "x0 \<in> set (rows (reward_t d))" "cr_id x = cr_id x0" "cr_amount_sompi x = cr_amount_sompi x0"
      "cr_id x0 = cr_id r \<longrightarrow> cr_allocated_at x \<noteq> None" "cr_id x0 \<noteq> cr_id r \<longrightarrow> x = x0"
      unfolding rt by (rule mark_row_in)
    have "x0 = r" if "cr_id x0 = cr_id r"
      using that find_where_key[OF ledger_okD(1)[OF ok] row] find_where_key[OF ledger_okD(1)[OF ok] x0(1)] by simp
    then show "reward_settled d' x"
      using ledger_okD(2)[OF ok x0(1)] x0(2-5) gross by (auto simp: reward_settled_def of)
  next
    fix x assume "x \<in> set (rows (allocation_t d'))"
    then show "sa_coinbase_reward_id x \<in> cr_id ` set (rows (reward_t d')) \<and> allocation_check (sa_new x)"
      unfolding rt mark_row_ids using ledger_okD(3)[OF ok] mine row by (auto simp: app list_all_iff)
  next
    fix v show "accrued v d' = nacho_of v (rows (allocation_t d'))"
      using acc[of v] ledger_okD(4)[OF ok, of v] by (simp add: app nacho_of_def)
  qed
qed

lemma allocate_ledger:
  assumes "ledger_ok d" and "r \<in> set (rows (reward_t d))" and "FeeConfig_ok (ae_fee en)"
    and al: "allocate_coinbase_reward en now (cr_id r) (cr_amount_sompi r) daa_start daa_end d = (m, d')"
  shows "ledger_ok d'" and "reward_keys d' = reward_keys d"
proof -
  from al have "ledger_ok d' \<and> reward_keys d' = reward_keys d"
  proof (cases rule: allocate_result)
    case unchanged
    with assms(1) show ?thesis using ledger_ok_cong[OF unchanged] by simp
  next
    case empty
    then show ?thesis using stamp_ledger[OF assms(1) empty] mark_row_keys[OF empty(1)] by simp
  next
    case (allocated n net nacho fee res)
    then show ?thesis
      using allocated_ledger[OF assms(1,2) al[unfolded allocated(1)] assms(3) allocated(2)] mark_row_keys[OF allocated(2)]
      by simp
  qed
  then show "ledger_ok d'" and "reward_keys d' = reward_keys d" by simp_all
qed

end
