(* ===== verification/Maturity.thy ===== *)
theory Maturity
  imports Ledger
begin

text \<open>
  The maturity tracker, \<open>src/accountant/src/maturity.rs\<close>: one sweep resolves
  submitted blocks by their GHOSTDAG colour and turns every matured coinbase
  output of the pool into an allocated reward.  kaspad is the argument
  \<open>kaspad\<close>: what the node answers during the sweep.
\<close>

section \<open>The node and the configuration\<close>

datatype KaspadError = KaspadTransport | KaspadMalformed

datatype BlockColor = Blue | Red | NotYetMerged

record CoinbaseUtxo =
  cu_transaction_id :: hash_bytes
  cu_index :: int
  cu_amount_sompi :: int
  cu_block_daa_score :: int

record KaspadClient =
  get_virtual_daa_score :: "(KaspadError, int) outcome"
  get_block_color :: "hash_bytes \<Rightarrow> (KaspadError, BlockColor) outcome"
  get_pool_coinbase_utxos :: "(KaspadError, CoinbaseUtxo list) outcome"

definition DEFAULT_POLL_INTERVAL :: int where "DEFAULT_POLL_INTERVAL = 15000000000"
definition DEFAULT_COINBASE_MATURITY :: int where "DEFAULT_COINBASE_MATURITY = 1000"
definition DEFAULT_WINDOW_DAA_SPAN :: int where "DEFAULT_WINDOW_DAA_SPAN = 600"
definition DEFAULT_BATCH_SIZE :: int where "DEFAULT_BATCH_SIZE = 200"

record MaturityConfig =
  mc_poll_interval :: int
  mc_coinbase_maturity :: int
  mc_window_daa_span :: int
  mc_batch_size :: int
  mc_coinbase_min_daa_score :: int

definition MaturityConfig_default :: MaturityConfig where
  "MaturityConfig_default =
     \<lparr> mc_poll_interval = DEFAULT_POLL_INTERVAL, mc_coinbase_maturity = DEFAULT_COINBASE_MATURITY,
       mc_window_daa_span = DEFAULT_WINDOW_DAA_SPAN, mc_batch_size = DEFAULT_BATCH_SIZE,
       mc_coinbase_min_daa_score = 0 \<rparr>"

record SweepStats =
  ss_confirmed_blue :: nat
  ss_orphaned :: nat
  ss_blocks_waiting :: nat
  ss_rewards_discovered :: nat
  ss_rewards_allocated :: nat
  ss_rewards_empty :: nat
  ss_errors :: nat
  ss_rewards_skipped_below_floor :: nat

definition SweepStats_default :: SweepStats where
  "SweepStats_default =
     \<lparr> ss_confirmed_blue = 0, ss_orphaned = 0, ss_blocks_waiting = 0, ss_rewards_discovered = 0,
       ss_rewards_allocated = 0, ss_rewards_empty = 0, ss_errors = 0, ss_rewards_skipped_below_floor = 0 \<rparr>"

record MaturityTracker =
  mt_kaspad :: KaspadClient
  mt_engine :: AllocationEngine
  mt_cfg :: MaturityConfig

datatype BlockOutcome = BlockConfirmedBlue | BlockOrphaned | StillWaiting

datatype TrackerError =
    TrackerKaspad KaspadError
  | TrackerDb DbError
  | TrackerEngine AllocationEngineError
  | TrackerMalformed string

definition is_mature :: "int \<Rightarrow> int \<Rightarrow> int \<Rightarrow> bool" where
  "is_mature virtual_daa_score block_daa_score coinbase_maturity =
     (case checked 0 u64_max (virtual_daa_score - block_daa_score) of
        Some depth \<Rightarrow> coinbase_maturity \<le> depth
      | None \<Rightarrow> False)"

definition bytes_to_hash :: "8 word list \<Rightarrow> hash_bytes option" where
  "bytes_to_hash bytes = (if length bytes \<noteq> 32 then None else Some bytes)"

section \<open>Submitted blocks\<close>

definition process_submitted ::
  "MaturityTracker \<Rightarrow> timestamp \<Rightarrow> Block \<Rightarrow> int \<Rightarrow> db \<Rightarrow> (TrackerError, BlockOutcome) outcome \<times> db" where
  "process_submitted tr now blk virtual_daa_score d =
     st_bind (ok_or (TrackerMalformed ''block.hash is not 32 bytes'') (bytes_to_hash (blk_hash blk)), d) (\<lambda>hash d.
     st_bind (map_err TrackerKaspad (get_block_color (mt_kaspad tr) hash), d) (\<lambda>color d.
     case color of
       Blue \<Rightarrow>
         st_bind (st_map_err TrackerDb (run_tx (mark_confirmed_blue now hash None) d)) (\<lambda>_ d.
         (Ok BlockConfirmedBlue, d))
     | Red \<Rightarrow>
         st_bind (st_map_err TrackerDb (run_tx (mark_orphaned hash) d)) (\<lambda>_ d. (Ok BlockOrphaned, d))
     | NotYetMerged \<Rightarrow>
         if saturating 0 u64_max (i64_as_u64 (blk_daa_score blk) + mc_coinbase_maturity (mt_cfg tr)) \<le> virtual_daa_score
         then st_bind (st_map_err TrackerDb (run_tx (mark_orphaned hash) d)) (\<lambda>_ d. (Ok BlockOrphaned, d))
         else (Ok StillWaiting, d)))"

text \<open>A loop over independent items: an error is counted and the loop goes
  on; a panic ends the process.\<close>

fun for_each ::
  "('i \<Rightarrow> db \<Rightarrow> ('e, 'o) outcome \<times> db) \<Rightarrow> ('o \<Rightarrow> SweepStats \<Rightarrow> SweepStats) \<Rightarrow> 'i list \<Rightarrow>
     SweepStats \<Rightarrow> db \<Rightarrow> (TrackerError, SweepStats) outcome \<times> db" where
  "for_each f tally [] stats d = (Ok stats, d)"
| "for_each f tally (x # xs) stats d =
     (case f x d of
        (Ok out, d') \<Rightarrow> for_each f tally xs (tally out stats) d'
      | (Err _, d') \<Rightarrow> for_each f tally xs (stats\<lparr> ss_errors := ss_errors stats + 1 \<rparr>) d'
      | (Panic, d') \<Rightarrow> (Panic, d'))"

definition tally_block :: "BlockOutcome \<Rightarrow> SweepStats \<Rightarrow> SweepStats" where
  "tally_block out stats =
     (case out of
        BlockConfirmedBlue \<Rightarrow> stats\<lparr> ss_confirmed_blue := ss_confirmed_blue stats + 1 \<rparr>
      | BlockOrphaned \<Rightarrow> stats\<lparr> ss_orphaned := ss_orphaned stats + 1 \<rparr>
      | StillWaiting \<Rightarrow> stats\<lparr> ss_blocks_waiting := ss_blocks_waiting stats + 1 \<rparr>)"

definition sweep_blocks ::
  "MaturityTracker \<Rightarrow> timestamp \<Rightarrow> int \<Rightarrow> SweepStats \<Rightarrow> db \<Rightarrow> (TrackerError, SweepStats) outcome \<times> db" where
  "sweep_blocks tr now virtual_daa_score stats d =
     for_each (\<lambda>blk. process_submitted tr now blk virtual_daa_score) tally_block
       (block_list_by_status [SubmittedToNode] (mc_batch_size (mt_cfg tr)) d) stats d"

section \<open>Coinbase rewards\<close>

datatype Discovery = Immature | BelowFloor | Recorded EnsureOutcome

definition record_utxo ::
  "MaturityTracker \<Rightarrow> timestamp \<Rightarrow> int \<Rightarrow> CoinbaseUtxo \<Rightarrow> db \<Rightarrow> (DbError option, Discovery) outcome \<times> db" where
  "record_utxo tr now virtual_daa_score utxo d =
     (if \<not> is_mature virtual_daa_score (cu_block_daa_score utxo) (mc_coinbase_maturity (mt_cfg tr))
      then (Ok Immature, d)
      else if cu_block_daa_score utxo < mc_coinbase_min_daa_score (mt_cfg tr) then (Ok BelowFloor, d)
      else case checked i64_min i64_max (cu_amount_sompi utxo) of
             None \<Rightarrow> (Err None, d)
           | Some amount \<Rightarrow>
               st_bind (st_map_err Some (run_tx (reward_ensure now (cu_transaction_id utxo) (cu_index utxo) amount
                   (cu_block_daa_score utxo)) d)) (\<lambda>r d. (Ok (Recorded (snd r)), d)))"

definition tally_discovery :: "Discovery \<Rightarrow> SweepStats \<Rightarrow> SweepStats" where
  "tally_discovery out stats =
     (case out of
        Immature \<Rightarrow> stats
      | BelowFloor \<Rightarrow> stats\<lparr> ss_rewards_skipped_below_floor := ss_rewards_skipped_below_floor stats + 1 \<rparr>
      | Recorded Inserted \<Rightarrow> stats\<lparr> ss_rewards_discovered := ss_rewards_discovered stats + 1 \<rparr>
      | Recorded AlreadyExisted \<Rightarrow> stats)"

definition allocate_reward ::
  "MaturityTracker \<Rightarrow> timestamp \<Rightarrow> CoinbaseReward \<Rightarrow> db \<Rightarrow> (TrackerError, AllocationOutcome) outcome \<times> db" where
  "allocate_reward tr now reward d =
     (let daa = i64_as_u64 (cr_block_daa_score reward);
          daa_start = saturating 0 u64_max (daa - mc_window_daa_span (mt_cfg tr)) in
      st_map_err TrackerEngine
        (allocate_coinbase_reward (mt_engine tr) now (cr_id reward) (cr_amount_sompi reward) daa_start daa d))"

definition tally_allocation :: "AllocationOutcome \<Rightarrow> SweepStats \<Rightarrow> SweepStats" where
  "tally_allocation out stats =
     (case out of
        Allocated _ _ _ _ _ \<Rightarrow> stats\<lparr> ss_rewards_allocated := ss_rewards_allocated stats + 1 \<rparr>
      | NoContributingWallets _ \<Rightarrow> stats\<lparr> ss_rewards_empty := ss_rewards_empty stats + 1 \<rparr>
      | AlreadyAllocated \<Rightarrow> stats)"

definition sweep_rewards ::
  "MaturityTracker \<Rightarrow> timestamp \<Rightarrow> int \<Rightarrow> SweepStats \<Rightarrow> db \<Rightarrow> (TrackerError, SweepStats) outcome \<times> db" where
  "sweep_rewards tr now virtual_daa_score stats d =
     st_bind (map_err TrackerKaspad (get_pool_coinbase_utxos (mt_kaspad tr)), d) (\<lambda>utxos d.
     st_bind (for_each (record_utxo tr now virtual_daa_score) tally_discovery utxos stats d) (\<lambda>stats d.
     for_each (allocate_reward tr now) tally_allocation
       (reward_list_unallocated (mc_batch_size (mt_cfg tr)) d) stats d))"

definition run_once :: "MaturityTracker \<Rightarrow> timestamp \<Rightarrow> db \<Rightarrow> (TrackerError, SweepStats) outcome \<times> db" where
  "run_once tr now d =
     st_bind (map_err TrackerKaspad (get_virtual_daa_score (mt_kaspad tr)), d) (\<lambda>virtual_daa_score d.
     st_bind (sweep_blocks tr now virtual_daa_score SweepStats_default d) (\<lambda>stats d.
     sweep_rewards tr now virtual_daa_score stats d))"

text \<open>One turn of \<open>run_loop\<close>: the reachability signal it publishes and the
  database it leaves; a failed sweep does not end the loop.\<close>

definition run_loop_tick :: "MaturityTracker \<Rightarrow> timestamp \<Rightarrow> db \<Rightarrow> bool option \<times> db" where
  "run_loop_tick tr now d =
     (case run_once tr now d of
        (Ok _, d') \<Rightarrow> (Some True, d')
      | (Err _, d') \<Rightarrow> (Some False, d')
      | (Panic, d') \<Rightarrow> (None, d'))"

section \<open>Facts on the loops\<close>

lemma for_each_invariant:
  assumes "for_each f tally xs stats d = (m, d')" and "P d" and "\<And>x d. x \<in> set xs \<Longrightarrow> P d \<Longrightarrow> P (snd (f x d))"
  shows "P d'"
  using assms
proof (induction xs arbitrary: stats d)
  case (Cons x xs)
  obtain out d1 where f: "f x d = (out, d1)" by (cases "f x d")
  have P1: "P d1" using Cons.prems(3)[of x d] Cons.prems(2) f by simp
  show ?case
  proof (cases out)
    case (Ok o1)
    then show ?thesis using Cons.prems(1,3) f by (intro Cons.IH[OF _ P1, of "tally o1 stats"]) simp_all
  next
    case (Err e)
    then show ?thesis using Cons.prems(1,3) f
      by (intro Cons.IH[OF _ P1, of "stats\<lparr> ss_errors := ss_errors stats + 1 \<rparr>"]) simp_all
  next
    case Panic
    then show ?thesis using Cons.prems(1) f P1 by simp
  qed
qed simp

lemma for_each_errors:
  assumes "for_each f tally xs stats d = (Ok s', d')" and "\<And>out s. ss_errors (tally out s) = ss_errors s"
  shows "ss_errors stats \<le> ss_errors s'"
  using assms(1)
proof (induction xs arbitrary: stats d)
  case (Cons x xs)
  obtain out d1 where f: "f x d = (out, d1)" by (cases "f x d")
  show ?case
  proof (cases out)
    case (Ok o1)
    then show ?thesis using Cons.prems f Cons.IH[of "tally o1 stats" d1] assms(2)[of o1 stats] by simp
  next
    case (Err e)
    then show ?thesis using Cons.prems f Cons.IH[of "stats\<lparr> ss_errors := ss_errors stats + 1 \<rparr>" d1] by simp
  next
    case Panic
    then show ?thesis using Cons.prems f by simp
  qed
qed simp

text \<open>A loop that ends without an error has done its work for every item.\<close>

lemma for_each_clean:
  assumes "for_each f tally xs stats d = (Ok s', d')" and "ss_errors s' = ss_errors stats"
    and tally: "\<And>out s. ss_errors (tally out s) = ss_errors s"
    and "P d" and "\<forall>x \<in> A. R x d"
    and step: "\<And>x d out d'. x \<in> set xs \<Longrightarrow> P d \<Longrightarrow> f x d = (Ok out, d') \<Longrightarrow> P d' \<and> R x d'"
    and keep: "\<And>x y d out d'. x \<in> set xs \<Longrightarrow> P d \<Longrightarrow> f x d = (Ok out, d') \<Longrightarrow> R y d \<Longrightarrow> R y d'"
  shows "P d' \<and> (\<forall>x \<in> A \<union> set xs. R x d')"
  using assms(1,2,4,5) step keep
proof (induction xs arbitrary: stats d A)
  case (Cons x xs)
  obtain out d1 where f: "f x d = (out, d1)" by (cases "f x d")
  show ?case
  proof (cases out)
    case (Ok o1)
    have rest: "for_each f tally xs (tally o1 stats) d1 = (Ok s', d')" using Cons.prems(1) f Ok by simp
    note st = Cons.prems(5)[of x d o1 d1] and kp = Cons.prems(6)[of x d o1 d1]
    have "P d' \<and> (\<forall>y \<in> insert x A \<union> set xs. R y d')"
    proof (rule Cons.IH[OF rest])
      show "ss_errors s' = ss_errors (tally o1 stats)" using Cons.prems(2) tally by simp
      show "P d1" using st Cons.prems(3) f Ok by simp
      show "\<forall>y \<in> insert x A. R y d1" using st kp Cons.prems(3,4) f Ok by auto
    next
      fix y d out d'
      assume "y \<in> set xs" "P d" "f y d = (Ok out, d')"
      then show "P d' \<and> R y d'" using Cons.prems(5)[of y d out d'] by simp
    next
      fix y z d out d'
      assume "y \<in> set xs" "P d" "f y d = (Ok out, d')" "R z d"
      then show "R z d'" using Cons.prems(6) by (meson list.set_intros(2))
    qed
    then show ?thesis by simp
  next
    case (Err e)
    have "ss_errors stats + 1 \<le> ss_errors s'"
      using for_each_errors[of f tally xs "stats\<lparr> ss_errors := ss_errors stats + 1 \<rparr>" d1 s' d'] tally Cons.prems(1) f Err by simp
    then show ?thesis using Cons.prems(2) by simp
  next
    case Panic
    then show ?thesis using Cons.prems(1) f by simp
  qed
qed simp

section \<open>Facts on one item\<close>

lemma block_update_frame: "block_update h allowed g d = Ok (u, d') \<Longrightarrow> \<exists>t. d' = d\<lparr> block_t := t \<rparr>"
  by (auto simp: block_update_def outcome_simps)

lemma run_tx_frame:
  assumes "\<And>u d'. f d = Ok (u, d') \<Longrightarrow> \<exists>t. d' = d\<lparr> block_t := t \<rparr>"
  shows "\<exists>t. snd (run_tx f d) = d\<lparr> block_t := t \<rparr>"
proof (cases "f d")
  case (Ok p)
  then show ?thesis using assms by (cases p) auto
qed (auto intro: exI[of _ "block_t d"])

lemma process_submitted_frame: "\<exists>t. snd (process_submitted tr now blk v d) = d\<lparr> block_t := t \<rparr>"
proof -
  have same: "\<exists>t. d = d\<lparr> block_t := t \<rparr>" by (rule exI[of _ "block_t d"]) simp
  have a: "\<exists>t. snd (run_tx (mark_confirmed_blue now h None) d) = d\<lparr> block_t := t \<rparr>" for h
    unfolding mark_confirmed_blue_def by (rule run_tx_frame) (rule block_update_frame)
  have b: "\<exists>t. snd (run_tx (mark_orphaned h) d) = d\<lparr> block_t := t \<rparr>" for h
    unfolding mark_orphaned_def by (rule run_tx_frame) (rule block_update_frame)
  have c: "\<exists>t. snd (st_bind (st_map_err TrackerDb p) (\<lambda>_ d. (Ok out, d))) = d\<lparr> block_t := t \<rparr>"
    if "\<exists>t. snd p = d\<lparr> block_t := t \<rparr>" for p :: "(DbError, unit) outcome \<times> db" and out :: BlockOutcome
    using that by (cases p; cases "fst p") auto
  show ?thesis
  proof (cases "bytes_to_hash (blk_hash blk)")
    case None
    then show ?thesis using same by (simp add: process_submitted_def)
  next
    case (Some h)
    show ?thesis
    proof (cases "get_block_color (mt_kaspad tr) h")
      case (Ok color)
      then show ?thesis using Some same c[OF a] c[OF b] by (cases color) (simp_all add: process_submitted_def)
    qed (use Some same in \<open>simp_all add: process_submitted_def\<close>)
  qed
qed

lemma sweep_blocks_frame:
  assumes "sweep_blocks tr now v stats d = (m, d')"
  shows "\<exists>t. d' = d\<lparr> block_t := t \<rparr>"
  using assms unfolding sweep_blocks_def
proof (rule for_each_invariant)
  show "\<exists>t. d = d\<lparr> block_t := t \<rparr>" by (rule exI[of _ "block_t d"]) simp
next
  fix x e
  assume "\<exists>t. e = d\<lparr> block_t := t \<rparr>"
  then show "\<exists>t. snd (process_submitted tr now x v e) = d\<lparr> block_t := t \<rparr>"
    using process_submitted_frame[of tr now x v e] by auto
qed

text \<open>What a recorded row says of the output it was made from.\<close>

definition matured_key :: "MaturityTracker \<Rightarrow> int \<Rightarrow> CoinbaseUtxo list \<Rightarrow> int \<times> hash_bytes \<times> int \<times> int \<times> int \<Rightarrow> bool" where
  "matured_key tr v utxos k \<longleftrightarrow>
     (\<exists>u \<in> set utxos. cu_block_daa_score u + mc_coinbase_maturity (mt_cfg tr) \<le> v \<and>
        mc_coinbase_min_daa_score (mt_cfg tr) \<le> cu_block_daa_score u \<and>
        snd k = (cu_transaction_id u, u32_as_i32 (cu_index u), cu_amount_sompi u, u64_as_i64 (cu_block_daa_score u)))"

definition grown :: "MaturityTracker \<Rightarrow> int \<Rightarrow> CoinbaseUtxo list \<Rightarrow> db \<Rightarrow> db \<Rightarrow> bool" where
  "grown tr v utxos d d' \<longleftrightarrow> (\<exists>new. reward_keys d' = reward_keys d @ new \<and> list_all (matured_key tr v utxos) new)"

lemma is_mature_depth: "is_mature v b m \<Longrightarrow> b + m \<le> v"
  by (auto simp: is_mature_def checked_def split: option.splits if_splits)

lemma record_utxo_cases:
  assumes "record_utxo tr now v u d = (m, d')"
  obtains (same) "d' = d" "\<forall>out. m \<noteq> Ok (Recorded out)"
  | (recorded) i out where "m = Ok (Recorded out)"
      "is_mature v (cu_block_daa_score u) (mc_coinbase_maturity (mt_cfg tr))"
      "mc_coinbase_min_daa_score (mt_cfg tr) \<le> cu_block_daa_score u" "cu_amount_sompi u \<le> i64_max"
      "reward_ensure now (cu_transaction_id u) (cu_index u) (cu_amount_sompi u) (cu_block_daa_score u) d = Ok ((i, out), d')"
proof (cases "is_mature v (cu_block_daa_score u) (mc_coinbase_maturity (mt_cfg tr)) \<and>
    mc_coinbase_min_daa_score (mt_cfg tr) \<le> cu_block_daa_score u \<and> in_i64 (cu_amount_sompi u)")
  case False
  then show thesis using assms
    by (intro same) (auto simp: record_utxo_def checked_def not_less split: if_splits)
next
  case True
  then have ch: "checked i64_min i64_max (cu_amount_sompi u) = Some (cu_amount_sompi u)" "cu_amount_sompi u \<le> i64_max"
    by (simp_all add: checked_def in_range_def)
  show thesis
  proof (cases "reward_ensure now (cu_transaction_id u) (cu_index u) (cu_amount_sompi u) (cu_block_daa_score u) d")
    case (Ok p)
    obtain i out d1 where p: "p = ((i, out), d1)" by (cases p) auto
    show thesis using assms True ch Ok p by (intro recorded[of out i]) (simp_all add: record_utxo_def not_less)
  qed (use assms True ch in \<open>auto simp: record_utxo_def not_less intro!: same\<close>)
qed

lemma record_utxo_step:
  assumes "ledger_ok d" and "u \<in> set utxos"
  shows "ledger_ok (snd (record_utxo tr now v u d)) \<and> grown tr v utxos d (snd (record_utxo tr now v u d))"
proof -
  obtain m d' where r: "record_utxo tr now v u d = (m, d')" by (cases "record_utxo tr now v u d")
  from r show ?thesis
  proof (cases rule: record_utxo_cases)
    case same
    then show ?thesis using assms r by (auto simp: grown_def intro!: exI[of _ "[]"])
  next
    case (recorded i out)
    note l = reward_ensure_ledger[OF assms(1) recorded(5,4)]
    from recorded(5) have "grown tr v utxos d d'"
    proof (cases rule: reward_ensure_cases)
      case (existed x)
      then show ?thesis by (auto simp: grown_def tbl_simps intro!: exI[of _ "[]"])
    next
      case (inserted mk)
      have "matured_key tr v utxos (reward_key (mk (nextval (reward_t d))))"
        using is_mature_depth[OF recorded(2)] recorded(3) assms(2) inserted(3)
        by (auto simp: matured_key_def reward_key_def)
      then show ?thesis using inserted(2)
        by (auto simp: grown_def tbl_simps intro!: exI[of _ "[reward_key (mk (nextval (reward_t d)))]"])
    qed
    with l r show ?thesis by simp
  qed
qed

lemma grown_trans: "grown tr v utxos d1 d2 \<Longrightarrow> grown tr v utxos d2 d3 \<Longrightarrow> grown tr v utxos d1 d3"
  unfolding grown_def by fastforce

lemma record_all_step:
  assumes "for_each (record_utxo tr now v) tally_discovery utxos stats d = (m, d')" and "ledger_ok d"
  shows "ledger_ok d' \<and> grown tr v utxos d d'"
  using assms(1)
proof (rule for_each_invariant)
  show "ledger_ok d \<and> grown tr v utxos d d" using assms(2) by (simp add: grown_def)
next
  fix u e
  assume "u \<in> set utxos" "ledger_ok e \<and> grown tr v utxos d e"
  then show "ledger_ok (snd (record_utxo tr now v u e)) \<and> grown tr v utxos d (snd (record_utxo tr now v u e))"
    using record_utxo_step grown_trans by blast
qed

lemma allocate_reward_eq:
  assumes "reward_key r = reward_key r0"
  shows "allocate_reward tr now r d = allocate_reward tr now r0 d"
  using assms by (simp add: allocate_reward_def reward_key_def)

lemma allocate_reward_step:
  assumes "ledger_ok d" and "reward_key r \<in> set (reward_keys d)" and "FeeConfig_ok (ae_fee (mt_engine tr))"
  shows "ledger_ok (snd (allocate_reward tr now r d)) \<and> reward_keys (snd (allocate_reward tr now r d)) = reward_keys d"
proof -
  obtain r0 where r0: "r0 \<in> set (rows (reward_t d))" "reward_key r = reward_key r0" using assms(2) by auto
  define s where "s = saturating 0 u64_max (i64_as_u64 (cr_block_daa_score r0) - mc_window_daa_span (mt_cfg tr))"
  obtain m d' where al: "allocate_coinbase_reward (mt_engine tr) now (cr_id r0) (cr_amount_sompi r0) s
      (i64_as_u64 (cr_block_daa_score r0)) d = (m, d')" by fastforce
  have "snd (allocate_reward tr now r0 d) = d'"
    unfolding allocate_reward_def Let_def s_def[symmetric] al by simp
  then show ?thesis using allocate_ledger[OF assms(1) r0(1) assms(3) al] allocate_reward_eq[OF r0(2)] by simp
qed

lemma list_unallocated_subset: "set (reward_list_unallocated n d) \<subseteq> set (rows (reward_t d))"
  by (auto simp: reward_list_unallocated_def select_where_def dest!: in_set_takeD)

lemma allocate_all_step:
  assumes "for_each (allocate_reward tr now) tally_allocation (reward_list_unallocated n d) stats d = (m, d')"
    and "ledger_ok d" and "FeeConfig_ok (ae_fee (mt_engine tr))"
  shows "ledger_ok d' \<and> reward_keys d' = reward_keys d"
  using assms(1)
proof (rule for_each_invariant)
  show "ledger_ok d \<and> reward_keys d = reward_keys d" using assms(2) by simp
next
  fix r e
  assume r: "r \<in> set (reward_list_unallocated n d)" and e: "ledger_ok e \<and> reward_keys e = reward_keys d"
  have "reward_key r \<in> set (reward_keys e)" using r e list_unallocated_subset by fastforce
  then show "ledger_ok (snd (allocate_reward tr now r e)) \<and> reward_keys (snd (allocate_reward tr now r e)) = reward_keys d"
    using allocate_reward_step[of e r tr now] e assms(3) by simp
qed

section \<open>Facts on a sweep\<close>

lemma run_once_cases:
  assumes "run_once tr now d = (m, d')"
  obtains (no_score) "d' = d" "\<forall>x. m \<noteq> Ok x"
  | (blocks) v t where "get_virtual_daa_score (mt_kaspad tr) = Ok v" "d' = d\<lparr> block_t := t \<rparr>" "\<forall>x. m \<noteq> Ok x"
  | (recorded) v t utxos stats m1 where "get_virtual_daa_score (mt_kaspad tr) = Ok v"
      "get_pool_coinbase_utxos (mt_kaspad tr) = Ok utxos"
      "for_each (record_utxo tr now v) tally_discovery utxos stats (d\<lparr> block_t := t \<rparr>) = (m1, d')"
      "\<forall>x. m \<noteq> Ok x"
  | (swept) v t utxos stats stats1 d1 where "get_virtual_daa_score (mt_kaspad tr) = Ok v"
      "get_pool_coinbase_utxos (mt_kaspad tr) = Ok utxos"
      "sweep_blocks tr now v SweepStats_default d = (Ok stats, d\<lparr> block_t := t \<rparr>)"
      "for_each (record_utxo tr now v) tally_discovery utxos stats (d\<lparr> block_t := t \<rparr>) = (Ok stats1, d1)"
      "for_each (allocate_reward tr now) tally_allocation
         (reward_list_unallocated (mc_batch_size (mt_cfg tr)) d1) stats1 d1 = (m, d')"
proof (cases "get_virtual_daa_score (mt_kaspad tr)")
  case (Ok v)
  obtain mb db where b: "sweep_blocks tr now v SweepStats_default d = (mb, db)" by fastforce
  obtain t where t: "db = d\<lparr> block_t := t \<rparr>" using sweep_blocks_frame[OF b] by blast
  show thesis
  proof (cases mb)
    case mb: (Ok stats)
    show thesis
    proof (cases "get_pool_coinbase_utxos (mt_kaspad tr)")
      case u: (Ok utxos)
      obtain m1 d1 where r: "for_each (record_utxo tr now v) tally_discovery utxos stats db = (m1, d1)" by fastforce
      show thesis
      proof (cases m1)
        case m1: (Ok stats1)
        show thesis
          by (rule swept[OF Ok u]) (use assms Ok b mb u r m1 t in \<open>simp_all add: run_once_def sweep_rewards_def\<close>)
      qed (rule recorded[OF Ok u], use assms Ok b mb u r t in \<open>auto simp: run_once_def sweep_rewards_def\<close>)+
    qed (rule blocks[OF Ok], use assms Ok b mb t in \<open>auto simp: run_once_def sweep_rewards_def\<close>)+
  qed (rule blocks[OF Ok], use assms Ok b t in \<open>auto simp: run_once_def\<close>)+
qed (rule no_score, use assms in \<open>auto simp: run_once_def\<close>)+

lemma ledger_ok_block: "ledger_ok (d\<lparr> block_t := t \<rparr>) \<longleftrightarrow> ledger_ok d"
  by (rule ledger_ok_cong) simp_all

lemma run_once_step:
  assumes "ledger_ok d" and "FeeConfig_ok (ae_fee (mt_engine tr))" and "run_once tr now d = (m, d')"
  shows "ledger_ok d' \<and> (reward_keys d' = reward_keys d \<or>
    (\<exists>v utxos. get_virtual_daa_score (mt_kaspad tr) = Ok v \<and> get_pool_coinbase_utxos (mt_kaspad tr) = Ok utxos \<and>
       grown tr v utxos d d'))"
  using assms(3)
proof (cases rule: run_once_cases)
  case no_score
  then show ?thesis using assms by simp
next
  case (blocks v t)
  then show ?thesis using assms by (simp add: ledger_ok_block)
next
  case (recorded v t utxos stats m1)
  then show ?thesis
    using record_all_step[OF recorded(3)] assms(1) by (auto simp: ledger_ok_block grown_def)
next
  case (swept v t utxos stats stats1 d1)
  have "ledger_ok d1 \<and> grown tr v utxos d d1"
    using record_all_step[OF swept(4)] assms(1) by (simp add: ledger_ok_block grown_def)
  with allocate_all_step[OF swept(5) _ assms(2)] have "ledger_ok d' \<and> grown tr v utxos d d'"
    by (simp add: grown_def)
  with swept(1,2) show ?thesis by blast
qed

text \<open>A reward that is stamped stays stamped, and a successful allocation
  leaves it stamped.\<close>

definition stamped :: "int \<Rightarrow> db \<Rightarrow> bool" where
  "stamped i d \<longleftrightarrow> (\<exists>r \<in> set (rows (reward_t d)). cr_id r = i \<and> cr_allocated_at r \<noteq> None)"

lemma stamped_cong: "reward_t d' = reward_t d \<Longrightarrow> stamped i d' = stamped i d"
  by (simp add: stamped_def)

lemma stamped_mark_row: "reward_t d' = mark_row now rid d \<Longrightarrow> stamped i d \<Longrightarrow> stamped i d'"
proof -
  assume t: "reward_t d' = mark_row now rid d" and "stamped i d"
  then obtain r where r: "r \<in> set (rows (reward_t d))" "cr_id r = i" "cr_allocated_at r \<noteq> None"
    by (auto simp: stamped_def)
  let ?g = "\<lambda>r. if cr_id r = rid then r\<lparr> cr_allocated_at := coalesce (cr_allocated_at r) now \<rparr> else r"
  have "?g r \<in> set (rows (reward_t d'))" unfolding t rows_mark_row set_map using r(1) by (rule imageI)
  then show "stamped i d'" unfolding stamped_def by (rule bexI[rotated]) (use r in \<open>simp add: coalesce_def\<close>)
qed

lemma lock_stamped_iff: "lock_for_allocation i d = Some row \<Longrightarrow> cr_allocated_at row \<noteq> None \<Longrightarrow> stamped i d"
  by (auto simp: stamped_def lock_for_allocation_def dest: find_where_Some)

lemma stamps_stamped: "stamps i now d d' \<Longrightarrow> stamped i d'"
  by (auto simp: stamps_def split: option.splits intro!: lock_stamped_iff)

lemma gated_stamped:
  assumes "run_tx (gated_on_reward rid k) d = (Ok out, d')" and "out \<noteq> AlreadyAllocated \<Longrightarrow> stamps rid now d d'"
    and "\<And>d1. k d \<noteq> Ok (AlreadyAllocated, d1)"
  shows "stamped rid d'"
proof (cases "out = AlreadyAllocated")
  case True
  show ?thesis
  proof (cases "lock_for_allocation rid d")
    case None
    then show ?thesis using assms(1) by (simp add: gated_on_reward_def)
  next
    case (Some row)
    show ?thesis
    proof (cases "cr_allocated_at row = None")
      case none: True
      have "k d = Ok (out, d')"
        using assms(1) Some none by (simp add: gated_on_reward_def split: outcome.splits prod.splits)
      with True assms(3) show ?thesis by blast
    next
      case False
      then show ?thesis using assms(1) gated_allocated[OF Some False, of k] lock_stamped_iff[OF Some] by simp
    qed
  qed
qed (use assms(2) stamps_stamped in blast)

lemma allocate_stamped:
  assumes "allocate_coinbase_reward en now rid reward daa_start daa_end d = (Ok out, d')"
  shows "stamped rid d'"
  using assms
proof (cases rule: allocate_tail)
  case (1 t)
  then show ?thesis by simp
next
  case (2 t)
  show ?thesis
    by (rule gated_stamped[OF 2[unfolded finalise_empty_def]])
      (use finalise_empty_stamps[OF 2] in \<open>auto simp: mark_allocated_def audit_append_def\<close>)
next
  case (3 t residue tw ws allocs)
  show ?thesis
    by (rule gated_stamped[OF 3[unfolded finalise_def]])
      (use finalise_stamps[OF 3] in \<open>auto simp: outcome_simps mark_allocated_def audit_append_def Let_def\<close>)
qed

lemma allocate_reward_Ok:
  assumes "allocate_reward tr now r d = (Ok out, d')"
  shows "stamped (cr_id r) d'" and "stamped i d \<Longrightarrow> stamped i d'"
proof -
  define s where "s = saturating 0 u64_max (i64_as_u64 (cr_block_daa_score r) - mc_window_daa_span (mt_cfg tr))"
  obtain m d1 where al: "allocate_coinbase_reward (mt_engine tr) now (cr_id r) (cr_amount_sompi r) s
      (i64_as_u64 (cr_block_daa_score r)) d = (m, d1)" by fastforce
  have "st_map_err TrackerEngine (m, d1) = (Ok out, d')"
    using assms unfolding allocate_reward_def Let_def s_def[symmetric] al by simp
  then have m: "m = Ok out" "d1 = d'" by (cases m; simp)+
  show "stamped (cr_id r) d'" using allocate_stamped[OF al[unfolded m]] .
  assume st: "stamped i d"
  from al[unfolded m] show "stamped i d'"
    by (cases rule: allocate_result) (use st stamped_cong[of d' d] stamped_mark_row[of d' now _ d] in auto)
qed

lemma tally_errors [simp]:
  "ss_errors (tally_block b s) = ss_errors s" "ss_errors (tally_discovery c s) = ss_errors s"
  "ss_errors (tally_allocation a s) = ss_errors s"
  by (simp_all add: tally_block_def tally_discovery_def tally_allocation_def
      split: BlockOutcome.split Discovery.split EnsureOutcome.split AllocationOutcome.split)

section \<open>Properties\<close>

text \<open>C4. A sweep records a reward only for a coinbase output that the node
  reported in this sweep, that is at least the coinbase maturity deep and not
  below the cutover floor, with the output's own outpoint, amount and score.
  Rows recorded earlier keep their identity, amount and place, whatever fails
  during the sweep.\<close>

theorem sweep_records_only_matured:
  assumes "ledger_ok d" and "FeeConfig_ok (ae_fee (mt_engine tr))" and "run_once tr now d = (m, d')"
  shows "reward_keys d' = reward_keys d \<or>
    (\<exists>v utxos new. get_virtual_daa_score (mt_kaspad tr) = Ok v \<and> get_pool_coinbase_utxos (mt_kaspad tr) = Ok utxos \<and>
       reward_keys d' = reward_keys d @ new \<and>
       list_all (\<lambda>k. \<exists>u \<in> set utxos. cu_block_daa_score u + mc_coinbase_maturity (mt_cfg tr) \<le> v \<and>
         mc_coinbase_min_daa_score (mt_cfg tr) \<le> cu_block_daa_score u \<and>
         snd k = (cu_transaction_id u, u32_as_i32 (cu_index u), cu_amount_sompi u,
                  u64_as_i64 (cu_block_daa_score u))) new)"
  using run_once_step[OF assms] unfolding grown_def matured_key_def by blast


lemma record_utxo_errors_none:
  assumes "record_utxo tr now v u d = (Ok out, d')"
    and "is_mature v (cu_block_daa_score u) (mc_coinbase_maturity (mt_cfg tr))"
    and "mc_coinbase_min_daa_score (mt_cfg tr) \<le> cu_block_daa_score u"
  shows "\<exists>k \<in> set (reward_keys d'). fst (snd k) = cu_transaction_id u \<and> fst (snd (snd k)) = u32_as_i32 (cu_index u)"
  using assms(1)
proof (cases rule: record_utxo_cases)
  case same
  then show ?thesis using assms by (auto simp: record_utxo_def not_less split: option.splits prod.splits outcome.splits)
next
  case (recorded i out)
  from recorded(5) show ?thesis
  proof (cases rule: reward_ensure_cases)
    case (existed r)
    then show ?thesis by (intro bexI[of _ "reward_key r"]) (auto simp: reward_key_def tbl_simps)
  next
    case (inserted mk)
    then show ?thesis
      by (intro bexI[of _ "reward_key (mk (nextval (reward_t d)))"]) (auto simp: reward_key_def tbl_simps)
  qed
qed

lemma for_each_count:
  assumes "for_each f tally xs stats d = (m, d')" and "\<And>x d. \<mu> (snd (f x d)) \<le> \<mu> d + (1::nat)"
  shows "\<mu> d' \<le> \<mu> d + length xs"
  using assms(1)
proof (induction xs arbitrary: stats d)
  case (Cons x xs)
  obtain out d1 where f: "f x d = (out, d1)" by (cases "f x d")
  have one: "\<mu> d1 \<le> \<mu> d + 1" using assms(2)[of x d] f by simp
  show ?case
  proof (cases out)
    case (Ok o1)
    then show ?thesis using Cons.prems f one Cons.IH[of "tally o1 stats" d1] by simp
  next
    case (Err e)
    then show ?thesis using Cons.prems f one Cons.IH[of "stats\<lparr> ss_errors := ss_errors stats + 1 \<rparr>" d1] by simp
  next
    case Panic
    then show ?thesis using Cons.prems f one by simp
  qed
qed simp

lemma record_utxo_rows:
  "length (rows (reward_t (snd (record_utxo tr now v u d)))) \<le> length (rows (reward_t d)) + 1"
proof -
  obtain m d' where r: "record_utxo tr now v u d = (m, d')" by (cases "record_utxo tr now v u d")
  from r show ?thesis
  proof (cases rule: record_utxo_cases)
    case same
    with r show ?thesis by simp
  next
    case (recorded i out)
    from recorded(5) show ?thesis
      by (cases rule: reward_ensure_cases) (use r in \<open>simp_all add: tbl_simps\<close>)
  qed
qed

lemma list_unallocated_all:
  assumes "r \<in> set (rows (reward_t d))" and "cr_allocated_at r = None" and "int (length (rows (reward_t d))) \<le> n"
  shows "r \<in> set (reward_list_unallocated n d)"
proof -
  have "length (select_where (\<lambda>r. cr_allocated_at r = None) (reward_t d)) \<le> length (rows (reward_t d))"
    by (simp add: select_where_def)
  then have "length (select_where (\<lambda>r. cr_allocated_at r = None) (reward_t d)) \<le> nat n"
    using assms(3) by linarith
  then show ?thesis using assms(1,2) by (simp add: reward_list_unallocated_def select_where_def)
qed

lemma keyed_stamped:
  assumes "keyed cr_id (reward_t d)" and "stamped (cr_id r) d" and "r \<in> set (rows (reward_t d))"
  shows "cr_allocated_at r \<noteq> None"
proof -
  obtain r' where r': "r' \<in> set (rows (reward_t d))" "cr_id r' = cr_id r" "cr_allocated_at r' \<noteq> None"
    using assms(2) unfolding stamped_def by blast
  have "Some r' = Some r" using find_where_key[OF assms(1) r'(1)] find_where_key[OF assms(1,3)] unfolding r'(2) by (rule trans[OF sym])
  with r'(3) show ?thesis by simp
qed

lemma all_recorded:
  assumes "for_each (record_utxo tr now v) tally_discovery utxos stats d = (Ok s', d')"
    and "ss_errors s' = ss_errors stats" and "ledger_ok d"
  shows "\<forall>u \<in> set utxos. is_mature v (cu_block_daa_score u) (mc_coinbase_maturity (mt_cfg tr)) \<and>
      mc_coinbase_min_daa_score (mt_cfg tr) \<le> cu_block_daa_score u \<longrightarrow>
    (\<exists>k \<in> set (reward_keys d'). fst (snd k) = cu_transaction_id u \<and> fst (snd (snd k)) = u32_as_i32 (cu_index u))"
proof -
  let ?R = "\<lambda>u d. is_mature v (cu_block_daa_score u) (mc_coinbase_maturity (mt_cfg tr)) \<and>
      mc_coinbase_min_daa_score (mt_cfg tr) \<le> cu_block_daa_score u \<longrightarrow>
    (\<exists>k \<in> set (reward_keys d). fst (snd k) = cu_transaction_id u \<and> fst (snd (snd k)) = u32_as_i32 (cu_index u))"
  have "ledger_ok d' \<and> (\<forall>u \<in> {} \<union> set utxos. ?R u d')"
  proof (rule for_each_clean[where P = ledger_ok and R = ?R, OF assms(1,2) tally_errors(2) assms(3)])
    fix u e out e'
    assume u: "u \<in> set utxos" "ledger_ok e" and r: "record_utxo tr now v u e = (Ok out, e')"
    have "ledger_ok e'" using record_utxo_step[OF u(2,1), of tr now v] r by simp
    moreover have "?R u e'" using record_utxo_errors_none[OF r] by blast
    ultimately show "ledger_ok e' \<and> ?R u e'" by blast
  next
    fix u w e out e'
    assume u: "u \<in> set utxos" "ledger_ok e" and r: "record_utxo tr now v u e = (Ok out, e')" and w: "?R w e"
    have "grown tr v utxos e e'" using record_utxo_step[OF u(2,1), of tr now v] r by simp
    then obtain new where "reward_keys e' = reward_keys e @ new" by (auto simp: grown_def)
    then have "set (reward_keys e) \<subseteq> set (reward_keys e')" by (simp only: set_append Un_upper1)
    with w show "?R w e'" by blast
  qed simp
  then show ?thesis by simp
qed

lemma all_stamped:
  assumes loop: "for_each (allocate_reward tr now) tally_allocation (reward_list_unallocated n d) stats d = (Ok s', d')"
    and er: "ss_errors s' = ss_errors stats" and ok: "ledger_ok d" and cfg: "FeeConfig_ok (ae_fee (mt_engine tr))"
    and n: "int (length (rows (reward_t d))) \<le> n" and r: "r \<in> set (rows (reward_t d'))"
  shows "cr_allocated_at r \<noteq> None"
proof -
  note fin = allocate_all_step[OF loop ok cfg]
  let ?A = "{x \<in> set (rows (reward_t d)). cr_allocated_at x \<noteq> None}"
  let ?P = "\<lambda>e. ledger_ok e \<and> reward_keys e = reward_keys d"
  have "?P d' \<and> (\<forall>x \<in> ?A \<union> set (reward_list_unallocated n d). stamped (cr_id x) d')"
  proof (rule for_each_clean[where P = ?P and R = "\<lambda>x. stamped (cr_id x)", OF loop er tally_errors(3)])
    show "?P d" using ok by simp
    show "\<forall>x \<in> ?A. stamped (cr_id x) d" by (auto simp: stamped_def)
  next
    fix x e out e'
    assume x: "x \<in> set (reward_list_unallocated n d)" and e: "?P e" and al: "allocate_reward tr now x e = (Ok out, e')"
    have "reward_key x \<in> set (reward_keys e)" using x e list_unallocated_subset by fastforce
    then have "?P e'" using allocate_reward_step[of e x tr now] e cfg al by simp
    with allocate_reward_Ok(1)[OF al] show "?P e' \<and> stamped (cr_id x) e'" by blast
  next
    fix x y e out e'
    assume "allocate_reward tr now x e = (Ok out, e')" "stamped (cr_id y) e"
    then show "stamped (cr_id y) e'" by (rule allocate_reward_Ok(2))
  qed
  then have st: "stamped (cr_id x) d'" if "x \<in> set (rows (reward_t d))" for x
    using list_unallocated_all[OF that _ n] that by (cases "cr_allocated_at x") auto
  have "reward_key r \<in> set (reward_keys d)" using r fin by (metis imageI list.set_map)
  then obtain x where "x \<in> set (rows (reward_t d))" "cr_id x = cr_id r" by (auto simp: reward_key_def)
  with st have "stamped (cr_id r) d'" by metis
  with fin r show ?thesis using keyed_stamped ledger_okD(1) by blast
qed


section \<open>Witnesses\<close>

text \<open>A node with one output that is mature and one that is not.\<close>

definition demo_utxo :: "8 word \<Rightarrow> int \<Rightarrow> CoinbaseUtxo" where
  "demo_utxo b daa = \<lparr> cu_transaction_id = replicate 32 b, cu_index = 0, cu_amount_sompi = 500, cu_block_daa_score = daa \<rparr>"

definition demo_tracker :: MaturityTracker where
  "demo_tracker = \<lparr> mt_kaspad = \<lparr> get_virtual_daa_score = Ok 2000, get_block_color = (\<lambda>_. Err KaspadTransport),
       get_pool_coinbase_utxos = Ok [demo_utxo 7 150, demo_utxo 8 1500] \<rparr>,
     mt_engine = demo_engine, mt_cfg = MaturityConfig_default \<rparr>"

lemma demo_ledger: "ledger_ok (demo_db None)"
  by (rule ledger_okI)
    (simp_all add: demo_db_def keyed_def demo_reward_def reward_settled_def allocations_of_def nacho_of_def accrued_def
      rebate_get_def find_where_def empty_db_def empty_tbl_def)

lemma demo_sweep:
  "fst (run_once demo_tracker 9 (demo_db None)) =
     Ok (SweepStats_default\<lparr> ss_rewards_discovered := 1, ss_rewards_allocated := 2 \<rparr>)"
  by code_simp

lemma demo_fee: "FeeConfig_ok (ae_fee (mt_engine demo_tracker))"
  by (simp add: demo_tracker_def demo_engine_def FeeConfig_ok_def)

theorem sweep_records_only_matured_witness:
  "ledger_ok (demo_db None) \<and> fst (run_once demo_tracker 9 (demo_db None)) =
     Ok (SweepStats_default\<lparr> ss_rewards_discovered := 1, ss_rewards_allocated := 2 \<rparr>) \<and>
   (\<exists>new. reward_keys (snd (run_once demo_tracker 9 (demo_db None))) = reward_keys (demo_db None) @ new \<and>
     list_all (\<lambda>k. snd k = (replicate 32 7, 0, 500, 150)) new)"
proof -
  have i: "u32_as_i32 0 = 0" "u64_as_i64 150 = 150" by code_simp+
  from sweep_records_only_matured[OF demo_ledger demo_fee surjective_pairing, of 9]
  have "\<exists>new. reward_keys (snd (run_once demo_tracker 9 (demo_db None))) = reward_keys (demo_db None) @ new \<and>
     list_all (\<lambda>k. snd k = (replicate 32 7, 0, 500, 150)) new"
  proof
    assume "reward_keys (snd (run_once demo_tracker 9 (demo_db None))) = reward_keys (demo_db None)"
    then show ?thesis by (intro exI[of _ "[]"]) simp
  qed (auto simp: demo_tracker_def demo_utxo_def MaturityConfig_default_def DEFAULT_COINBASE_MATURITY_def i list_all_iff)
  then show ?thesis using demo_ledger demo_sweep by blast
qed



end
