(* ===== verification/Accounts.thy ===== *)
theory Accounts
  imports Window
begin

text \<open>
  The integrity of the tables the event consumer writes: identities, shares,
  rejections, blocks and sessions.  Identity rows only ever gain rows or move
  their last-seen time, so the invariant reads them through their keys.
\<close>

section \<open>Identity rows\<close>

definition wallet_key :: "Wallet \<Rightarrow> int \<times> string \<times> string" where
  "wallet_key w = (wal_id w, wal_network w, wal_address w)"

definition worker_key :: "Worker \<Rightarrow> int \<times> int \<times> string" where
  "worker_key w = (wkr_id w, wkr_wallet_id w, wkr_name w)"

abbreviation wallet_keys :: "db \<Rightarrow> (int \<times> string \<times> string) list" where
  "wallet_keys d \<equiv> map wallet_key (rows (wallet_t d))"

abbreviation worker_keys :: "db \<Rightarrow> (int \<times> int \<times> string) list" where
  "worker_keys d \<equiv> map worker_key (rows (worker_t d))"

text \<open>Distinct ids below the sequence, and distinct natural keys.\<close>

definition wallets_ok :: "(int \<times> string \<times> string) list \<Rightarrow> int \<Rightarrow> bool" where
  "wallets_ok ks n \<longleftrightarrow> distinct (map fst ks) \<and> distinct (map (\<lambda>(i, net, a). a) ks) \<and>
     (\<forall>(i, net, a) \<in> set ks. i < n \<and> wallet_check net a)"

definition workers_ok :: "(int \<times> string \<times> string) list \<Rightarrow> (int \<times> int \<times> string) list \<Rightarrow> int \<Rightarrow> bool" where
  "workers_ok ws ks n \<longleftrightarrow> distinct (map fst ks) \<and> distinct (map snd ks) \<and>
     (\<forall>(i, w, name) \<in> set ks. i < n \<and> worker_check name \<and> w \<in> fst ` set ws)"

definition owns :: "db \<Rightarrow> int \<Rightarrow> int \<Rightarrow> bool" where
  "owns d w k \<longleftrightarrow> (\<exists>name. (k, w, name) \<in> set (worker_keys d))"

definition identities_ok :: "db \<Rightarrow> bool" where
  "identities_ok d \<longleftrightarrow> wallets_ok (wallet_keys d) (nextval (wallet_t d)) \<and>
     workers_ok (wallet_keys d) (worker_keys d) (nextval (worker_t d))"

lemma wallet_find_key:
  "find_where (\<lambda>w. wal_address w = a) (wallet_t d) = None \<longleftrightarrow> a \<notin> (\<lambda>(i, net, a). a) ` set (wallet_keys d)"
  by (auto simp: find_where_None wallet_key_def image_iff)

lemma worker_find_key:
  "find_where (\<lambda>w. wkr_wallet_id w = i \<and> wkr_name w = n) (worker_t d) = None \<longleftrightarrow> (i, n) \<notin> snd ` set (worker_keys d)"
  by (auto simp: find_where_None worker_key_def image_iff)

lemma wallet_ensure_cases:
  assumes "wallet_ensure now a net d = Ok (w, d')"
  obtains (seen) t where "d' = d\<lparr> wallet_t := t \<rparr>" "map wallet_key (rows t) = wallet_keys d"
      "nextval t = nextval (wallet_t d) + 1" "wallet_key w \<in> set (wallet_keys d)" "wal_address w = a" "wallet_check net a"
  | (fresh) t where "d' = d\<lparr> wallet_t := t \<rparr>" "map wallet_key (rows t) = wallet_keys d @ [(nextval (wallet_t d), net, a)]"
      "nextval t = nextval (wallet_t d) + 1" "wallet_key w = (nextval (wallet_t d), net, a)" "wallet_check net a"
      "a \<notin> (\<lambda>(i, net, a). a) ` set (wallet_keys d)"
proof -
  have chk: "wallet_check net a" using assms by (auto simp: wallet_ensure_def split: if_splits)
  show thesis
  proof (cases "find_where (\<lambda>w. wal_address w = a) (wallet_t d)")
    case None
    note nokey = None[unfolded wallet_find_key]
    show thesis using assms chk None nokey
      by (intro fresh[of "insert_row (\<lambda>i. \<lparr> wal_id = i, wal_address = a, wal_network = net,
            wal_first_seen_at = now, wal_last_seen_at = now \<rparr>) (wallet_t d)"])
        (auto simp: wallet_ensure_def Let_def insert_row_def wallet_key_def)
  next
    case (Some w0)
    have m: "w0 \<in> set (rows (wallet_t d))" "wal_address w0 = a" using find_where_Some[OF Some] by auto
    show thesis using assms chk Some m
      by (intro seen[of "skip_id (update_where (\<lambda>w. wal_address w = a) (\<lambda>w. w\<lparr> wal_last_seen_at := now \<rparr>) (wallet_t d))"])
        (auto simp: wallet_ensure_def skip_id_def update_where_def wallet_key_def image_iff)
  qed
qed

lemma worker_ensure_cases:
  assumes "worker_ensure now i n d = Ok (k, d')"
  obtains (seen) t where "d' = d\<lparr> worker_t := t \<rparr>" "map worker_key (rows t) = worker_keys d"
      "nextval t = nextval (worker_t d) + 1" "worker_key k \<in> set (worker_keys d)" "wkr_wallet_id k = i" "wkr_name k = n"
      "worker_check n"
  | (fresh) t where "d' = d\<lparr> worker_t := t \<rparr>" "map worker_key (rows t) = worker_keys d @ [(nextval (worker_t d), i, n)]"
      "nextval t = nextval (worker_t d) + 1" "worker_key k = (nextval (worker_t d), i, n)" "worker_check n"
      "(i, n) \<notin> snd ` set (worker_keys d)" "i \<in> fst ` set (wallet_keys d)"
proof -
  have chk: "worker_check n" using assms by (auto simp: worker_ensure_def split: if_splits)
  show thesis
  proof (cases "find_where (\<lambda>w. wkr_wallet_id w = i \<and> wkr_name w = n) (worker_t d)")
    case None
    then have ex: "exists_where (\<lambda>w. wal_id w = i) (wallet_t d)"
      using assms chk by (auto simp: worker_ensure_def split: if_splits)
    then have "i \<in> fst ` set (wallet_keys d)"
      by (auto simp: exists_where_def list_ex_iff wallet_key_def image_iff)
    with None ex None[unfolded worker_find_key] show thesis using assms chk
      by (intro fresh[of "insert_row (\<lambda>j. \<lparr> wkr_id = j, wkr_wallet_id = i, wkr_name = n,
            wkr_first_seen_at = now, wkr_last_seen_at = now \<rparr>) (worker_t d)"])
        (auto simp: worker_ensure_def Let_def insert_row_def worker_key_def)
  next
    case (Some k0)
    have m: "k0 \<in> set (rows (worker_t d))" "wkr_wallet_id k0 = i" "wkr_name k0 = n" using find_where_Some[OF Some] by auto
    show thesis using assms chk Some m
      by (intro seen[of "skip_id (update_where (\<lambda>w. wkr_wallet_id w = i \<and> wkr_name w = n)
            (\<lambda>w. w\<lparr> wkr_last_seen_at := now \<rparr>) (worker_t d))"])
        (auto simp: worker_ensure_def skip_id_def update_where_def worker_key_def image_iff)
  qed
qed

lemma wallets_ok_mono: "wallets_ok ks n \<Longrightarrow> wallets_ok ks (n + 1)"
  by (force simp: wallets_ok_def)

lemma workers_ok_mono: "workers_ok ws ks n \<Longrightarrow> set ws \<subseteq> set ws' \<Longrightarrow> n \<le> n' \<Longrightarrow> workers_ok ws' ks n'"
  by (force simp: workers_ok_def)

lemma wallets_ok_snoc:
  "wallets_ok ks n \<Longrightarrow> wallet_check net a \<Longrightarrow> a \<notin> (\<lambda>(i, net, a). a) ` set ks \<Longrightarrow> wallets_ok (ks @ [(n, net, a)]) (n + 1)"
  by (force simp: wallets_ok_def)

lemma workers_ok_snoc:
  "workers_ok ws ks n \<Longrightarrow> worker_check name \<Longrightarrow> (w, name) \<notin> snd ` set ks \<Longrightarrow> w \<in> fst ` set ws \<Longrightarrow>
     workers_ok ws (ks @ [(n, w, name)]) (n + 1)"
  by (force simp: workers_ok_def)

text \<open>What an upsert of both identities does to the rest of the database.\<close>

definition identity_step :: "db \<Rightarrow> db \<Rightarrow> bool" where
  "identity_step d d' \<longleftrightarrow>
     (\<exists>wt kt ws ks. d' = d\<lparr> wallet_t := wt, worker_t := kt \<rparr> \<and>
        wallet_keys d' = wallet_keys d @ ws \<and> worker_keys d' = worker_keys d @ ks)"

lemma identity_step_refl: "identity_step d d"
  unfolding identity_step_def by (rule exI[of _ "wallet_t d"], rule exI[of _ "worker_t d"]) simp

lemma identity_step_owns: "identity_step d d' \<Longrightarrow> owns d w k \<Longrightarrow> owns d' w k"
  unfolding identity_step_def owns_def by (metis Un_iff set_append)

lemma wallet_ensure_step:
  assumes "wallet_ensure now a net d = Ok (w, d')" and "identities_ok d"
  shows "identities_ok d'" and "identity_step d d'" and "wallet_key w \<in> set (wallet_keys d')" and "wal_address w = a"
proof -
  from assms(1) have "identities_ok d' \<and> identity_step d d' \<and> wallet_key w \<in> set (wallet_keys d') \<and> wal_address w = a"
  proof (cases rule: wallet_ensure_cases)
    case (seen t)
    have "identities_ok d'" using assms(2) wallets_ok_mono by (simp add: identities_ok_def seen(1-3))
    moreover have "identity_step d d'"
      unfolding identity_step_def by (rule exI[of _ t], rule exI[of _ "worker_t d"]) (simp add: seen(1,2))
    ultimately show ?thesis using seen by simp
  next
    case (fresh t)
    have "identities_ok d'"
      using assms(2) wallets_ok_snoc[of "wallet_keys d" "nextval (wallet_t d)" net a]
        workers_ok_mono[of "wallet_keys d" "worker_keys d" "nextval (worker_t d)" "wallet_keys d @ [(nextval (wallet_t d), net, a)]"]
        fresh(5,6) by (simp add: identities_ok_def fresh(1-3) subset_insertI)
    moreover have "identity_step d d'"
      unfolding identity_step_def by (rule exI[of _ t], rule exI[of _ "worker_t d"]) (simp add: fresh(1,2))
    ultimately show ?thesis using fresh by (auto simp: wallet_key_def)
  qed
  then show "identities_ok d'" and "identity_step d d'" and "wallet_key w \<in> set (wallet_keys d')" and "wal_address w = a"
    by simp_all
qed

lemma worker_ensure_step:
  assumes "worker_ensure now i n d = Ok (k, d')" and "identities_ok d"
  shows "identities_ok d'" and "identity_step d d'" and "(wkr_id k, i, n) \<in> set (worker_keys d')"
    and "wallet_t d' = wallet_t d"
proof -
  from assms(1) have "identities_ok d' \<and> identity_step d d' \<and> (wkr_id k, i, n) \<in> set (worker_keys d') \<and> wallet_t d' = wallet_t d"
  proof (cases rule: worker_ensure_cases)
    case (seen t)
    have "identities_ok d'" using assms(2) workers_ok_mono[OF _ subset_refl, of "wallet_keys d" "worker_keys d" "nextval (worker_t d)" "nextval (worker_t d) + 1"]
      by (simp add: identities_ok_def seen(1-3))
    moreover have "identity_step d d'"
      unfolding identity_step_def by (rule exI[of _ "wallet_t d"], rule exI[of _ t]) (simp add: seen(1,2))
    moreover have "worker_key k = (wkr_id k, i, n)" using seen(5,6) by (simp add: worker_key_def)
    ultimately show ?thesis using seen(1,2,4) by simp
  next
    case (fresh t)
    have "identities_ok d'"
      using assms(2) workers_ok_snoc[of "wallet_keys d" "worker_keys d" "nextval (worker_t d)" n i] fresh(5-7)
      by (simp add: identities_ok_def fresh(1-3))
    moreover have "identity_step d d'"
      unfolding identity_step_def by (rule exI[of _ "wallet_t d"], rule exI[of _ t]) (simp add: fresh(1,2))
    ultimately show ?thesis using fresh by (simp add: worker_key_def)
  qed
  then show "identities_ok d'" and "identity_step d d'" and "(wkr_id k, i, n) \<in> set (worker_keys d')"
    and "wallet_t d' = wallet_t d" by simp_all
qed

lemma identity_step_trans: "identity_step d1 d2 \<Longrightarrow> identity_step d2 d3 \<Longrightarrow> identity_step d1 d3"
  unfolding identity_step_def by (elim exE conjE) (rule exI, rule exI, intro exI conjI; simp)

section \<open>The tables that refer to them\<close>

definition references_ok :: "db \<Rightarrow> bool" where
  "references_ok d \<longleftrightarrow>
     keyed sh_id (share_t d) \<and>
     list_all (\<lambda>s. share_check (sh_difficulty s) (sh_daa_score s) \<and> owns d (sh_wallet_id s) (sh_worker_id s)) (rows (share_t d)) \<and>
     keyed rej_id (reject_t d) \<and> list_all (\<lambda>r. owns d (rej_wallet_id r) (rej_worker_id r)) (rows (reject_t d)) \<and>
     keyed blk_id (block_t d) \<and> distinct (map blk_hash (rows (block_t d))) \<and>
     list_all (\<lambda>b. block_check b \<and> owns d (blk_finder_wallet_id b) (blk_finder_worker_id b)) (rows (block_t d)) \<and>
     keyed ses_id (session_t d) \<and>
     list_all (\<lambda>s. \<forall>k. ses_worker_id s = Some k \<longrightarrow> (\<exists>w. owns d w k)) (rows (session_t d))"

definition accounts_ok :: "db \<Rightarrow> bool" where
  "accounts_ok d \<longleftrightarrow> identities_ok d \<and> references_ok d"

lemma references_mono:
  assumes "references_ok d" and "\<And>w k. owns d w k \<Longrightarrow> owns d' w k"
    and "share_t d' = share_t d" "reject_t d' = reject_t d" "block_t d' = block_t d" "session_t d' = session_t d"
  shows "references_ok d'"
  using assms(1) unfolding references_ok_def assms(3-6) list_all_iff
  by (elim conjE, intro conjI) (assumption | blast intro: assms(2))+

lemma owns_cong: "worker_t d' = worker_t d \<Longrightarrow> owns d' w k = owns d w k"
  by (simp add: owns_def)

lemma identity_step_accounts:
  assumes "identity_step d d'" and "identities_ok d'" and "accounts_ok d"
  shows "accounts_ok d'"
proof -
  obtain wt kt where d': "d' = d\<lparr> wallet_t := wt, worker_t := kt \<rparr>" using assms(1) by (auto simp: identity_step_def)
  have "references_ok d'"
    by (rule references_mono[OF _ identity_step_owns[OF assms(1)]]) (use assms(3) d' in \<open>simp_all add: accounts_ok_def\<close>)
  with assms(2) show ?thesis by (simp add: accounts_ok_def)
qed

text \<open>Inserts into the referring tables.\<close>

lemma insert_credited_Ok:
  assumes "insert_credited now w k None diff daa cid d = Ok (i, d')"
  obtains s where "d' = d\<lparr> share_t := \<lparr> rows = rows (share_t d) @ [s], nextval = nextval (share_t d) + 1 \<rparr> \<rparr>"
    "sh_id s = nextval (share_t d)" "sh_wallet_id s = w" "sh_worker_id s = k" "sh_difficulty s = diff"
    "sh_daa_score s = u64_as_i64 daa" "sh_correlation_id s = cid" "share_check diff (u64_as_i64 daa)"
  using assms by (auto simp: insert_credited_def Let_def insert_row_def split: if_splits)

lemma insert_credited_accounts:
  assumes "insert_credited now w k None diff daa cid d = Ok (i, d')" and "accounts_ok d" and "owns d w k"
  shows "accounts_ok d'"
proof -
  from assms(1) obtain s where d': "d' = d\<lparr> share_t := insert_row (\<lambda>_. s) (share_t d) \<rparr>"
    and s: "sh_id s = nextval (share_t d)" "sh_wallet_id s = w" "sh_worker_id s = k" "sh_difficulty s = diff"
      "sh_daa_score s = u64_as_i64 daa" "share_check diff (u64_as_i64 daa)"
    by (rule insert_credited_Ok) (simp add: insert_row_def)
  have own: "owns d' = owns d" by (intro ext owns_cong) (simp add: d')
  have "keyed sh_id (share_t d')"
    using assms(2) s(1) unfolding d' by (simp add: accounts_ok_def references_ok_def keyed_insert_row)
  then show ?thesis
    using assms(2,3) s unfolding accounts_ok_def references_ok_def own
    by (simp add: d' identities_ok_def tbl_simps)
qed

lemma reject_insert_accounts:
  assumes "share_reject_insert now w k reason cid d = Ok (i, d')" and "accounts_ok d" and "owns d w k"
  shows "accounts_ok d' \<and> share_t d' = share_t d \<and> wallet_t d' = wallet_t d \<and> worker_t d' = worker_t d"
proof -
  from assms(1) obtain s where d': "d' = d\<lparr> reject_t := insert_row (\<lambda>_. s) (reject_t d) \<rparr>"
    and s: "rej_id s = nextval (reject_t d)" "rej_wallet_id s = w" "rej_worker_id s = k"
    by (auto simp: share_reject_insert_def Let_def insert_row_def split: if_splits)
  have own: "owns d' = owns d" by (intro ext owns_cong) (simp add: d')
  have "keyed rej_id (reject_t d')"
    using assms(2) s(1) unfolding d' by (simp add: accounts_ok_def references_ok_def keyed_insert_row)
  then show ?thesis
    using assms(2,3) s unfolding accounts_ok_def references_ok_def own
    by (simp add: d' identities_ok_def tbl_simps)
qed

lemma block_ensure_accounts:
  assumes "block_ensure now h w k daa nonce cid d = Ok (r, d')" and "accounts_ok d" and "owns d w k"
  shows "accounts_ok d' \<and> share_t d' = share_t d \<and> wallet_t d' = wallet_t d \<and> worker_t d' = worker_t d"
proof (cases "find_where (\<lambda>b. blk_hash b = h) (block_t d)")
  case (Some b)
  then have d': "d' = d\<lparr> block_t := skip_id (block_t d) \<rparr>"
    using assms(1) by (auto simp: block_ensure_def Let_def split: if_splits)
  have own: "owns d' = owns d" by (intro ext owns_cong) (simp add: d')
  show ?thesis using assms(2) unfolding accounts_ok_def references_ok_def own
    by (simp add: d' identities_ok_def tbl_simps keyed_skip_id)
next
  case None
  define b where "b = new_block now h w k daa nonce cid (nextval (block_t d))"
  have d': "d' = d\<lparr> block_t := insert_row (\<lambda>_. b) (block_t d) \<rparr>" and chk: "block_check (new_block now h w k daa nonce cid 0)"
    using assms(1) None by (auto simp: block_ensure_def Let_def b_def insert_row_def split: if_splits)
  have b: "blk_id b = nextval (block_t d)" "blk_hash b = h" "block_check b"
      "blk_finder_wallet_id b = w" "blk_finder_worker_id b = k"
    using chk by (simp_all add: b_def new_block_def block_check_def)
  have "h \<notin> blk_hash ` set (rows (block_t d))" using None by (auto simp: find_where_None)
  moreover have own: "owns d' = owns d" by (intro ext owns_cong) (simp add: d')
  moreover have "keyed blk_id (block_t d')"
    using assms(2) b(1) unfolding d' by (simp add: accounts_ok_def references_ok_def keyed_insert_row)
  ultimately show ?thesis
    using assms(2,3) b unfolding accounts_ok_def references_ok_def own
    by (simp add: d' identities_ok_def tbl_simps)
qed

lemma block_update_accounts:
  assumes "block_update h allowed f d = Ok (u, d')" and "accounts_ok d"
    and "\<And>b. blk_id (f b) = blk_id b \<and> blk_hash (f b) = blk_hash b \<and> blk_finder_wallet_id (f b) = blk_finder_wallet_id b \<and>
      blk_finder_worker_id (f b) = blk_finder_worker_id b"
  shows "accounts_ok d' \<and> share_t d' = share_t d \<and> wallet_t d' = wallet_t d \<and> worker_t d' = worker_t d"
proof -
  let ?P = "\<lambda>b. blk_hash b = h \<and> blk_status b \<in> set allowed"
  have d': "d' = d\<lparr> block_t := update_where ?P f (block_t d) \<rparr>"
    and chk: "\<forall>b \<in> set (rows (block_t d)). ?P b \<longrightarrow> block_check (f b)"
    using assms(1) by (auto simp: block_update_def outcome_simps checked_update_Ok_iff)
  have own: "owns d' = owns d" by (intro ext owns_cong) (simp add: d')
  have "map blk_hash (rows (update_where ?P f (block_t d))) = map blk_hash (rows (block_t d))"
    using assms(3) by (auto simp: tbl_simps)
  then have "distinct (map blk_hash (rows (update_where ?P f (block_t d))))"
    using assms(2) by (simp add: accounts_ok_def references_ok_def)
  moreover have "list_all (\<lambda>b. block_check b \<and> owns d (blk_finder_wallet_id b) (blk_finder_worker_id b))
      (rows (update_where ?P f (block_t d)))"
    using assms(2,3) chk by (auto simp: accounts_ok_def references_ok_def rows_update_where list_all_iff)
  moreover have "keyed blk_id (update_where ?P f (block_t d))"
    using assms(2,3) by (intro keyed_update_where) (simp_all add: accounts_ok_def references_ok_def)
  ultimately show ?thesis
    using assms(2) unfolding accounts_ok_def references_ok_def own by (simp add: d' identities_ok_def)
qed

lemma session_insert_accounts:
  assumes "session_insert k ip app ctry t0 t1 d = Ok (i, d')" and "accounts_ok d"
    and "\<And>x. k = Some x \<Longrightarrow> \<exists>w. owns d w x"
  shows "accounts_ok d' \<and> share_t d' = share_t d \<and> wallet_t d' = wallet_t d \<and> worker_t d' = worker_t d \<and>
    i = nextval (session_t d)"
proof -
  define s where "s = \<lparr> ses_id = nextval (session_t d), ses_worker_id = k, ses_remote_ip = ip, ses_remote_app = app,
      ses_country = ctry, ses_connected_at = t0, ses_disconnected_at = t1, ses_shares_credited = 0,
      ses_shares_rejected = 0, ses_malformed_frames = 0 \<rparr>"
  have d': "d' = d\<lparr> session_t := insert_row (\<lambda>_. s) (session_t d) \<rparr>" and i: "i = nextval (session_t d)"
    using assms(1) by (auto simp: session_insert_def Let_def insert_row_def s_def simp del: not_None_eq split: if_split_asm)
  have s: "ses_id s = nextval (session_t d)" "ses_worker_id s = k" by (simp_all add: s_def)
  have own: "owns d' = owns d" by (intro ext owns_cong) (simp add: d')
  have "keyed ses_id (session_t d')"
    using assms(2) s(1) unfolding d' by (simp add: accounts_ok_def references_ok_def keyed_insert_row)
  moreover have "list_all (\<lambda>s. \<forall>k. ses_worker_id s = Some k \<longrightarrow> (\<exists>w. owns d w k)) (rows (session_t d'))"
    using assms(2,3) s(2) unfolding d' by (auto simp: accounts_ok_def references_ok_def list_all_iff rows_insert_row)
  ultimately show ?thesis
    using assms(2) i unfolding accounts_ok_def references_ok_def own by (simp add: d' identities_ok_def)
qed

lemma session_update_accounts:
  assumes "accounts_ok d" and "\<And>s. ses_id (f s) = ses_id s \<and> ses_worker_id (f s) = ses_worker_id s"
  shows "accounts_ok (d\<lparr> session_t := update_where P f (session_t d) \<rparr>)"
proof -
  let ?d = "d\<lparr> session_t := update_where P f (session_t d) \<rparr>"
  have own: "owns ?d = owns d" by (intro ext owns_cong) simp
  have "keyed ses_id (update_where P f (session_t d))"
    using assms by (intro keyed_update_where) (simp_all add: accounts_ok_def references_ok_def)
  moreover have "list_all (\<lambda>s. \<forall>k. ses_worker_id s = Some k \<longrightarrow> (\<exists>w. owns d w k)) (rows (update_where P f (session_t d)))"
    using assms by (auto simp: accounts_ok_def references_ok_def rows_update_where list_all_iff)
  ultimately show ?thesis
    using assms(1) unfolding accounts_ok_def references_ok_def own by (simp add: identities_ok_def)
qed

lemma accounts_ok_empty: "accounts_ok empty_db"
  by (simp add: accounts_ok_def identities_ok_def references_ok_def wallets_ok_def workers_ok_def empty_db_def empty_tbl_def keyed_def)

end
