(* ===== verification/Consumer.thy ===== *)
theory Consumer
  imports Accounts
begin

text \<open>
  The event consumer, \<open>src/accountant/src/consumer.rs\<close>: it drains the bridge's
  broadcast channel and writes every event to the schema.  \<open>now\<close> is the time
  of the event's transaction; \<open>fault\<close> is the error the connection pool gives
  during the event, if any.  The country resolver is a third-party reader and
  enters as a function.
\<close>

section \<open>Configuration and state\<close>

definition VALID_NETWORKS :: "string list" where
  "VALID_NETWORKS = [''mainnet'', ''testnet-10'', ''testnet-11'', ''devnet'', ''simnet'']"

record ConsumerConfig =
  cfg_instance_id :: string
  cfg_network :: string

datatype ConsumerConfigError = InvalidNetwork string "string list"

definition ConsumerConfig_new :: "string \<Rightarrow> string \<Rightarrow> (ConsumerConfigError, ConsumerConfig) outcome" where
  "ConsumerConfig_new instance_id network =
     (if network \<notin> set VALID_NETWORKS then Err (InvalidNetwork network VALID_NETWORKS)
      else Ok \<lparr> cfg_instance_id = instance_id, cfg_network = network \<rparr>)"

datatype EventError =
    WalletEnsure DbError
  | WorkerEnsure DbError
  | ShareInsert DbError
  | ShareRejectInsert DbError
  | UnknownRejectReason string
  | BlockEnsure DbError
  | BlockMarkSubmitted DbError
  | OrphanBlockAccepted string
  | SessionBadIp string
  | SessionRecord DbError

fun error_kind :: "EventError \<Rightarrow> string" where
  "error_kind (WalletEnsure _) = ''wallet_ensure''"
| "error_kind (WorkerEnsure _) = ''worker_ensure''"
| "error_kind (ShareInsert _) = ''share_insert''"
| "error_kind (ShareRejectInsert _) = ''share_reject_insert''"
| "error_kind (UnknownRejectReason _) = ''unknown_reject_reason''"
| "error_kind (BlockEnsure _) = ''block_ensure''"
| "error_kind (BlockMarkSubmitted _) = ''block_mark_submitted''"
| "error_kind (OrphanBlockAccepted _) = ''orphan_block_accepted''"
| "error_kind (SessionBadIp _) = ''session_bad_ip''"
| "error_kind (SessionRecord _) = ''session_record''"

text \<open>The counters of \<open>metrics.rs\<close>, as the sequence of their ticks.\<close>

datatype tick =
    EventSeen string
  | LagSeen
  | ErrorSeen string string
  | ShareInserted
  | BlockTransition string

record EventConsumer =
  ec_db :: db
  ec_cfg :: ConsumerConfig
  ec_geoip :: "(IpAddr \<Rightarrow> string option) option"
  ec_open_sessions :: "int \<Rightarrow> int option"
  ec_ticks :: "tick list"

definition EventConsumer_new :: "db \<Rightarrow> ConsumerConfig \<Rightarrow> EventConsumer" where
  "EventConsumer_new d cfg =
     \<lparr> ec_db = d, ec_cfg = cfg, ec_geoip = None, ec_open_sessions = (\<lambda>_. None), ec_ticks = [] \<rparr>"

definition with_geoip :: "(IpAddr \<Rightarrow> string option) option \<Rightarrow> EventConsumer \<Rightarrow> EventConsumer" where
  "with_geoip g c = c\<lparr> ec_geoip := g \<rparr>"

definition tick :: "tick \<Rightarrow> EventConsumer \<Rightarrow> EventConsumer" where
  "tick t c = c\<lparr> ec_ticks := ec_ticks c @ [t] \<rparr>"

section \<open>Handlers\<close>

text \<open>A handler's transaction: without a connection it fails before its first
  statement.\<close>

definition in_tx ::
  "DbError option \<Rightarrow> (DbError \<Rightarrow> EventError) \<Rightarrow> (db \<Rightarrow> (EventError, 'a \<times> db) outcome) \<Rightarrow> EventConsumer \<Rightarrow>
     (EventError, 'a) outcome \<times> EventConsumer" where
  "in_tx fault wrap f c =
     (case fault of
        Some e \<Rightarrow> (Err (wrap e), c)
      | None \<Rightarrow> (case run_tx f (ec_db c) of (m, d) \<Rightarrow> (m, c\<lparr> ec_db := d \<rparr>)))"

definition ensure_identity ::
  "timestamp \<Rightarrow> string \<Rightarrow> string \<Rightarrow> string \<Rightarrow> db \<Rightarrow> (EventError, (int \<times> int) \<times> db) outcome" where
  "ensure_identity now network wallet_addr worker_name d =
     and_then (map_err WalletEnsure (wallet_ensure now wallet_addr network d)) (\<lambda>(w, d).
     and_then (map_err WorkerEnsure (worker_ensure now (wal_id w) worker_name d)) (\<lambda>(wk, d).
     Ok ((wal_id w, wkr_id wk), d)))"

definition handle_share_credited ::
  "timestamp \<Rightarrow> DbError option \<Rightarrow> string \<Rightarrow> string \<Rightarrow> f64 \<Rightarrow> int \<Rightarrow> correlation_id \<Rightarrow> EventConsumer \<Rightarrow>
     (EventError, unit) outcome \<times> EventConsumer" where
  "handle_share_credited now fault wallet_addr worker_name difficulty daa_score cid c =
     (case in_tx fault ShareInsert (\<lambda>d.
         and_then (ensure_identity now (cfg_network (ec_cfg c)) wallet_addr worker_name d) (\<lambda>((w, wk), d).
         and_then (map_err ShareInsert (insert_credited now w wk None difficulty daa_score cid d)) (\<lambda>(_, d).
         Ok ((), d)))) c of
        (Ok u, c) \<Rightarrow> (Ok u, tick ShareInserted c)
      | (m, c) \<Rightarrow> (m, c))"

text \<open>\<open>DbShareRejectReason::try_from\<close> maps every reason of the domain enum.\<close>

definition handle_share_rejected ::
  "timestamp \<Rightarrow> DbError option \<Rightarrow> string \<Rightarrow> string \<Rightarrow> ShareRejectReason \<Rightarrow> correlation_id \<Rightarrow> EventConsumer \<Rightarrow>
     (EventError, unit) outcome \<times> EventConsumer" where
  "handle_share_rejected now fault wallet_addr worker_name reason cid c =
     in_tx fault ShareRejectInsert (\<lambda>d.
       and_then (ensure_identity now (cfg_network (ec_cfg c)) wallet_addr worker_name d) (\<lambda>((w, wk), d).
       and_then (map_err ShareRejectInsert (share_reject_insert now w wk reason cid d)) (\<lambda>(_, d).
       Ok ((), d)))) c"

definition handle_block_found ::
  "timestamp \<Rightarrow> DbError option \<Rightarrow> string \<Rightarrow> string \<Rightarrow> hash_bytes \<Rightarrow> int \<Rightarrow> correlation_id \<Rightarrow> EventConsumer \<Rightarrow>
     (EventError, unit) outcome \<times> EventConsumer" where
  "handle_block_found now fault wallet_addr worker_name hash daa_score cid c =
     (case in_tx fault BlockEnsure (\<lambda>d.
         and_then (ensure_identity now (cfg_network (ec_cfg c)) wallet_addr worker_name d) (\<lambda>((w, wk), d).
         and_then (map_err BlockEnsure (block_ensure now hash w wk daa_score 0 cid d)) (\<lambda>((_, out), d).
         Ok (out, d)))) c of
        (Ok Inserted, c) \<Rightarrow> (Ok (), tick (BlockTransition ''found'') c)
      | (Ok AlreadyExisted, c) \<Rightarrow> (Ok (), tick (BlockTransition ''dup_found'') c)
      | (Err e, c) \<Rightarrow> (Err e, c)
      | (Panic, c) \<Rightarrow> (Panic, c))"

definition handle_block_accepted ::
  "timestamp \<Rightarrow> DbError option \<Rightarrow> hash_bytes \<Rightarrow> EventConsumer \<Rightarrow> (EventError, unit) outcome \<times> EventConsumer" where
  "handle_block_accepted now fault hash c =
     (case fault of
        Some e \<Rightarrow> (Err (BlockMarkSubmitted e), c)
      | None \<Rightarrow>
          if find_by_hash hash (ec_db c) = None
          then (Err (OrphanBlockAccepted (BlockHash_display hash)), tick (ErrorSeen ''block_accepted'' ''orphan'') c)
          else case in_tx None BlockMarkSubmitted (\<lambda>d. map_err BlockMarkSubmitted (mark_submitted now hash d)) c of
                 (Ok u, c) \<Rightarrow> (Ok u, tick (BlockTransition ''submitted'') c)
               | (m, c) \<Rightarrow> (m, c))"

text \<open>The worker of a session, when both identities are known.\<close>

definition session_worker ::
  "timestamp \<Rightarrow> string \<Rightarrow> SessionEvent \<Rightarrow> db \<Rightarrow> (EventError, int option \<times> db) outcome" where
  "session_worker now network meta d =
     (case (ev_wallet meta, ev_worker meta) of
        (Some addr, Some name) \<Rightarrow>
          and_then (ensure_identity now network addr name d) (\<lambda>((_, wk), d). Ok (Some wk, d))
      | _ \<Rightarrow> Ok (None, d))"

definition country_of :: "EventConsumer \<Rightarrow> IpAddr \<Rightarrow> string option" where
  "country_of c ip = Option.bind (ec_geoip c) (\<lambda>g. g ip)"

definition handle_session_opened ::
  "timestamp \<Rightarrow> DbError option \<Rightarrow> SessionEvent \<Rightarrow> EventConsumer \<Rightarrow> (EventError, unit) outcome \<times> EventConsumer" where
  "handle_session_opened now fault meta c =
     (case IpAddr_from_str (ev_remote_ip meta) of
        None \<Rightarrow> (Err (SessionBadIp (ev_remote_ip meta)), c)
      | Some ip \<Rightarrow>
          (case in_tx fault SessionRecord (\<lambda>d.
               and_then (session_worker now (cfg_network (ec_cfg c)) meta d) (\<lambda>(worker_id, d).
               map_err SessionRecord
                 (session_open worker_id ip (ev_remote_app meta) (country_of c ip) (ev_connected_at meta) d))) c of
             (Ok sid, c) \<Rightarrow> (Ok (), c\<lparr> ec_open_sessions := (ec_open_sessions c)(ev_conn_id meta \<mapsto> sid) \<rparr>)
           | (Err e, c) \<Rightarrow> (Err e, c)
           | (Panic, c) \<Rightarrow> (Panic, c)))"

definition handle_session_closed ::
  "timestamp \<Rightarrow> DbError option \<Rightarrow> SessionEvent \<Rightarrow> timestamp \<Rightarrow> EventConsumer \<Rightarrow>
     (EventError, unit) outcome \<times> EventConsumer" where
  "handle_session_closed now fault meta disconnected_at c0 =
     (let open_row = ec_open_sessions c0 (ev_conn_id meta);
          c = c0\<lparr> ec_open_sessions := (ec_open_sessions c0)(ev_conn_id meta := None) \<rparr> in
      case open_row of
        Some sid \<Rightarrow> in_tx fault SessionRecord (\<lambda>d. map_err SessionRecord (session_close now sid d)) c
      | None \<Rightarrow>
          (case IpAddr_from_str (ev_remote_ip meta) of
             None \<Rightarrow> (Err (SessionBadIp (ev_remote_ip meta)), c)
           | Some ip \<Rightarrow>
               (case in_tx fault SessionRecord (\<lambda>d.
                    and_then (session_worker now (cfg_network (ec_cfg c)) meta d) (\<lambda>(worker_id, d).
                    map_err SessionRecord
                      (session_record_closed worker_id ip (ev_remote_app meta) (country_of c ip)
                         (ev_connected_at meta) disconnected_at d))) c of
                  (Ok _, c) \<Rightarrow> (Ok (), c)
                | (Err e, c) \<Rightarrow> (Err e, c)
                | (Panic, c) \<Rightarrow> (Panic, c))))"

section \<open>Dispatch\<close>

fun variant :: "PoolEvent \<Rightarrow> string" where
  "variant (ShareCredited _ _ _ _ _ _) = ''share_credited''"
| "variant (ShareRejected _ _ _ _ _) = ''share_rejected''"
| "variant (BlockFound _ _ _ _ _ _) = ''block_found''"
| "variant (BlockAccepted _ _ _) = ''block_accepted''"
| "variant (SessionOpened _ _) = ''session_opened''"
| "variant (SessionClosed _ _ _) = ''session_closed''"

fun handler ::
  "timestamp \<Rightarrow> DbError option \<Rightarrow> PoolEvent \<Rightarrow> EventConsumer \<Rightarrow> (EventError, unit) outcome \<times> EventConsumer" where
  "handler now fault (ShareCredited w k diff daa _ cid) = handle_share_credited now fault w k diff daa cid"
| "handler now fault (ShareRejected w k reason _ cid) = handle_share_rejected now fault w k reason cid"
| "handler now fault (BlockFound w k hash daa _ cid) = handle_block_found now fault w k hash daa cid"
| "handler now fault (BlockAccepted hash _ _) = handle_block_accepted now fault hash"
| "handler now fault (SessionOpened meta _) = handle_session_opened now fault meta"
| "handler now fault (SessionClosed meta ts _) = handle_session_closed now fault meta ts"

definition handle_event :: "timestamp \<Rightarrow> DbError option \<Rightarrow> PoolEvent \<Rightarrow> EventConsumer \<Rightarrow> EventConsumer" where
  "handle_event now fault event c =
     (case handler now fault event (tick (EventSeen (variant event)) c) of
        (Err e, c') \<Rightarrow> tick (ErrorSeen (variant event) (error_kind e)) c'
      | (_, c') \<Rightarrow> c')"

section \<open>The loop\<close>

datatype recv = Received PoolEvent | Lagged nat | ChannelClosed

datatype LoopStep = Continue | Exit

definition step :: "timestamp \<Rightarrow> DbError option \<Rightarrow> recv \<Rightarrow> EventConsumer \<Rightarrow> LoopStep \<times> EventConsumer" where
  "step now fault r c =
     (case r of
        Received event \<Rightarrow> (Continue, handle_event now fault event c)
      | Lagged n \<Rightarrow> (Continue, tick LagSeen c)
      | ChannelClosed \<Rightarrow> (Exit, c))"

definition startup_session_sweep :: "timestamp \<Rightarrow> DbError option \<Rightarrow> EventConsumer \<Rightarrow> EventConsumer" where
  "startup_session_sweep now fault c =
     snd (in_tx fault SessionRecord (\<lambda>d. map_err SessionRecord (session_close_all_open now d)) c)"

text \<open>What the loop receives, one entry per turn; the loop waits when the
  entries run out.\<close>

type_synonym arrival = "timestamp \<times> DbError option \<times> recv"

fun run_loop :: "arrival list \<Rightarrow> EventConsumer \<Rightarrow> LoopStep \<times> EventConsumer" where
  "run_loop [] c = (Continue, c)"
| "run_loop ((now, fault, r) # rest) c =
     (case step now fault r c of
        (Exit, c') \<Rightarrow> (Exit, c')
      | (Continue, c') \<Rightarrow> run_loop rest c')"

definition run :: "timestamp \<Rightarrow> DbError option \<Rightarrow> arrival list \<Rightarrow> EventConsumer \<Rightarrow> LoopStep \<times> EventConsumer" where
  "run now fault arrivals c = run_loop arrivals (startup_session_sweep now fault c)"

text \<open>The drain: each turn reads the clock and waits for an event at most until
  the idle gap or the deadline; \<open>None\<close> is a wait that elapsed.\<close>

type_synonym drain_turn = "int \<times> arrival option"

fun drain_backlog :: "int \<Rightarrow> drain_turn list \<Rightarrow> nat \<Rightarrow> EventConsumer \<Rightarrow> nat \<times> EventConsumer" where
  "drain_backlog deadline [] drained c = (drained, c)"
| "drain_backlog deadline ((clock, turn) # rest) drained c =
     (if deadline \<le> clock then (drained, c) else
      case turn of
        None \<Rightarrow> (drained, c)
      | Some (now, fault, Received event) \<Rightarrow>
          drain_backlog deadline rest (Suc drained) (handle_event now fault event c)
      | Some (now, fault, Lagged n) \<Rightarrow> drain_backlog deadline rest drained (tick LagSeen c)
      | Some (now, fault, ChannelClosed) \<Rightarrow> (drained, c))"

datatype select_input = Recv arrival | ShutdownChanged bool

fun select_loop :: "select_input list \<Rightarrow> (EventConsumer \<Rightarrow> EventConsumer) \<Rightarrow> EventConsumer \<Rightarrow> LoopStep \<times> EventConsumer" where
  "select_loop [] drain c = (Continue, c)"
| "select_loop (Recv (now, fault, r) # rest) drain c =
     (case step now fault r c of
        (Exit, c') \<Rightarrow> (Exit, c')
      | (Continue, c') \<Rightarrow> select_loop rest drain c')"
| "select_loop (ShutdownChanged requested # rest) drain c =
     (if requested then (Exit, drain c) else select_loop rest drain c)"

definition run_with_shutdown ::
  "timestamp \<Rightarrow> DbError option \<Rightarrow> bool \<Rightarrow> select_input list \<Rightarrow> int \<Rightarrow> drain_turn list \<Rightarrow> EventConsumer \<Rightarrow>
     LoopStep \<times> EventConsumer" where
  "run_with_shutdown now fault latched inputs deadline turns c0 =
     (let c = startup_session_sweep now fault c0; drain = (\<lambda>c. snd (drain_backlog deadline turns 0 c)) in
      if latched then (Exit, drain c) else select_loop inputs drain c)"

section \<open>The credited work\<close>

text \<open>What the share table says, with ids resolved to names: the abstract
  state the consumer maintains.\<close>

type_synonym credit = "string option \<times> string option \<times> f64 \<times> int \<times> correlation_id"

definition wallet_addr :: "db \<Rightarrow> int \<Rightarrow> string option" where
  "wallet_addr d = map_of (map (\<lambda>(i, net, a). (i, a)) (wallet_keys d))"

definition worker_name_of :: "db \<Rightarrow> int \<Rightarrow> string option" where
  "worker_name_of d = map_of (map (\<lambda>(i, w, n). (i, n)) (worker_keys d))"

definition credit_of :: "db \<Rightarrow> Share \<Rightarrow> credit" where
  "credit_of d s = (wallet_addr d (sh_wallet_id s), worker_name_of d (sh_worker_id s), sh_difficulty s,
     sh_daa_score s, sh_correlation_id s)"

definition credits :: "db \<Rightarrow> credit list" where
  "credits d = map (credit_of d) (rows (share_t d))"

fun credit_for :: "string \<Rightarrow> DbError option \<Rightarrow> PoolEvent \<Rightarrow> credit list" where
  "credit_for net None (ShareCredited w k diff daa ts cid) =
     (if wallet_check net w \<and> worker_check k \<and> share_check diff (u64_as_i64 daa)
      then [(Some w, Some k, diff, u64_as_i64 daa, cid)] else [])"
| "credit_for net fault event = []"

lemma map_of_append_known: "i \<in> fst ` set xs \<Longrightarrow> map_of (xs @ ys) i = map_of xs i"
  by (cases "map_of xs i") (auto simp: map_add_def map_of_eq_None_iff)

lemma proj_ids: "fst ` set (map (\<lambda>(i, x, y). (i, y)) ks) = fst ` set ks"
  by (simp add: image_image case_prod_unfold)

lemma proj_in: "(i, x, y) \<in> set ks \<Longrightarrow> (i, y) \<in> set (map (\<lambda>(i, x, y). (i, y)) ks)"
  by (auto intro!: image_eqI[of _ _ "(i, x, y)"])

lemma wallet_addr_step:
  assumes "identity_step d d'" and "i \<in> fst ` set (wallet_keys d)"
  shows "wallet_addr d' i = wallet_addr d i"
proof -
  obtain ws where ks: "wallet_keys d' = wallet_keys d @ ws" using assms(1) unfolding identity_step_def by blast
  have "i \<in> fst ` set (map (\<lambda>(i, net, a). (i, a)) (wallet_keys d))" using assms(2) by (simp only: proj_ids)
  from map_of_append_known[OF this] show ?thesis unfolding wallet_addr_def ks map_append .
qed

lemma worker_name_step:
  assumes "identity_step d d'" and "i \<in> fst ` set (worker_keys d)"
  shows "worker_name_of d' i = worker_name_of d i"
proof -
  obtain ws where ks: "worker_keys d' = worker_keys d @ ws" using assms(1) unfolding identity_step_def by blast
  have "i \<in> fst ` set (map (\<lambda>(i, w, n). (i, n)) (worker_keys d))" using assms(2) by (simp only: proj_ids)
  from map_of_append_known[OF this] show ?thesis unfolding worker_name_of_def ks map_append .
qed

lemma owns_known:
  assumes "accounts_ok d" and "owns d w k"
  shows "w \<in> fst ` set (wallet_keys d)" and "k \<in> fst ` set (worker_keys d)"
proof -
  obtain n where n: "(k, w, n) \<in> set (worker_keys d)" using assms(2) unfolding owns_def by blast
  have "\<forall>(i, w, n) \<in> set (worker_keys d). i < nextval (worker_t d) \<and> worker_check n \<and> w \<in> fst ` set (wallet_keys d)"
    using assms(1) unfolding accounts_ok_def identities_ok_def workers_ok_def by blast
  with n show "w \<in> fst ` set (wallet_keys d)" by blast
  show "k \<in> fst ` set (worker_keys d)" using imageI[OF n, of fst] by simp
qed

lemma credits_identity_step:
  assumes "identity_step d d'" and "accounts_ok d"
  shows "credits d' = credits d"
proof -
  have sh: "share_t d' = share_t d" using assms(1) unfolding identity_step_def by auto
  have "credit_of d' s = credit_of d s" if "s \<in> set (rows (share_t d))" for s
  proof -
    have "owns d (sh_wallet_id s) (sh_worker_id s)"
      using assms(2) that by (simp add: accounts_ok_def references_ok_def list_all_iff)
    from owns_known[OF assms(2) this] show ?thesis
      by (simp add: credit_of_def wallet_addr_step[OF assms(1)] worker_name_step[OF assms(1)])
  qed
  then show ?thesis by (simp add: credits_def sh)
qed

lemma credits_cong:
  assumes "share_t d' = share_t d" and "wallet_t d' = wallet_t d" and "worker_t d' = worker_t d"
  shows "credits d' = credits d"
proof -
  have "wallet_addr d' = wallet_addr d" "worker_name_of d' = worker_name_of d"
    unfolding wallet_addr_def worker_name_of_def assms(2,3) by (rule refl)+
  then show ?thesis unfolding credits_def credit_of_def assms(1) by simp
qed

section \<open>Facts on the handlers\<close>

text \<open>The tables of the reward and payout side are never written here.\<close>

definition money_frame :: "db \<Rightarrow> db \<Rightarrow> bool" where
  "money_frame d d' \<longleftrightarrow> window_t d' = window_t d \<and> reward_t d' = reward_t d \<and> allocation_t d' = allocation_t d \<and>
     rebate_t d' = rebate_t d \<and> cycle_t d' = cycle_t d \<and> payout_t d' = payout_t d \<and> krc20_t d' = krc20_t d \<and>
     audit_t d' = audit_t d"

lemma money_frame_refl [simp]: "money_frame d d"
  by (simp add: money_frame_def)

lemma in_tx_cases:
  assumes "in_tx fault wrap f c = (m, c')"
  obtains (failed) "\<not> is_ok m" "c' = c"
  | (committed) a d' where "fault = None" "f (ec_db c) = Ok (a, d')" "m = Ok a" "c' = c\<lparr> ec_db := d' \<rparr>"
proof (cases fault)
  case None
  show thesis
  proof (cases "f (ec_db c)")
    case (Ok p)
    then show thesis using assms None by (cases p) (auto simp: in_tx_def intro!: committed)
  qed (use assms None in \<open>auto simp: in_tx_def intro!: failed\<close>)
qed (use assms in \<open>auto simp: in_tx_def intro!: failed\<close>)

lemma identity_step_money: "identity_step d d' \<Longrightarrow> money_frame d d'"
  by (auto simp: identity_step_def money_frame_def)

lemma ensure_identity_step:
  assumes "ensure_identity now net a n d = Ok ((w, k), d')" and "accounts_ok d"
  shows "accounts_ok d'" and "identity_step d d'" and "owns d' w k"
    and "wallet_addr d' w = Some a" and "worker_name_of d' k = Some n"
proof -
  from assms(1) obtain wr d1 kr where we: "wallet_ensure now a net d = Ok (wr, d1)"
    and ke: "worker_ensure now (wal_id wr) n d1 = Ok (kr, d')" and wk: "w = wal_id wr" "k = wkr_id kr"
    by (auto simp: ensure_identity_def outcome_simps)
  have ids: "identities_ok d" using assms(2) by (simp add: accounts_ok_def)
  note W = wallet_ensure_step[OF we ids]
  note K = worker_ensure_step[OF ke W(1)]
  show step: "identity_step d d'" by (rule identity_step_trans[OF W(2) K(2)])
  show "accounts_ok d'" by (rule identity_step_accounts[OF step K(1) assms(2)])
  show "owns d' w k" using K(3) unfolding owns_def wk by blast
  have "distinct (map fst (wallet_keys d'))" "distinct (map fst (worker_keys d'))"
    using K(1) by (simp_all add: identities_ok_def wallets_ok_def workers_ok_def)
  then have d: "distinct (map fst (map (\<lambda>(i, net, a). (i, a)) (wallet_keys d')))"
    "distinct (map fst (map (\<lambda>(i, w, n). (i, n)) (worker_keys d')))"
    by (simp_all add: comp_def case_prod_unfold)
  have key: "wallet_key wr = (wal_id wr, wal_network wr, a)" using W(4) by (simp add: wallet_key_def)
  have "(wal_id wr, wal_network wr, a) \<in> set (wallet_keys d')" unfolding key[symmetric] K(4) by (rule W(3))
  from proj_in[OF this] have "(w, a) \<in> set (map (\<lambda>(i, net, a). (i, a)) (wallet_keys d'))" unfolding wk .
  from map_of_is_SomeI[OF d(1) this] show "wallet_addr d' w = Some a" by (simp add: wallet_addr_def)
  have "(k, n) \<in> set (map (\<lambda>(i, w, n). (i, n)) (worker_keys d'))" using proj_in[OF K(3)] unfolding wk .
  from map_of_is_SomeI[OF d(2) this] show "worker_name_of d' k = Some n" by (simp add: worker_name_of_def)
qed

lemma wallet_ensure_total: "wallet_check net a \<Longrightarrow> \<exists>w d'. wallet_ensure now a net d = Ok (w, d')"
  by (cases "find_where (\<lambda>w. wal_address w = a) (wallet_t d)") (simp_all add: wallet_ensure_def Let_def)

lemma worker_ensure_total:
  "worker_check n \<Longrightarrow> exists_where (\<lambda>w. wal_id w = i) (wallet_t d) \<Longrightarrow> \<exists>k d'. worker_ensure now i n d = Ok (k, d')"
  by (cases "find_where (\<lambda>w. wkr_wallet_id w = i \<and> wkr_name w = n) (worker_t d)") (simp_all add: worker_ensure_def Let_def)

lemma ensure_identity_total:
  assumes "wallet_check net a" and "worker_check n" and "identities_ok d"
  shows "\<exists>w k d'. ensure_identity now net a n d = Ok ((w, k), d')"
proof -
  obtain w d1 where w: "wallet_ensure now a net d = Ok (w, d1)" using wallet_ensure_total[OF assms(1)] by blast
  have "wallet_key w \<in> wallet_key ` set (rows (wallet_t d1))" using wallet_ensure_step(3)[OF w assms(3)] by simp
  then have "exists_where (\<lambda>x. wal_id x = wal_id w) (wallet_t d1)"
    by (auto simp: exists_where_def list_ex_iff wallet_key_def)
  from worker_ensure_total[OF assms(2) this] obtain k d2 where "worker_ensure now (wal_id w) n d1 = Ok (k, d2)" by blast
  then show ?thesis using w by (simp add: ensure_identity_def)
qed

lemma ensure_identity_checks:
  assumes "ensure_identity now net a n d = Ok r"
  shows "wallet_check net a" and "worker_check n"
  using assms
  by (auto simp: ensure_identity_def outcome_simps wallet_ensure_def worker_ensure_def split: if_splits)

text \<open>What every handler guarantees; \<open>cr\<close> is the credit it adds.\<close>

definition handled :: "credit list \<Rightarrow> EventConsumer \<Rightarrow> (EventError, 'a) outcome \<times> EventConsumer \<Rightarrow> bool" where
  "handled cr c r \<longleftrightarrow>
     (case r of (m, c') \<Rightarrow> accounts_ok (ec_db c') \<and> ec_cfg c' = ec_cfg c \<and> money_frame (ec_db c) (ec_db c') \<and>
        credits (ec_db c') = credits (ec_db c) @ cr \<and> (\<not> is_ok m \<longrightarrow> ec_db c' = ec_db c))"

lemma handled_unchanged: "accounts_ok (ec_db c) \<Longrightarrow> ec_db c' = ec_db c \<Longrightarrow> ec_cfg c' = ec_cfg c \<Longrightarrow> handled [] c (m, c')"
  by (simp add: handled_def)

lemma handled_via:
  "handled cr c (m, c') \<Longrightarrow> is_ok m' = is_ok m \<Longrightarrow> ec_db c'' = ec_db c' \<Longrightarrow> ec_cfg c'' = ec_cfg c' \<Longrightarrow> handled cr c (m', c'')"
  by (simp add: handled_def)

lemma tick_simps [simp]: "ec_db (tick t c) = ec_db c" "ec_cfg (tick t c) = ec_cfg c"
  "ec_open_sessions (tick t c) = ec_open_sessions c"
  by (simp_all add: tick_def)

lemma in_tx_handled:
  assumes "accounts_ok (ec_db c)"
    and "\<And>a d'. fault = None \<Longrightarrow> f (ec_db c) = Ok (a, d') \<Longrightarrow>
      accounts_ok d' \<and> money_frame (ec_db c) d' \<and> credits d' = credits (ec_db c) @ cr"
    and "fault \<noteq> None \<or> \<not> is_ok (f (ec_db c)) \<Longrightarrow> cr = []"
  shows "handled cr c (in_tx fault wrap f c)"
proof (cases "in_tx fault wrap f c" rule: prod.exhaust)
  case (Pair m c')
  then show ?thesis
  proof (cases rule: in_tx_cases)
    case failed
    have "fault \<noteq> None \<or> \<not> is_ok (f (ec_db c))"
      using failed(1) Pair by (cases fault; cases "f (ec_db c)") (auto simp: in_tx_def)
    from assms(3)[OF this] show ?thesis unfolding Pair by (simp add: handled_unchanged[OF assms(1)] failed(2))
  next
    case (committed a d')
    from assms(2)[OF committed(1,2)] show ?thesis unfolding Pair by (simp add: handled_def committed(3,4))
  qed
qed

lemma owns_rows:
  assumes "accounts_ok d" and "owns d w k"
  shows "exists_where (\<lambda>x. wal_id x = w) (wallet_t d)" and "exists_where (\<lambda>x. wkr_id x = k) (worker_t d)"
  using owns_known[OF assms] by (auto simp: exists_where_def list_ex_iff wallet_key_def worker_key_def)

lemma handle_share_credited_handled:
  assumes "accounts_ok (ec_db c)"
  shows "handled (credit_for (cfg_network (ec_cfg c)) fault (ShareCredited w k diff daa ts cid)) c
    (handle_share_credited now fault w k diff daa cid c)"
proof -
  let ?cr = "credit_for (cfg_network (ec_cfg c)) fault (ShareCredited w k diff daa ts cid)"
  define f where "f = (\<lambda>d. and_then (ensure_identity now (cfg_network (ec_cfg c)) w k d) (\<lambda>((w, wk), d).
         and_then (map_err ShareInsert (insert_credited now w wk None diff daa cid d)) (\<lambda>(_, d). Ok ((), d))))"
  have H: "handled ?cr c (in_tx fault ShareInsert f c)"
  proof (rule in_tx_handled[OF assms])
    fix a d' assume none: "fault = None" and ok: "f (ec_db c) = Ok (a, d')"
    from ok obtain wi ki d1 i where e: "ensure_identity now (cfg_network (ec_cfg c)) w k (ec_db c) = Ok ((wi, ki), d1)"
      and ins: "insert_credited now wi ki None diff daa cid d1 = Ok (i, d')"
      unfolding f_def by (auto simp: outcome_simps)
    note E = ensure_identity_step[OF e assms]
    from ins obtain s where d': "d' = d1\<lparr> share_t := \<lparr> rows = rows (share_t d1) @ [s], nextval = nextval (share_t d1) + 1 \<rparr> \<rparr>"
      and s: "sh_wallet_id s = wi" "sh_worker_id s = ki" "sh_difficulty s = diff" "sh_daa_score s = u64_as_i64 daa"
        "sh_correlation_id s = cid" "share_check diff (u64_as_i64 daa)" by (rule insert_credited_Ok)
    have same: "wallet_addr d' = wallet_addr d1" "worker_name_of d' = worker_name_of d1"
      by (simp_all add: d' wallet_addr_def worker_name_of_def)
    have "credits d' = credits d1 @ [(Some w, Some k, diff, u64_as_i64 daa, cid)]"
      using E(4,5) s by (simp add: credits_def credit_of_def[abs_def] same) (simp add: d')
    moreover have "?cr = [(Some w, Some k, diff, u64_as_i64 daa, cid)]"
      using ensure_identity_checks[OF e] s(6) none by simp
    moreover have "money_frame (ec_db c) d'" using identity_step_money[OF E(2)] by (simp add: d' money_frame_def)
    ultimately show "accounts_ok d' \<and> money_frame (ec_db c) d' \<and> credits d' = credits (ec_db c) @ ?cr"
      using insert_credited_accounts[OF ins E(1,3)] credits_identity_step[OF E(2) assms] by simp
  next
    assume "fault \<noteq> None \<or> \<not> is_ok (f (ec_db c))"
    moreover have "is_ok (f (ec_db c))" if chk: "wallet_check (cfg_network (ec_cfg c)) w" "worker_check k" "share_check diff (u64_as_i64 daa)"
    proof -
      have "identities_ok (ec_db c)" using assms by (simp add: accounts_ok_def)
      from ensure_identity_total[OF chk(1,2) this, where now = now]
      obtain wi ki d1 where e: "ensure_identity now (cfg_network (ec_cfg c)) w k (ec_db c) = Ok ((wi, ki), d1)" by blast
      note E = ensure_identity_step[OF e assms]
      show ?thesis using chk(3) owns_rows[OF E(1,3)] by (simp add: f_def e insert_credited_def Let_def)
    qed
    ultimately show "?cr = []" by (cases fault) auto
  qed
  obtain m c' where r: "in_tx fault ShareInsert f c = (m, c')" by (cases "in_tx fault ShareInsert f c")
  show ?thesis using H unfolding handle_share_credited_def f_def[symmetric] r
    by (cases m) (auto elim: handled_via)
qed

text \<open>A transaction that leaves the shares and the identities' keys alone.\<close>

definition quiet :: "db \<Rightarrow> db \<Rightarrow> bool" where
  "quiet d d' \<longleftrightarrow> accounts_ok d' \<and> money_frame d d' \<and> credits d' = credits d"

lemma quiet_tx:
  assumes "accounts_ok (ec_db c)" and "\<And>a d'. f (ec_db c) = Ok (a, d') \<Longrightarrow> quiet (ec_db c) d'"
  shows "handled [] c (in_tx fault wrap f c)"
  by (rule in_tx_handled[OF assms(1)]) (use assms(2) in \<open>auto simp: quiet_def\<close>)

lemma quiet_identity:
  assumes "ensure_identity now net a n d = Ok ((w, k), d1)" and "accounts_ok d"
    and "accounts_ok d' \<and> share_t d' = share_t d1 \<and> wallet_t d' = wallet_t d1 \<and> worker_t d' = worker_t d1"
    and "money_frame d1 d'"
  shows "quiet d d'"
proof -
  note E = ensure_identity_step[OF assms(1,2)]
  have "credits d' = credits d1" by (rule credits_cong) (use assms(3) in simp_all)
  moreover have "money_frame d d'" using identity_step_money[OF E(2)] assms(4) by (simp add: money_frame_def)
  ultimately show ?thesis using credits_identity_step[OF E(2) assms(2)] assms(3) by (simp add: quiet_def)
qed

lemma quiet_session:
  assumes "accounts_ok d" and "\<And>s. ses_id (f s) = ses_id s \<and> ses_worker_id (f s) = ses_worker_id s"
  shows "quiet d (d\<lparr> session_t := update_where P f (session_t d) \<rparr>)"
  unfolding quiet_def using session_update_accounts[OF assms] credits_cong[of "d\<lparr> session_t := update_where P f (session_t d) \<rparr>" d]
  by (simp add: money_frame_def)

lemma insert_money_frames:
  "share_reject_insert now w k reason cid d = Ok (i, d') \<Longrightarrow> money_frame d d'"
  "block_ensure now h w k daa nonce cid d = Ok (r, d') \<Longrightarrow> money_frame d d'"
  "session_insert q ip app ctry t0 t1 d = Ok (i, d') \<Longrightarrow> money_frame d d'"
  "block_update h allowed f d = Ok (u, d') \<Longrightarrow> money_frame d d'"
  by (auto simp: share_reject_insert_def block_ensure_def session_insert_def block_update_def Let_def money_frame_def
      outcome_simps split: if_split_asm option.split_asm)

lemma handle_share_rejected_handled:
  assumes "accounts_ok (ec_db c)"
  shows "handled [] c (handle_share_rejected now fault w k reason cid c)"
  unfolding handle_share_rejected_def
proof (rule quiet_tx[OF assms])
  fix a d' assume "and_then (ensure_identity now (cfg_network (ec_cfg c)) w k (ec_db c)) (\<lambda>((w, wk), d).
       and_then (map_err ShareRejectInsert (share_reject_insert now w wk reason cid d)) (\<lambda>(_, d). Ok ((), d))) = Ok (a, d')"
  then obtain wi ki d1 i where e: "ensure_identity now (cfg_network (ec_cfg c)) w k (ec_db c) = Ok ((wi, ki), d1)"
    and ins: "share_reject_insert now wi ki reason cid d1 = Ok (i, d')" by (auto simp: outcome_simps)
  note E = ensure_identity_step[OF e assms]
  show "quiet (ec_db c) d'"
    by (rule quiet_identity[OF e assms reject_insert_accounts[OF ins E(1,3)] insert_money_frames(1)[OF ins]])
qed

lemma handle_block_found_handled:
  assumes "accounts_ok (ec_db c)"
  shows "handled [] c (handle_block_found now fault w k hash daa cid c)"
proof -
  define f where "f = (\<lambda>d. and_then (ensure_identity now (cfg_network (ec_cfg c)) w k d) (\<lambda>((w, wk), d).
         and_then (map_err BlockEnsure (block_ensure now hash w wk daa 0 cid d)) (\<lambda>((_, out), d). Ok (out, d))))"
  have H: "handled [] c (in_tx fault BlockEnsure f c)"
  proof (rule quiet_tx[OF assms])
    fix a d' assume "f (ec_db c) = Ok (a, d')"
    then obtain wi ki d1 i out where e: "ensure_identity now (cfg_network (ec_cfg c)) w k (ec_db c) = Ok ((wi, ki), d1)"
      and ins: "block_ensure now hash wi ki daa 0 cid d1 = Ok ((i, out), d')" unfolding f_def by (auto simp: outcome_simps)
    note E = ensure_identity_step[OF e assms]
    show "quiet (ec_db c) d'"
      by (rule quiet_identity[OF e assms block_ensure_accounts[OF ins E(1,3)] insert_money_frames(2)[OF ins]])
  qed
  obtain m c' where r: "in_tx fault BlockEnsure f c = (m, c')" by (cases "in_tx fault BlockEnsure f c")
  show ?thesis using H unfolding handle_block_found_def f_def[symmetric] r
    by (cases m) (auto elim: handled_via split: EnsureOutcome.split)
qed

lemma handle_block_accepted_handled:
  assumes "accounts_ok (ec_db c)"
  shows "handled [] c (handle_block_accepted now fault hash c)"
proof -
  define f where "f = (\<lambda>d. map_err BlockMarkSubmitted (mark_submitted now hash d))"
  have H: "handled [] c (in_tx None BlockMarkSubmitted f c)"
  proof (rule quiet_tx[OF assms])
    fix a d' assume "f (ec_db c) = Ok (a, d')"
    then have u: "block_update hash [Found, SubmittedToNode]
        (\<lambda>b. b\<lparr> blk_status := SubmittedToNode, blk_submitted_at := coalesce (blk_submitted_at b) now \<rparr>) (ec_db c) = Ok ((), d')"
      unfolding f_def mark_submitted_def by (auto simp: outcome_simps)
    have A: "accounts_ok d' \<and> share_t d' = share_t (ec_db c) \<and> wallet_t d' = wallet_t (ec_db c) \<and> worker_t d' = worker_t (ec_db c)"
      by (rule block_update_accounts[OF u assms]) simp
    show "quiet (ec_db c) d'" unfolding quiet_def using A credits_cong[of d' "ec_db c"] insert_money_frames(4)[OF u] by simp
  qed
  obtain m c' where r: "in_tx None BlockMarkSubmitted f c = (m, c')" by (cases "in_tx None BlockMarkSubmitted f c")
  show ?thesis
  proof (cases "fault = None \<and> find_by_hash hash (ec_db c) \<noteq> None")
    case True
    then show ?thesis using H unfolding handle_block_accepted_def f_def[symmetric] r by (cases m) (auto elim: handled_via)
  next
    case False
    then show ?thesis
      by (cases fault) (auto simp: handle_block_accepted_def handled_unchanged[OF assms])
  qed
qed

lemma session_insert_quiet:
  assumes "and_then (session_worker now net meta d) (\<lambda>(wid, d). map_err SessionRecord (session_insert wid ip app ctry t0 t1 d)) = Ok (i, d')"
    and "accounts_ok d"
  shows "quiet d d'"
proof -
  from assms(1) obtain wid d1 where w: "session_worker now net meta d = Ok (wid, d1)"
    and ins: "session_insert wid ip app ctry t0 t1 d1 = Ok (i, d')" by (auto simp: outcome_simps)
  show ?thesis
  proof (cases "ev_wallet meta = None \<or> ev_worker meta = None")
    case True
    then have [simp]: "wid = None" "d1 = d" using w by (auto simp: session_worker_def split: option.split_asm)
    have A: "accounts_ok d' \<and> share_t d' = share_t d \<and> wallet_t d' = wallet_t d \<and> worker_t d' = worker_t d \<and> i = nextval (session_t d)"
      by (rule session_insert_accounts[OF ins[simplified] assms(2)]) simp
    show ?thesis unfolding quiet_def using A credits_cong[of d' d] insert_money_frames(3)[OF ins] by simp
  next
    case False
    then obtain addr name where "ev_wallet meta = Some addr" "ev_worker meta = Some name" by auto
    then obtain wi ki where e: "ensure_identity now net addr name d = Ok ((wi, ki), d1)" and k: "wid = Some ki"
      using w by (auto simp: session_worker_def outcome_simps)
    note E = ensure_identity_step[OF e assms(2)]
    have A: "accounts_ok d' \<and> share_t d' = share_t d1 \<and> wallet_t d' = wallet_t d1 \<and> worker_t d' = worker_t d1 \<and> i = nextval (session_t d1)"
      by (rule session_insert_accounts[OF ins E(1)]) (use E(3) k in auto)
    show ?thesis by (rule quiet_identity[OF e assms(2) _ insert_money_frames(3)[OF ins]]) (use A in simp)
  qed
qed

lemma handle_session_opened_handled:
  assumes "accounts_ok (ec_db c)"
  shows "handled [] c (handle_session_opened now fault meta c)"
proof (cases "IpAddr_from_str (ev_remote_ip meta)")
  case (Some ip)
  define f where "f = (\<lambda>d. and_then (session_worker now (cfg_network (ec_cfg c)) meta d) (\<lambda>(worker_id, d).
               map_err SessionRecord
                 (session_open worker_id ip (ev_remote_app meta) (country_of c ip) (ev_connected_at meta) d)))"
  have H: "handled [] c (in_tx fault SessionRecord f c)"
    by (rule quiet_tx[OF assms], unfold f_def session_open_def, rule session_insert_quiet[OF _ assms])
  obtain m c' where r: "in_tx fault SessionRecord f c = (m, c')" by (cases "in_tx fault SessionRecord f c")
  show ?thesis using H unfolding handle_session_opened_def Some option.case f_def[symmetric] r
    by (cases m) (auto elim: handled_via)
qed (simp add: handle_session_opened_def handled_unchanged[OF assms])

lemma handle_session_closed_handled:
  assumes "accounts_ok (ec_db c)"
  shows "handled [] c (handle_session_closed now fault meta ts c)"
proof -
  define c1 where "c1 = c\<lparr> ec_open_sessions := (ec_open_sessions c)(ev_conn_id meta := None) \<rparr>"
  have c1: "ec_db c1 = ec_db c" "ec_cfg c1 = ec_cfg c" by (simp_all add: c1_def)
  have ok1: "accounts_ok (ec_db c1)" using assms c1 by simp
  have "handled [] c1 (handle_session_closed now fault meta ts c)"
  proof (cases "ec_open_sessions c (ev_conn_id meta)")
    case (Some sid)
    have "handled [] c1 (in_tx fault SessionRecord (\<lambda>d. map_err SessionRecord (session_close now sid d)) c1)"
      by (rule quiet_tx[OF ok1]) (auto simp: session_close_def intro!: quiet_session[OF ok1])
    then show ?thesis by (simp add: handle_session_closed_def Some c1_def)
  next
    case None
    show ?thesis
    proof (cases "IpAddr_from_str (ev_remote_ip meta)")
      case (Some ip)
      define f where "f = (\<lambda>d. and_then (session_worker now (cfg_network (ec_cfg c1)) meta d) (\<lambda>(worker_id, d).
                    map_err SessionRecord
                      (session_record_closed worker_id ip (ev_remote_app meta) (country_of c1 ip)
                         (ev_connected_at meta) ts d)))"
      have H: "handled [] c1 (in_tx fault SessionRecord f c1)"
        by (rule quiet_tx[OF ok1], unfold f_def session_record_closed_def, rule session_insert_quiet[OF _ ok1])
      obtain m c' where r: "in_tx fault SessionRecord f c1 = (m, c')" by (cases "in_tx fault SessionRecord f c1")
      show ?thesis using H unfolding handle_session_closed_def c1_def[symmetric] Let_def None Some option.case f_def[symmetric] r
        by (cases m) (auto elim: handled_via)
    qed (simp add: handle_session_closed_def None c1_def[symmetric] handled_unchanged[OF ok1])
  qed
  then show ?thesis by (simp add: handled_def c1)
qed

lemma handler_handled:
  assumes "accounts_ok (ec_db c)"
  shows "handled (credit_for (cfg_network (ec_cfg c)) fault event) c (handler now fault event c)"
proof (cases event)
  case (ShareCredited w k diff daa ts cid)
  then show ?thesis using handle_share_credited_handled[OF assms] by simp
qed (use assms in \<open>simp_all add: handle_share_rejected_handled handle_block_found_handled
    handle_block_accepted_handled handle_session_opened_handled handle_session_closed_handled\<close>)

section \<open>The consumer as a whole\<close>

text \<open>What one arrival adds to the credited work, and what a run adds: the
  arrivals up to the closing of the channel.\<close>

fun arrival_credit :: "string \<Rightarrow> arrival \<Rightarrow> credit list" where
  "arrival_credit net (now, fault, Received event) = credit_for net fault event"
| "arrival_credit net _ = []"

definition run_credit :: "string \<Rightarrow> arrival list \<Rightarrow> credit list" where
  "run_credit net arrivals = concat (map (arrival_credit net) (takeWhile (\<lambda>(_, _, r). r \<noteq> ChannelClosed) arrivals))"

definition follows :: "credit list \<Rightarrow> EventConsumer \<Rightarrow> EventConsumer \<Rightarrow> bool" where
  "follows cr c c' \<longleftrightarrow> accounts_ok (ec_db c') \<and> ec_cfg c' = ec_cfg c \<and> money_frame (ec_db c) (ec_db c') \<and>
     credits (ec_db c') = credits (ec_db c) @ cr"

lemma follows_trans: "follows a c1 c2 \<Longrightarrow> follows b c2 c3 \<Longrightarrow> follows (a @ b) c1 c3"
  by (simp add: follows_def money_frame_def)

lemma follows_tick: "accounts_ok (ec_db c) \<Longrightarrow> follows [] c (tick t c)"
  by (simp add: follows_def)

lemma handle_event_follows:
  assumes "accounts_ok (ec_db c)"
  shows "follows (credit_for (cfg_network (ec_cfg c)) fault event) c (handle_event now fault event c)"
proof -
  let ?c = "tick (EventSeen (variant event)) c"
  have H: "handled (credit_for (cfg_network (ec_cfg c)) fault event) ?c (handler now fault event ?c)"
    using handler_handled[of ?c fault event now] assms by simp
  obtain m c' where r: "handler now fault event ?c = (m, c')" by (cases "handler now fault event ?c")
  show ?thesis using H unfolding handle_event_def r by (cases m) (auto simp: handled_def follows_def)
qed

lemma step_follows:
  assumes "accounts_ok (ec_db c)" and "step now fault r c = (l, c')"
  shows "follows (arrival_credit (cfg_network (ec_cfg c)) (now, fault, r)) c c'" and "l = Exit \<longleftrightarrow> r = ChannelClosed"
  using assms(2) handle_event_follows[OF assms(1)] follows_tick[OF assms(1)] assms(1)
  by (cases r; auto simp: step_def follows_def)+

lemma run_loop_follows:
  "accounts_ok (ec_db c) \<Longrightarrow> run_loop arrivals c = (l, c') \<Longrightarrow> follows (run_credit (cfg_network (ec_cfg c)) arrivals) c c'"
proof (induction arrivals c rule: run_loop.induct)
  case (1 c)
  then show ?case by (simp add: run_credit_def follows_def)
next
  case (2 now fault r rest c)
  obtain l1 c1 where st: "step now fault r c = (l1, c1)" by (cases "step now fault r c")
  note S = step_follows[OF "2.prems"(1) st]
  show ?case
  proof (cases l1)
    case Exit
    then have "r = ChannelClosed" "c' = c1" using S(2) "2.prems"(2) st by simp_all
    then show ?thesis using S(1) by (simp add: run_credit_def)
  next
    case Continue
    have ok: "accounts_ok (ec_db c1)" "ec_cfg c1 = ec_cfg c" using S(1) by (simp_all add: follows_def)
    have "run_loop rest c1 = (l, c')" using "2.prems"(2) st Continue by simp
    from "2.IH"[OF st[symmetric] Continue ok(1) this]
    have "follows (arrival_credit (cfg_network (ec_cfg c)) (now, fault, r) @ run_credit (cfg_network (ec_cfg c)) rest) c c'"
      using follows_trans[OF S(1)] ok(2) by simp
    moreover have "r \<noteq> ChannelClosed" using S(2) Continue by simp
    ultimately show ?thesis by (simp add: run_credit_def)
  qed
qed

lemma startup_follows: "accounts_ok (ec_db c) \<Longrightarrow> follows [] c (startup_session_sweep now fault c)"
proof -
  assume ok: "accounts_ok (ec_db c)"
  let ?r = "in_tx fault SessionRecord (\<lambda>d. map_err SessionRecord (session_close_all_open now d)) c"
  have "handled [] c ?r"
    by (rule quiet_tx[OF ok]) (auto simp: session_close_all_open_def intro!: quiet_session[OF ok])
  then show ?thesis unfolding startup_session_sweep_def by (cases ?r) (simp add: handled_def follows_def)
qed

text \<open>A turn of the drain that brings an event before the deadline.\<close>

fun timely :: "int \<Rightarrow> drain_turn \<Rightarrow> bool" where
  "timely deadline (clock, Some (now, fault, Received event)) = (clock < deadline)"
| "timely deadline _ = False"

definition turn_credit :: "string \<Rightarrow> drain_turn \<Rightarrow> credit list" where
  "turn_credit net t = (case snd t of Some a \<Rightarrow> arrival_credit net a | None \<Rightarrow> [])"

lemma drain_follows:
  "accounts_ok (ec_db c) \<Longrightarrow> list_all (timely deadline) turns \<Longrightarrow> drain_backlog deadline (turns @ [(clock, None)]) n c = (n', c') \<Longrightarrow>
     n' = n + length turns \<and> follows (concat (map (turn_credit (cfg_network (ec_cfg c))) turns)) c c'"
proof (induction turns arbitrary: n c)
  case Nil
  then show ?case by (auto simp: follows_def split: if_splits)
next
  case (Cons t turns)
  from Cons.prems(2) obtain clk now fault event where t: "t = (clk, Some (now, fault, Received event))" "\<not> deadline \<le> clk"
    by (cases "(deadline, t)" rule: timely.cases) (auto simp: not_le)
  have S: "follows (turn_credit (cfg_network (ec_cfg c)) t) c (handle_event now fault event c)"
    using handle_event_follows[OF Cons.prems(1)] by (simp add: t turn_credit_def)
  have "accounts_ok (ec_db (handle_event now fault event c))" "ec_cfg (handle_event now fault event c) = ec_cfg c"
    using S by (simp_all add: follows_def)
  with Cons.IH[of "handle_event now fault event c" "Suc n"] Cons.prems(2,3)
  have "n' = Suc n + length turns" "follows (concat (map (turn_credit (cfg_network (ec_cfg c))) turns)) (handle_event now fault event c) c'"
    by (simp_all add: t)
  then show ?case using follows_trans[OF S] by simp
qed

lemma handler_failed:
  assumes "accounts_ok (ec_db c)" and "handler now fault event (tick (EventSeen (variant event)) c) = (Err e, c')"
  shows "ec_db c' = ec_db c"
  using handler_handled[of "tick (EventSeen (variant event)) c" fault event now] assms by (simp add: handled_def)

lemma devnet_checks:
  assumes "network \<in> {''devnet'', ''simnet''}" and "WalletAddress_new s = Ok a"
  shows "\<not> wallet_check network a"
proof
  assume chk: "wallet_check network a"
  have pre: "strip_prefix ''kaspa:'' a \<noteq> None \<or> strip_prefix ''kaspatest:'' a \<noteq> None"
    using assms(2) by (auto simp: WalletAddress_new_def outcome_simps split: option.split_asm if_split_asm)
  have "strip_prefix ''kaspadev:'' a \<noteq> None \<or> strip_prefix ''kaspasim:'' a \<noteq> None"
    using chk assms(1) by (auto simp: wallet_check_def body_of_length_def split: option.split_asm)
  with pre show False by (auto simp: strip_prefix_Some_iff)
qed

section \<open>Properties\<close>

text \<open>Two events for the witnesses: a share the schema admits and a share of an
  address that is too short.\<close>

definition demo_address :: string where
  "demo_address = ''kaspa:'' @ replicate 61 (CHR ''q'')"

definition demo_consumer :: "string \<Rightarrow> EventConsumer" where
  "demo_consumer network = EventConsumer_new empty_db \<lparr> cfg_instance_id = ''pool-1'', cfg_network = network \<rparr>"

definition demo_event :: "string \<Rightarrow> PoolEvent" where
  "demo_event address = ShareCredited address ''rig1'' (Fin 4) 100 5 7"

lemma demo_accounts: "accounts_ok (ec_db (demo_consumer network))"
  by (simp add: demo_consumer_def EventConsumer_new_def accounts_ok_empty)

text \<open>C5. The share table is the credited work.  Read with ids resolved to
  addresses and names, after any run it is what it was before, followed by one
  row for each share-credited event received before the channel closed whose
  transaction got a connection and whose values the schema admits, in the order
  of arrival and nothing else; every other event, failure, lag and the startup
  sweep leave it as it is.  The integrity of the event tables is kept.\<close>

theorem run_records_credited_work:
  assumes "accounts_ok (ec_db c)" and "run now fault arrivals c = (l, c')"
  shows "credits (ec_db c') = credits (ec_db c) @ run_credit (cfg_network (ec_cfg c)) arrivals \<and> accounts_ok (ec_db c')"
proof -
  note S = startup_follows[OF assms(1), of now fault]
  have ok: "accounts_ok (ec_db (startup_session_sweep now fault c))" "ec_cfg (startup_session_sweep now fault c) = ec_cfg c"
    using S by (simp_all add: follows_def)
  from follows_trans[OF S run_loop_follows[OF ok(1)]] assms(2) ok(2)
  have "follows (run_credit (cfg_network (ec_cfg c)) arrivals) c c'" by (simp add: run_def)
  then show ?thesis by (simp add: follows_def)
qed

theorem run_records_credited_work_witness:
  "credits (ec_db (snd (run 0 None [(1, None, Received (demo_event demo_address)),
       (2, Some AcquireTimeout, Received (demo_event demo_address)), (3, None, Received (demo_event ''kaspa:q'')), (4, None, Lagged 3),
       (5, None, ChannelClosed), (6, None, Received (demo_event demo_address))] (demo_consumer ''mainnet''))))
     = [(Some demo_address, Some ''rig1'', Fin 4, 100, 7)]"
proof -
  have c: "credits (ec_db (demo_consumer ''mainnet'')) = []"
    by (simp add: demo_consumer_def EventConsumer_new_def credits_def empty_db_def empty_tbl_def)
  have r: "run_credit ''mainnet'' [(1, None, Received (demo_event demo_address)),
       (2, Some AcquireTimeout, Received (demo_event demo_address)), (3, None, Received (demo_event ''kaspa:q'')), (4, None, Lagged 3),
       (5, None, ChannelClosed), (6, None, Received (demo_event demo_address))] = [(Some demo_address, Some ''rig1'', Fin 4, 100, 7)]"
    by code_simp
  have n: "cfg_network (ec_cfg (demo_consumer ''mainnet'')) = ''mainnet''" by (simp add: demo_consumer_def EventConsumer_new_def)
  show ?thesis
    using run_records_credited_work[OF demo_accounts surjective_pairing] c r n by simp
qed

text \<open>C19. A failed event is isolated: whatever the handler did before it
  failed, no row of the database changes, the error counter gets the event's
  kind and the error's label as its last tick, and the loop goes on to the next
  event.\<close>

theorem failed_event_isolated:
  assumes "accounts_ok (ec_db c)" and "handler now fault event (tick (EventSeen (variant event)) c) = (Err e, c1)"
  shows "fst (step now fault (Received event) c) = Continue \<and>
    ec_db (snd (step now fault (Received event) c)) = ec_db c \<and>
    (\<exists>ts. ec_ticks (snd (step now fault (Received event) c)) = ts @ [ErrorSeen (variant event) (error_kind e)])"
proof (intro conjI)
  have h: "handle_event now fault event c = tick (ErrorSeen (variant event) (error_kind e)) c1"
    by (simp add: handle_event_def assms(2))
  show "fst (step now fault (Received event) c) = Continue" by (simp add: step_def)
  show "ec_db (snd (step now fault (Received event) c)) = ec_db c"
    using handler_failed[OF assms] by (simp add: step_def h)
  show "\<exists>ts. ec_ticks (snd (step now fault (Received event) c)) = ts @ [ErrorSeen (variant event) (error_kind e)]"
    by (simp add: step_def h) (simp add: tick_def)
qed

theorem failed_event_isolated_witness:
  "ec_db (snd (step 1 None (Received (demo_event ''kaspa:q'')) (demo_consumer ''mainnet''))) = empty_db"
proof -
  have "\<not> wallet_check ''mainnet'' ''kaspa:q''" by code_simp
  then have "handler 1 None (demo_event ''kaspa:q'') (tick (EventSeen (variant (demo_event ''kaspa:q''))) (demo_consumer ''mainnet''))
      = (Err (WalletEnsure check_violation), tick (EventSeen (variant (demo_event ''kaspa:q''))) (demo_consumer ''mainnet''))"
    by (simp add: demo_event_def handle_share_credited_def in_tx_def ensure_identity_def wallet_ensure_def demo_consumer_def
        EventConsumer_new_def tick_def)
  from failed_event_isolated[OF demo_accounts this] show ?thesis by (simp add: demo_consumer_def EventConsumer_new_def)
qed



text \<open>C33. On the development networks the pool credits nobody: the consumer's
  configuration accepts them and the schema wants their own address prefixes,
  but an address the domain type admits has a mainnet or a testnet prefix, so
  every share-credited event fails and adds no row.\<close>

theorem devnet_credits_nothing:
  assumes "ConsumerConfig_new instance_id network = Ok cfg" and "network \<in> {''devnet'', ''simnet''}"
    and "WalletAddress_new s = Ok a" and "accounts_ok (ec_db c)" and "ec_cfg c = cfg"
  shows "credits (ec_db (handle_event now fault (ShareCredited a k diff daa ts cid) c)) = credits (ec_db c)"
proof -
  have "cfg = \<lparr> cfg_instance_id = instance_id, cfg_network = network \<rparr>"
    using assms(1) by (simp add: ConsumerConfig_new_def split: if_split_asm)
  then have "cfg_network (ec_cfg c) = network" using assms(5) by simp
  then have "credit_for (cfg_network (ec_cfg c)) fault (ShareCredited a k diff daa ts cid) = []"
    using devnet_checks[OF assms(2,3)] by (cases fault) simp_all
  then show ?thesis using handle_event_follows[OF assms(4)] by (simp add: follows_def)
qed

theorem devnet_credits_nothing_witness:
  "credits (ec_db (handle_event 1 None (ShareCredited demo_address ''rig1'' (Fin 4) 100 5 7) (demo_consumer ''devnet''))) =
     credits (ec_db (demo_consumer ''devnet''))"
proof (rule devnet_credits_nothing)
  show "ConsumerConfig_new ''pool-1'' ''devnet'' = Ok \<lparr> cfg_instance_id = ''pool-1'', cfg_network = ''devnet'' \<rparr>"
    by (simp add: ConsumerConfig_new_def VALID_NETWORKS_def)
  show "''devnet'' \<in> {''devnet'', ''simnet''}" by simp
  show "WalletAddress_new demo_address = Ok demo_address" by code_simp
  show "accounts_ok (ec_db (demo_consumer ''devnet''))" by (rule demo_accounts)
  show "ec_cfg (demo_consumer ''devnet'') = \<lparr> cfg_instance_id = ''pool-1'', cfg_network = ''devnet'' \<rparr>"
    by (simp add: demo_consumer_def EventConsumer_new_def)
qed

end
