(* ===== verification/Spec2Isabelle.thy ===== *)
theory Spec2Isabelle
  imports PayoutProps Krc20Safety Tier Rebate Maturity Consumer
begin

text \<open>
  Katpool: a Kaspa mining pool.  This development models the accounting and
  payout core of the workspace under \<open>src/\<close>.
\<close>

end
